(* ===== verification/Prelude.thy ===== *)
theory Prelude
  imports Main "HOL-Library.Word"
begin

text \<open>
  Vocabulary shared by every theory of the development: the machine-integer widths the crate
  uses, Rust's \<open>Result\<close> as a sum with its combinators, the outcome of a call that may panic,
  and the generic list, option and map facts the component proofs lean on.  The named
  collections let a component extend the automation once for all of its lemmas.
\<close>

named_theorems wire_simps
  \<open>defining equations of the wire formats (frames, heads, trailers, base64)\<close>

named_theorems host_simps
  \<open>defining equations of the capability hosts' operations\<close>

named_theorems inv_intros
  \<open>introduction rules: an operation keeps its component's invariant\<close>

section \<open>Widths\<close>

type_synonym u8 = "8 word"
type_synonym u16 = "16 word"
type_synonym u32 = "32 word"
type_synonym u64 = "64 word"
type_synonym i32 = "32 word"
type_synonym i64 = "64 word"
type_synonym bytes = "u8 list"

section \<open>Results\<close>

text \<open>\<open>Result<T, E>\<close> is the sum \<open>'e + 'a\<close>: \<open>Inl\<close> is \<open>Err\<close>, \<open>Inr\<close> is \<open>Ok\<close>.\<close>

type_synonym ('a, 'e) result = "'e + 'a"

abbreviation Ok :: "'a \<Rightarrow> ('a, 'e) result" where
  "Ok \<equiv> Inr"

abbreviation Err :: "'e \<Rightarrow> ('a, 'e) result" where
  "Err \<equiv> Inl"

text \<open>\<open>?\<close> and \<open>and_then\<close>; \<open>map\<close>; \<open>map_err\<close>; \<open>ok_or\<close>; \<open>ok()\<close>.\<close>

fun and_then :: "('a, 'e) result \<Rightarrow> ('a \<Rightarrow> ('b, 'e) result) \<Rightarrow> ('b, 'e) result" where
  "and_then (Inl e) f = Inl e"
| "and_then (Inr x) f = f x"

fun map_ok :: "('a \<Rightarrow> 'b) \<Rightarrow> ('a, 'e) result \<Rightarrow> ('b, 'e) result" where
  "map_ok f (Inl e) = Inl e"
| "map_ok f (Inr x) = Inr (f x)"

fun map_err :: "('e \<Rightarrow> 'f) \<Rightarrow> ('a, 'e) result \<Rightarrow> ('a, 'f) result" where
  "map_err f (Inl e) = Inl (f e)"
| "map_err f (Inr x) = Inr x"

fun ok_or :: "'e \<Rightarrow> 'a option \<Rightarrow> ('a, 'e) result" where
  "ok_or e None = Inl e"
| "ok_or e (Some x) = Inr x"

fun res_ok :: "('a, 'e) result \<Rightarrow> 'a option" where
  "res_ok (Inl e) = None"
| "res_ok (Inr x) = Some x"

fun unwrap_or :: "'a \<Rightarrow> 'a option \<Rightarrow> 'a" where
  "unwrap_or d None = d"
| "unwrap_or d (Some x) = x"

lemma and_then_Ok_iff: "and_then r f = Inr y \<longleftrightarrow> (\<exists>x. r = Inr x \<and> f x = Inr y)"
  by (cases r) auto

lemma and_then_Err_iff:
  "and_then r f = Inl e \<longleftrightarrow> r = Inl e \<or> (\<exists>x. r = Inr x \<and> f x = Inl e)"
  by (cases r) auto

lemma map_ok_Ok_iff [simp]: "map_ok f r = Inr y \<longleftrightarrow> (\<exists>x. r = Inr x \<and> y = f x)"
  by (cases r) auto

lemma map_ok_Err_iff [simp]: "map_ok f r = Inl e \<longleftrightarrow> r = Inl e"
  by (cases r) auto

lemma map_err_Ok_iff [simp]: "map_err f r = Inr y \<longleftrightarrow> r = Inr y"
  by (cases r) auto

lemma map_err_id: "map_err (\<lambda>e. e) r = r"
  by (cases r) auto

lemma res_ok_Some_iff [simp]: "res_ok r = Some x \<longleftrightarrow> r = Inr x"
  by (cases r) auto

lemma res_ok_None_iff [simp]: "res_ok r = None \<longleftrightarrow> (\<exists>e. r = Inl e)"
  by (cases r) auto

section \<open>Panics\<close>

text \<open>
  A closure run under \<open>std::panic::catch_unwind\<close> either returns or panics; the entry points
  of the C ABI turn the second into their error value with \<open>unwrap_or\<close>.
\<close>

datatype 'a outcome = Returned 'a | Panicked

fun catch_unwind :: "'a \<Rightarrow> 'a outcome \<Rightarrow> 'a" where
  "catch_unwind d (Returned x) = x"
| "catch_unwind d Panicked = d"

section \<open>Lists and maps\<close>

lemma concat_map_singleton: "concat (map (\<lambda>x. [f x]) xs) = map f xs"
  by (induction xs) auto

lemma length_filter_partition:
  "length (filter P xs) + length (filter (\<lambda>x. \<not> P x) xs) = length xs"
  by (induction xs) auto

lemma dom_upd_insert: "dom (m(k \<mapsto> v)) = insert k (dom m)"
  by simp

lemma finite_dom_upd: "finite (dom m) \<Longrightarrow> finite (dom (m(k \<mapsto> v)))"
  by simp

lemma dom_restrict_drop: "dom (m(k := None)) = dom m - {k}"
  by auto

text \<open>\<open>slice::chunks(n)\<close>, for the positive \<open>n\<close> it is called with (\<open>chunks(0)\<close> panics).\<close>

fun chunks :: "nat \<Rightarrow> 'a list \<Rightarrow> 'a list list" where
  "chunks n xs = (if n = 0 \<or> xs = [] then [] else take n xs # chunks n (drop n xs))"

declare chunks.simps [simp del]

lemma chunks_Nil [simp]: "chunks n [] = []"
  by (simp add: chunks.simps)

lemma chunks_short: "xs \<noteq> [] \<Longrightarrow> length xs \<le> n \<Longrightarrow> chunks n xs = [xs]"
  by (cases n) (auto simp: chunks.simps [of _ xs])

lemma chunks_append: "0 < n \<Longrightarrow> length xs = n \<Longrightarrow> chunks n (xs @ ys) = xs # chunks n ys"
  by (auto simp: chunks.simps [of _ "xs @ ys"])

section \<open>Codecs\<close>

text \<open>
  What an encoder and its decoder promise each other.  Every wire format of the crate has a
  decoder that undoes its encoder; the frame format is moreover exact: the decoder accepts
  nothing but encodings.
\<close>

locale codec =
  fixes enc :: "'a \<Rightarrow> 'w" and dec :: "'w \<Rightarrow> 'a option"
  assumes dec_enc: "dec (enc x) = Some x"
begin

lemma enc_eq_iff: "enc x = enc y \<longleftrightarrow> x = y"
  by (metis dec_enc option.inject)

lemma enc_injective: "inj enc"
  by (simp add: inj_def enc_eq_iff)

lemma decode_all: "those (map dec (map enc xs)) = Some xs"
  by (induction xs) (auto simp: dec_enc)

end

locale exact_codec = codec +
  assumes enc_dec: "dec w = Some x \<Longrightarrow> enc x = w"
begin

lemma dec_Some_iff: "dec w = Some x \<longleftrightarrow> w = enc x"
  using dec_enc enc_dec by blast

lemma decode_all_iff: "those (map dec ws) = Some xs \<longleftrightarrow> ws = map enc xs"
proof (induction ws arbitrary: xs)
  case Nil
  then show ?case by auto
next
  case (Cons w ws)
  then show ?case
    by (cases xs; cases "dec w") (auto simp: dec_enc dec_Some_iff enc_eq_iff)
qed

end

end
