(* ===== verification/Frames.thy ===== *)
theory Frames
  imports Prelude
begin

text \<open>
  \<open>src/wasi_http_frames.rs\<close>: the kind-tagged OUT-frame format of the \<open>wasi:http@0.3\<close>
  transport and its reference parser.  \<open>request_frames\<close> states the grammar
  \<open>HEAD BODY* TRAILERS?\<close>; the parser accepts exactly its sentences.
\<close>

section \<open>Frame kinds\<close>

definition KIND_HEAD :: u8 where "KIND_HEAD = 0x01"
definition KIND_BODY :: u8 where "KIND_BODY = 0x02"
definition KIND_TRAILERS :: u8 where "KIND_TRAILERS = 0x03"

lemmas kind_defs [wire_simps] = KIND_HEAD_def KIND_BODY_def KIND_TRAILERS_def

datatype OutFrameKind = Head | Body | Trailers

fun tag :: "OutFrameKind \<Rightarrow> u8" where
  "tag Head = KIND_HEAD"
| "tag Body = KIND_BODY"
| "tag Trailers = KIND_TRAILERS"

definition from_tag :: "u8 \<Rightarrow> OutFrameKind option" where
  "from_tag t =
     (if t = KIND_HEAD then Some Head
      else if t = KIND_BODY then Some Body
      else if t = KIND_TRAILERS then Some Trailers
      else None)"

section \<open>One frame\<close>

definition encode :: "OutFrameKind \<Rightarrow> bytes \<Rightarrow> bytes" where
  "encode kind payload = tag kind # payload"

definition decode :: "bytes \<Rightarrow> (OutFrameKind \<times> bytes) option" where
  "decode frame =
     (case frame of
        [] \<Rightarrow> None
      | t # payload \<Rightarrow> map_option (\<lambda>k. (k, payload)) (from_tag t))"

section \<open>Reassembly\<close>

datatype FrameError =
    Empty
  | UnknownKind nat
  | MissingHead
  | DuplicateHead nat
  | AfterTrailers nat

record RequestFrames =
  rf_head :: bytes
  rf_body :: bytes
  rf_trailers :: "bytes option"

definition default_frames :: RequestFrames where
  "default_frames = \<lparr>rf_head = [], rf_body = [], rf_trailers = None\<rparr>"

text \<open>One turn of the loop body: the frame at position \<open>index\<close>.\<close>

definition parse_frame ::
  "nat \<Rightarrow> RequestFrames \<Rightarrow> bytes \<Rightarrow> (RequestFrames, FrameError) result" where
  "parse_frame index out frame =
     (case decode frame of
        None \<Rightarrow> Err (UnknownKind index)
      | Some (kind, payload) \<Rightarrow>
          if rf_trailers out \<noteq> None then Err (AfterTrailers index)
          else if index = 0 then
            (case kind of
               Head \<Rightarrow> Ok (out\<lparr>rf_head := payload\<rparr>)
             | _ \<Rightarrow> Err MissingHead)
          else
            (case kind of
               Head \<Rightarrow> Err (DuplicateHead index)
             | Body \<Rightarrow> Ok (out\<lparr>rf_body := rf_body out @ payload\<rparr>)
             | Trailers \<Rightarrow> Ok (out\<lparr>rf_trailers := Some payload\<rparr>)))"

fun parse_loop ::
  "nat \<Rightarrow> RequestFrames \<Rightarrow> bytes list \<Rightarrow> (RequestFrames, FrameError) result" where
  "parse_loop index out [] = Ok out"
| "parse_loop index out (f # fs) = and_then (parse_frame index out f) (\<lambda>out. parse_loop (Suc index) out fs)"

definition parse_request_frames :: "bytes list \<Rightarrow> (RequestFrames, FrameError) result" where
  "parse_request_frames frames =
     and_then (parse_loop 0 default_frames frames)
       (\<lambda>out. if frames \<noteq> [] then Ok out else Err Empty)"

section \<open>The grammar\<close>

definition request_frames :: "bytes \<Rightarrow> bytes list \<Rightarrow> bytes option \<Rightarrow> bytes list" where
  "request_frames h bs t =
     encode Head h # map (encode Body) bs @
       (case t of None \<Rightarrow> [] | Some v \<Rightarrow> [encode Trailers v])"

lemma from_tag_tag [simp]: "from_tag (tag k) = Some k"
  by (cases k) (simp_all add: from_tag_def kind_defs)

lemma from_tag_Some: "from_tag t = Some k \<longleftrightarrow> t = tag k"
  by (cases k) (auto simp: from_tag_def kind_defs split: if_splits)

interpretation kind_codec: exact_codec tag from_tag
  by unfold_locales (auto simp: from_tag_Some)

interpretation frame_codec: exact_codec "\<lambda>(k, p). encode k p" decode
  by unfold_locales (auto simp: encode_def decode_def from_tag_Some split: list.splits)

lemma decode_encode [simp]: "decode (encode k p) = Some (k, p)"
  using frame_codec.dec_enc [of "(k, p)"] by simp

lemma decode_Some_iff: "decode f = Some (k, p) \<longleftrightarrow> f = encode k p"
  using frame_codec.dec_Some_iff [of f "(k, p)"] by simp

lemma decode_None_iff: "decode f = None \<longleftrightarrow> (\<forall>k p. f \<noteq> encode k p)"
  by (metis decode_Some_iff not_None_eq surj_pair)

section \<open>Parsing lemmas\<close>

lemma parse_loop_bodies:
  assumes "rf_trailers out = None" and "0 < i"
  shows "parse_loop i out (map (encode Body) bs @ fs) =
    parse_loop (i + length bs) (out\<lparr>rf_body := rf_body out @ concat bs\<rparr>) fs"
  using assms
  by (induction bs arbitrary: i out) (auto simp: parse_frame_def)

text \<open>Past the head, a successful parse consumed body frames and at most one trailers frame.\<close>

lemma parse_loop_after_trailers:
  "rf_trailers out \<noteq> None \<Longrightarrow> parse_loop i out fs = Ok r \<Longrightarrow> fs = [] \<and> r = out"
  by (cases fs) (auto simp: parse_frame_def and_then_Ok_iff split: option.splits)

lemma parse_loop_tail:
  assumes "rf_trailers out = None" and "0 < i" and "parse_loop i out fs = Ok r"
  shows "\<exists>bs t. fs = map (encode Body) bs @ (case t of None \<Rightarrow> [] | Some v \<Rightarrow> [encode Trailers v])
    \<and> r = out\<lparr>rf_body := rf_body out @ concat bs, rf_trailers := t\<rparr>"
  using assms
proof (induction fs arbitrary: i out)
  case Nil
  then show ?case by (intro exI [of _ "[]"] exI [of _ None]) simp
next
  case (Cons f fs)
  then obtain out' where step: "parse_frame i out f = Ok out'"
    and rest: "parse_loop (Suc i) out' fs = Ok r"
    by (auto simp: and_then_Ok_iff)
  from step Cons.prems obtain k p where f: "f = encode k p" and k: "k \<noteq> Head"
    by (auto simp: parse_frame_def decode_Some_iff split: option.splits OutFrameKind.splits)
  show ?case
  proof (cases k)
    case Head
    with k show ?thesis by simp
  next
    case Body
    with step f Cons.prems have "out' = out\<lparr>rf_body := rf_body out @ p\<rparr>"
      by (auto simp: parse_frame_def)
    with Cons.IH [OF _ _ rest] Cons.prems obtain bs t where
      "fs = map (encode Body) bs @ (case t of None \<Rightarrow> [] | Some v \<Rightarrow> [encode Trailers v])"
      "r = out\<lparr>rf_body := rf_body out @ p @ concat bs, rf_trailers := t\<rparr>"
      by auto
    with f Body show ?thesis by (intro exI [of _ "p # bs"] exI [of _ t]) simp
  next
    case Trailers
    with step f Cons.prems have "out' = out\<lparr>rf_trailers := Some p\<rparr>"
      by (auto simp: parse_frame_def)
    with parse_loop_after_trailers [OF _ rest] have "fs = []" "r = out\<lparr>rf_trailers := Some p\<rparr>"
      by auto
    with f Trailers show ?thesis by (intro exI [of _ "[]"] exI [of _ "Some p"]) simp
  qed
qed

text \<open>The parser reads left to right: an error of a prefix is the error of the whole.\<close>

lemma parse_loop_append:
  "parse_loop i out (fs @ gs) =
     and_then (parse_loop i out fs) (\<lambda>out. parse_loop (i + length fs) out gs)"
proof (induction fs arbitrary: i out)
  case Nil
  then show ?case by simp
next
  case (Cons f fs)
  then show ?case by (cases "parse_frame i out f") simp_all
qed

fun error_index :: "FrameError \<Rightarrow> nat option" where
  "error_index Empty = None"
| "error_index (UnknownKind i) = Some i"
| "error_index MissingHead = Some 0"
| "error_index (DuplicateHead i) = Some i"
| "error_index (AfterTrailers i) = Some i"

lemma parse_frame_error_index: "parse_frame i out f = Err e \<Longrightarrow> error_index e = Some i"
  by (auto simp: parse_frame_def split: option.splits if_splits OutFrameKind.splits)

lemma parse_loop_error_split:
  assumes "parse_loop i out fs = Err e"
  shows "\<exists>j out'. j < length fs \<and> error_index e = Some (i + j) \<and>
    parse_loop i out (take j fs) = Ok out' \<and> parse_frame (i + j) out' (fs ! j) = Err e"
  using assms
proof (induction fs arbitrary: i out)
  case Nil
  then show ?case by simp
next
  case (Cons f fs)
  show ?case
  proof (cases "parse_frame i out f")
    case (Inl e')
    with Cons.prems have "parse_frame i out f = Err e" by simp
    then show ?thesis by (intro exI [of _ 0] exI [of _ out]) (simp add: parse_frame_error_index)
  next
    case (Inr out1)
    with Cons obtain j out' where "j < length fs" "error_index e = Some (Suc i + j)"
      "parse_loop (Suc i) out1 (take j fs) = Ok out'" "parse_frame (Suc i + j) out' (fs ! j) = Err e"
      by fastforce
    with Inr show ?thesis by (intro exI [of _ "Suc j"] exI [of _ out']) simp
  qed
qed

lemma parse_request_frames_Err_index:
  assumes "parse_request_frames fs = Err e" and "error_index e = Some i"
  shows "\<exists>out. i < length fs \<and> parse_loop 0 default_frames (take i fs) = Ok out \<and>
    parse_frame i out (fs ! i) = Err e"
proof -
  have "parse_loop 0 default_frames fs = Err e"
    using assms by (auto simp: parse_request_frames_def and_then_Err_iff split: if_splits)
  from parse_loop_error_split [OF this] assms(2) show ?thesis by auto
qed

lemma parse_accepts_iff:
  "parse_request_frames fs = Ok r \<longleftrightarrow>
     (\<exists>h bs t. fs = request_frames h bs t \<and>
        r = \<lparr>rf_head = h, rf_body = concat bs, rf_trailers = t\<rparr>)"
proof
  assume ok: "parse_request_frames fs = Ok r"
  then have ne: "fs \<noteq> []" and loop: "parse_loop 0 default_frames fs = Ok r"
    by (auto simp: parse_request_frames_def and_then_Ok_iff split: if_splits)
  from ne obtain f gs where fs: "fs = f # gs" by (cases fs) auto
  with loop obtain out where step: "parse_frame 0 default_frames f = Ok out"
    and rest: "parse_loop (Suc 0) out gs = Ok r"
    by (auto simp: and_then_Ok_iff)
  from step obtain h where h: "f = encode Head h" and out: "out = default_frames\<lparr>rf_head := h\<rparr>"
    by (auto simp: parse_frame_def decode_Some_iff split: option.splits if_splits OutFrameKind.splits)
  from parse_loop_tail [OF _ _ rest] out obtain bs t where
    "gs = map (encode Body) bs @ (case t of None \<Rightarrow> [] | Some v \<Rightarrow> [encode Trailers v])"
    "r = out\<lparr>rf_body := rf_body out @ concat bs, rf_trailers := t\<rparr>"
    by (auto simp: default_frames_def)
  then show "\<exists>h bs t. fs = request_frames h bs t \<and>
      r = \<lparr>rf_head = h, rf_body = concat bs, rf_trailers = t\<rparr>"
    using fs h out
    by (intro exI [of _ h] exI [of _ bs] exI [of _ t]) (simp add: request_frames_def default_frames_def)
next
  assume "\<exists>h bs t. fs = request_frames h bs t \<and>
      r = \<lparr>rf_head = h, rf_body = concat bs, rf_trailers = t\<rparr>"
  then show "parse_request_frames fs = Ok r"
    using parse_loop_bodies [of _ _ _ "[]"]
    by (auto simp: parse_request_frames_def request_frames_def default_frames_def
        parse_frame_def parse_loop_bodies split: option.splits)
qed

section \<open>Properties\<close>

text \<open>
  C10. The reference parser accepts exactly the frame sequences of the grammar
  \<open>HEAD BODY* TRAILERS?\<close> and gives back the head, the concatenated body and the trailers,
  whatever bytes the payloads hold: a frame is classified by its kind byte alone.
\<close>

theorem parse_request_frames_iff:
  "parse_request_frames fs = Ok r \<longleftrightarrow>
     (\<exists>h bs t. fs = request_frames h bs t \<and>
        r = \<lparr>rf_head = h, rf_body = concat bs, rf_trailers = t\<rparr>)"
  by (rule parse_accepts_iff)

text \<open>
  A malformed sequence is reported at its first offending frame: the reported index is in
  range, every earlier frame was accepted, and no continuation of the sequence up to that frame
  is accepted.
\<close>

theorem parse_request_frames_first_error:
  assumes "parse_request_frames fs = Err e" and "error_index e = Some i"
  shows "i < length fs \<and> parse_request_frames (take (Suc i) fs @ gs) = Err e \<and>
    (0 < i \<longrightarrow> (\<exists>r. parse_request_frames (take i fs) = Ok r))"
proof -
  from parse_request_frames_Err_index [OF assms] obtain out where
    i: "i < length fs" and pre: "parse_loop 0 default_frames (take i fs) = Ok out"
    and bad: "parse_frame i out (fs ! i) = Err e"
    by blast
  have "parse_loop 0 default_frames (take (Suc i) fs @ gs) = Err e"
    using i pre bad by (simp add: take_Suc_conv_app_nth parse_loop_append)
  then have "parse_request_frames (take (Suc i) fs @ gs) = Err e"
    by (simp add: parse_request_frames_def)
  moreover have "0 < i \<longrightarrow> (\<exists>r. parse_request_frames (take i fs) = Ok r)"
    using i pre by (auto simp: parse_request_frames_def)
  ultimately show ?thesis using i by blast
qed

theorem parse_request_frames_first_error_witness:
  "parse_request_frames [[1, 71], [2, 65], [1, 72], [3]] = Err (DuplicateHead 2) \<and>
   parse_request_frames [[1, 71], [2, 65], [1, 72], [9, 9]] = Err (DuplicateHead 2)"
proof -
  have e: "parse_request_frames [[1, 71], [2, 65], [1, 72], [3]] = Err (DuplicateHead 2)"
    by code_simp
  from parse_request_frames_first_error [OF e, of 2 "[[9, 9]]"] e show ?thesis
    by (simp add: numeral_2_eq_2 numeral_3_eq_3)
qed

end
