(* ===== verification/Rust_Text.thy ===== *)
theory Rust_Text
  imports Rust_Str
begin

unbundle bit_operations_syntax

text \<open>
  UTF-8 and numbers: \<open>as_bytes\<close>, \<open>from_utf8_lossy\<close>, decimal and hexadecimal formatting and
  the integer parser of \<open>str::parse\<close>.
\<close>

section \<open>Encoding\<close>

definition utf8_code :: "nat \<Rightarrow> nat list" where
  "utf8_code c =
     (if c < 0x80 then [c]
      else if c < 0x800 then [0xC0 + (c div 64) mod 32, 0x80 + c mod 64]
      else if c < 0x10000 then
        [0xE0 + (c div 4096) mod 16, 0x80 + (c div 64) mod 64, 0x80 + c mod 64]
      else
        [0xF0 + (c div 262144) mod 8, 0x80 + (c div 4096) mod 64,
         0x80 + (c div 64) mod 64, 0x80 + c mod 64])"

definition utf8_char :: "nat \<Rightarrow> bytes" where
  "utf8_char c = map of_nat (utf8_code c)"

definition as_bytes :: "rstr \<Rightarrow> bytes" where
  "as_bytes s = concat (map utf8_char s)"

definition is_ascii :: "rstr \<Rightarrow> bool" where
  "is_ascii s \<longleftrightarrow> (\<forall>c \<in> set s. c < 0x80)"

text \<open>A Rust \<open>char\<close>: a code point that is not a surrogate.\<close>

definition valid_char :: "nat \<Rightarrow> bool" where
  "valid_char c \<longleftrightarrow> c < 0xD800 \<or> 0xDFFF < c \<and> c < 0x110000"

definition valid_str :: "rstr \<Rightarrow> bool" where
  "valid_str s \<longleftrightarrow> (\<forall>c \<in> set s. valid_char c)"

lemma as_bytes_Nil [simp]: "as_bytes [] = []"
  by (simp add: as_bytes_def)

lemma as_bytes_Cons: "as_bytes (c # s) = utf8_char c @ as_bytes s"
  by (simp add: as_bytes_def)

lemma as_bytes_append [simp]: "as_bytes (s @ t) = as_bytes s @ as_bytes t"
  by (simp add: as_bytes_def)

lemma as_bytes_ascii: "is_ascii s \<Longrightarrow> as_bytes s = map of_nat s"
  by (induction s) (auto simp: as_bytes_def utf8_char_def utf8_code_def is_ascii_def)

lemma utf8_code_bound: "b \<in> set (utf8_code c) \<Longrightarrow> b < 0x100"
  by (auto simp: utf8_code_def split: if_splits)

lemma utf8_code_high: "0x80 \<le> c \<Longrightarrow> b \<in> set (utf8_code c) \<Longrightarrow> 0x80 \<le> b"
  by (auto simp: utf8_code_def split: if_splits)

lemma unat_of_nat_u8: "n < 0x100 \<Longrightarrow> unat (of_nat n :: u8) = n"
  by (simp add: unat_of_nat take_bit_nat_eq_self)

lemma unat_utf8_char: "map unat (utf8_char c) = utf8_code c"
  by (simp add: utf8_char_def map_idI unat_of_nat_u8 utf8_code_bound)

text \<open>An ASCII byte occurs in the encoding exactly when its character occurs in the string.\<close>

lemma ascii_in_as_bytes:
  assumes "n < 0x80"
  shows "of_nat n \<in> set (as_bytes s) \<longleftrightarrow> n \<in> set s"
proof (induction s)
  case Nil
  then show ?case by simp
next
  case (Cons c s)
  have "of_nat n \<in> set (utf8_char c) \<longleftrightarrow> n \<in> set (utf8_code c)"
    using assms unat_of_nat_u8 utf8_code_bound [of _ c] unat_utf8_char [of c]
    by (smt (verit) image_iff list.set_map order_less_trans numeral_less_iff
        semiring_norm(76,78,80) utf8_char_def)
  also have "\<dots> \<longleftrightarrow> n = c"
    using assms utf8_code_high [of c n] by (cases "c < 0x80") (auto simp: utf8_code_def)
  finally have "of_nat n \<in> set (utf8_char c) \<longleftrightarrow> n = c" .
  with Cons show ?case by (simp add: as_bytes_Cons)
qed

section \<open>Lossy decoding\<close>

definition is_cont :: "nat \<Rightarrow> bool" where
  "is_cont b \<longleftrightarrow> 0x80 \<le> b \<and> b \<le> 0xBF"

text \<open>Which second byte may follow a three- or four-byte lead.\<close>

definition second3_ok :: "nat \<Rightarrow> nat \<Rightarrow> bool" where
  "second3_ok b c \<longleftrightarrow>
     b = 0xE0 \<and> 0xA0 \<le> c \<and> c \<le> 0xBF \<or> 0xE1 \<le> b \<and> b \<le> 0xEC \<and> is_cont c \<or>
     b = 0xED \<and> 0x80 \<le> c \<and> c \<le> 0x9F \<or> 0xEE \<le> b \<and> b \<le> 0xEF \<and> is_cont c"

definition second4_ok :: "nat \<Rightarrow> nat \<Rightarrow> bool" where
  "second4_ok b c \<longleftrightarrow>
     b = 0xF0 \<and> 0x90 \<le> c \<and> c \<le> 0xBF \<or> 0xF1 \<le> b \<and> b \<le> 0xF3 \<and> is_cont c \<or>
     b = 0xF4 \<and> 0x80 \<le> c \<and> c \<le> 0x8F"

text \<open>One decoding step on a non-empty input: the character and the rest.\<close>

definition lossy_step :: "nat \<Rightarrow> nat list \<Rightarrow> nat \<times> nat list" where
  "lossy_step b bs =
     (if b < 0x80 then (b, bs)
      else if 0xC2 \<le> b \<and> b \<le> 0xDF then
        (case bs of
           c # cs \<Rightarrow> if is_cont c then ((b - 0xC0) * 64 + (c - 0x80), cs) else (0xFFFD, bs)
         | [] \<Rightarrow> (0xFFFD, []))
      else if 0xE0 \<le> b \<and> b \<le> 0xEF then
        (case bs of
           c # cs \<Rightarrow>
             if second3_ok b c then
               (case cs of
                  d # ds \<Rightarrow>
                    if is_cont d
                    then ((b - 0xE0) * 4096 + (c - 0x80) * 64 + (d - 0x80), ds)
                    else (0xFFFD, cs)
                | [] \<Rightarrow> (0xFFFD, []))
             else (0xFFFD, bs)
         | [] \<Rightarrow> (0xFFFD, []))
      else if 0xF0 \<le> b \<and> b \<le> 0xF4 then
        (case bs of
           c # cs \<Rightarrow>
             if second4_ok b c then
               (case cs of
                  d # ds \<Rightarrow>
                    if is_cont d then
                      (case ds of
                         e # es \<Rightarrow>
                           if is_cont e
                           then ((b - 0xF0) * 262144 + (c - 0x80) * 4096
                                 + (d - 0x80) * 64 + (e - 0x80), es)
                           else (0xFFFD, ds)
                       | [] \<Rightarrow> (0xFFFD, []))
                    else (0xFFFD, cs)
                | [] \<Rightarrow> (0xFFFD, []))
             else (0xFFFD, bs)
         | [] \<Rightarrow> (0xFFFD, []))
      else (0xFFFD, bs))"

lemma lossy_step_shrinks: "length (snd (lossy_step b bs)) \<le> length bs"
  by (auto simp: lossy_step_def split: list.splits)

function lossy :: "nat list \<Rightarrow> rstr" where
  "lossy [] = []"
| "lossy (b # bs) = fst (lossy_step b bs) # lossy (snd (lossy_step b bs))"
  by pat_completeness auto
termination
  by (relation "measure length") (auto simp: le_imp_less_Suc lossy_step_shrinks)

definition from_utf8_lossy :: "bytes \<Rightarrow> rstr" where
  "from_utf8_lossy bs = lossy (map unat bs)"

text \<open>Every decoded text is a Rust string: scalar values only, no surrogates.\<close>

lemma second3_valid: "second3_ok b c \<Longrightarrow> is_cont d \<Longrightarrow>
    valid_char ((b - 0xE0) * 4096 + (c - 0x80) * 64 + (d - 0x80))"
  unfolding second3_ok_def is_cont_def valid_char_def by (elim disjE conjE) linarith+

lemma second4_valid: "second4_ok b c \<Longrightarrow> is_cont d \<Longrightarrow> is_cont e \<Longrightarrow>
    valid_char ((b - 0xF0) * 262144 + (c - 0x80) * 4096 + (d - 0x80) * 64 + (e - 0x80))"
  unfolding second4_ok_def is_cont_def valid_char_def by (elim disjE conjE) linarith+

lemma lossy_step_valid: "valid_char (fst (lossy_step b bs))"
proof -
  have two: "valid_char ((b - 0xC0) * 64 + (c - 0x80))" if "b \<le> 0xDF" "is_cont c" for c
    using that unfolding valid_char_def is_cont_def by linarith
  have one: "valid_char b" if "b < 0x80" using that by (simp add: valid_char_def)
  have bad: "valid_char 0xFFFD" by (simp add: valid_char_def)
  note facts = one two bad second3_valid second4_valid
  consider "b < 0x80" | "0xC2 \<le> b" "b \<le> 0xDF" | "0xE0 \<le> b" "b \<le> 0xEF" | "0xF0 \<le> b" "b \<le> 0xF4"
    | "0x80 \<le> b" "b < 0xC2 \<or> 0xF4 < b" by linarith
  then show ?thesis
  proof cases
    case 2
    then show ?thesis by (cases bs) (simp_all add: lossy_step_def facts)
  next
    case 3
    then show ?thesis
      by (cases bs; cases "tl bs") (simp_all add: lossy_step_def facts del: diff_is_0_eq)
  next
    case 4
    then show ?thesis
      by (cases bs; cases "tl bs"; cases "tl (tl bs)") (simp_all add: lossy_step_def facts del: diff_is_0_eq)
  qed (auto simp: lossy_step_def facts)
qed

lemma from_utf8_lossy_valid: "valid_str (from_utf8_lossy bs)"
proof -
  have "list_all valid_char (lossy ns)" for ns
    by (induction ns rule: lossy.induct) (simp_all add: lossy_step_valid)
  then show ?thesis by (simp add: from_utf8_lossy_def valid_str_def list_all_iff)
qed

text \<open>Decoding never invents an ASCII character.\<close>

lemma multibyte_not_ascii:
  "0xC2 \<le> b \<Longrightarrow> 0x80 \<le> (b - 0xC0) * 64 + (x::nat)"
  "second3_ok b c \<Longrightarrow> 0x80 \<le> (b - 0xE0) * 4096 + (c - 0x80) * 64 + x"
  "second4_ok b c \<Longrightarrow> 0x80 \<le> (b - 0xF0) * 262144 + (c - 0x80) * 4096 + y * 64 + x"
  unfolding second3_ok_def second4_ok_def is_cont_def by linarith+

lemma lossy_step_not_ascii: "0x80 \<le> b \<Longrightarrow> 0x80 \<le> fst (lossy_step b bs)"
  by (simp add: lossy_step_def multibyte_not_ascii split: list.split)

lemma lossy_step_ascii: "fst (lossy_step b bs) < 0x80 \<Longrightarrow> fst (lossy_step b bs) = b"
  using lossy_step_not_ascii [of b bs] by (cases "b < 0x80") (auto simp: lossy_step_def)

lemma lossy_step_rest: "set (snd (lossy_step b bs)) \<subseteq> set bs"
  by (auto simp: lossy_step_def split: list.splits)

lemma lossy_ascii_from_input: "n < 0x80 \<Longrightarrow> n \<in> set (lossy bs) \<Longrightarrow> n \<in> set bs"
proof (induction bs rule: lossy.induct)
  case (2 b bs)
  then show ?case
    using lossy_step_ascii [of b bs] lossy_step_rest [of b bs] by auto
qed simp

lemma from_utf8_lossy_ascii:
  assumes "n < 0x80" and "n \<in> set (from_utf8_lossy bs)"
  shows "of_nat n \<in> set bs"
proof -
  from assms have "n \<in> set (map unat bs)"
    using lossy_ascii_from_input [of n "map unat bs"] unfolding from_utf8_lossy_def by blast
  then show ?thesis by auto
qed

text \<open>On the encoding of a valid string, decoding is the identity.\<close>

lemma base64_digits: "(c::nat) = 4096 * (c div 4096) + 64 * (c div 64 mod 64) + c mod 64"
proof -
  have "c div 4096 = c div 64 div 64" using div_mult2_eq [of c 64 64] by simp
  then show ?thesis using mult_div_mod_eq [of 64 c] mult_div_mod_eq [of 64 "c div 64"] by linarith
qed

lemma base64_digits4:
  "(c::nat) = 262144 * (c div 262144) + 4096 * (c div 4096 mod 64) + 64 * (c div 64 mod 64) + c mod 64"
proof -
  have "c div 262144 = c div 4096 div 64" using div_mult2_eq [of c 4096 64] by simp
  then show ?thesis using base64_digits [of c] mult_div_mod_eq [of 64 "c div 4096"] by linarith
qed

lemma second3_code:
  assumes "c = 4096 * a + 64 * m + r" "m < 64" "r < 64" "0x800 \<le> c" "c < 0x10000" "valid_char c"
  shows "second3_ok (0xE0 + a) (0x80 + m)"
proof -
  have "a < 16" using assms by linarith
  moreover have "a = 0 \<Longrightarrow> 32 \<le> m" using assms by linarith
  moreover have "a = 13 \<Longrightarrow> m < 32" using assms unfolding valid_char_def by linarith
  ultimately show ?thesis using assms(2) unfolding second3_ok_def is_cont_def by linarith
qed

lemma second4_code:
  assumes "c = 262144 * a + 4096 * m + 64 * k + r" "m < 64" "k < 64" "r < 64"
    and "0x10000 \<le> c" "c < 0x110000"
  shows "second4_ok (0xF0 + a) (0x80 + m)"
proof -
  have "a < 5" using assms by linarith
  moreover have "a = 0 \<Longrightarrow> 16 \<le> m" using assms by linarith
  moreover have "a = 4 \<Longrightarrow> m < 16" using assms by linarith
  ultimately show ?thesis using assms(2) unfolding second4_ok_def is_cont_def by linarith
qed

lemma lossy_step_utf8_char:
  assumes "valid_char c"
  shows "\<exists>b bs'. utf8_code c = b # bs' \<and> lossy_step b (bs' @ rest) = (c, rest)"
proof -
  consider "c < 0x80" | "0x80 \<le> c" "c < 0x800" | "0x800 \<le> c" "c < 0x10000"
    | "0x10000 \<le> c" "c < 0x110000"
    using assms unfolding valid_char_def by linarith
  then show ?thesis
  proof cases
    case 1
    then show ?thesis
      by (simp add: utf8_code_def lossy_step_def)
  next
    case 2
    then have "c div 64 < 32" "2 \<le> c div 64" by auto
    with 2 show ?thesis
      by (simp add: utf8_code_def lossy_step_def is_cont_def)
  next
    case 3
    have q: "c = 4096 * (c div 4096) + 64 * (c div 64 mod 64) + c mod 64"
      by (rule base64_digits)
    have "c div 4096 < 16" using 3 by auto
    moreover have "second3_ok (0xE0 + c div 4096) (0x80 + c div 64 mod 64)"
      using second3_code [OF q] 3 assms by simp
    ultimately show ?thesis using 3 q
      by (simp add: utf8_code_def lossy_step_def is_cont_def
          mult.commute)
  next
    case 4
    have q: "c = 262144 * (c div 262144) + 4096 * (c div 4096 mod 64)
        + 64 * (c div 64 mod 64) + c mod 64"
      by (rule base64_digits4)
    have "c div 262144 < 8" using 4 by auto
    moreover have "c div 262144 \<le> 4" using 4 by auto
    moreover have "second4_ok (0xF0 + c div 262144) (0x80 + c div 4096 mod 64)"
      using second4_code [OF q] 4 by simp
    moreover have "c mod 64 \<le> 63" "c div 64 mod 64 \<le> 63" by (simp_all add: less_Suc_eq_le [symmetric])
    ultimately show ?thesis using 4 q
      by (simp add: utf8_code_def lossy_step_def is_cont_def
          mult.commute)
  qed
qed

lemma lossy_utf8_char:
  assumes "valid_char c"
  shows "lossy (utf8_code c @ rest) = c # lossy rest"
  using lossy_step_utf8_char [OF assms, of rest] by auto

lemma from_utf8_lossy_as_bytes: "valid_str s \<Longrightarrow> from_utf8_lossy (as_bytes s) = s"
proof (induction s)
  case Nil
  then show ?case by (simp add: from_utf8_lossy_def)
next
  case (Cons c s)
  then have "valid_char c" and "valid_str s" by (auto simp: valid_str_def)
  with Cons.IH show ?case
    by (simp add: from_utf8_lossy_def as_bytes_Cons unat_utf8_char lossy_utf8_char)
qed

section \<open>Integers as text\<close>

fun dec_digits :: "nat \<Rightarrow> rstr" where
  "dec_digits n = (if n < 10 then [48 + n] else dec_digits (n div 10) @ [48 + n mod 10])"

declare dec_digits.simps [simp del]

lemma dec_digits_nonempty [simp]: "dec_digits n \<noteq> []"
  by (subst dec_digits.simps) simp

lemma dec_digits_set: "c \<in> set (dec_digits n) \<Longrightarrow> 48 \<le> c \<and> c \<le> 57"
proof (induction n rule: dec_digits.induct)
  case (1 n)
  show ?case
  proof (cases "n < 10")
    case True
    with "1.prems" show ?thesis by (simp add: dec_digits.simps [of n])
  next
    case False
    with 1 show ?thesis by (auto simp: dec_digits.simps [of n])
  qed
qed

definition to_digit :: "nat \<Rightarrow> nat \<Rightarrow> nat option" where
  "to_digit radix c =
     (let d = (if 48 \<le> c \<and> c \<le> 57 then Some (c - 48)
               else if 97 \<le> c \<and> c \<le> 122 then Some (c - 97 + 10)
               else if 65 \<le> c \<and> c \<le> 90 then Some (c - 65 + 10) else None)
      in case d of Some v \<Rightarrow> if v < radix then Some v else None | None \<Rightarrow> None)"

fun parse_digits :: "nat \<Rightarrow> nat \<Rightarrow> rstr \<Rightarrow> nat option" where
  "parse_digits radix acc [] = Some acc"
| "parse_digits radix acc (c # s) =
     (case to_digit radix c of
        Some d \<Rightarrow> parse_digits radix (acc * radix + d) s
      | None \<Rightarrow> None)"

text \<open>
  \<open>str::parse\<close> for an unsigned type with maximum \<open>m\<close>: an optional \<open>+\<close>, at least one digit,
  and a value that fits.
\<close>

definition parse_unsigned :: "nat \<Rightarrow> rstr \<Rightarrow> nat option" where
  "parse_unsigned m s =
     (let ds = (case s of c # t \<Rightarrow> if c = 43 then t else s | [] \<Rightarrow> s)
      in if ds = [] then None
         else case parse_digits 10 0 ds of
                Some v \<Rightarrow> if v \<le> m then Some v else None
              | None \<Rightarrow> None)"

lemma parse_digits_append:
  "parse_digits r acc (s @ t) =
     (case parse_digits r acc s of Some a \<Rightarrow> parse_digits r a t | None \<Rightarrow> None)"
  by (induction s arbitrary: acc) (auto split: option.splits)

lemma to_digit_dec: "n < 10 \<Longrightarrow> to_digit 10 (48 + n) = Some n"
  by (simp add: to_digit_def)

lemma parse_digits_dec: "parse_digits 10 0 (dec_digits n) = Some n"
proof (induction n rule: dec_digits.induct)
  case (1 n)
  show ?case
  proof (cases "n < 10")
    case True
    then show ?thesis by (simp add: dec_digits.simps [of n] to_digit_dec)
  next
    case False
    with 1 show ?thesis
      by (simp add: dec_digits.simps [of n] parse_digits_append to_digit_dec)
  qed
qed

lemma parse_unsigned_dec: "n \<le> m \<Longrightarrow> parse_unsigned m (dec_digits n) = Some n"
proof -
  assume n: "n \<le> m"
  have "hd (dec_digits n) \<noteq> 43"
    using dec_digits_set [of "hd (dec_digits n)" n] by auto
  then have "(case dec_digits n of c # t \<Rightarrow> if c = 43 then t else dec_digits n
      | [] \<Rightarrow> dec_digits n) = dec_digits n"
    by (cases "dec_digits n") auto
  with n show ?thesis by (simp add: parse_unsigned_def parse_digits_dec)
qed

lemma parse_unsigned_bound: "parse_unsigned m s = Some v \<Longrightarrow> v \<le> m"
  by (auto simp: parse_unsigned_def Let_def split: option.splits if_splits)

end
