(* ===== verification/Base64.thy ===== *)
theory Base64
  imports Rust_Text
begin

unbundle bit_operations_syntax

text \<open>
  \<open>src/plugin_host_bytes.rs\<close>: the padded base64 that carries bytes over the string-based
  storage wire.  Bit arithmetic is on \<open>u8\<close>, with Rust's truncating shifts.
\<close>

section \<open>Definitions\<close>

definition ALPHABET :: bytes where
  "ALPHABET = blit ''ABCDEFGHIJKLMNOPQRSTUVWXYZabcdefghijklmnopqrstuvwxyz0123456789+/''"

definition alphabet_char :: "u8 \<Rightarrow> nat" where
  "alphabet_char i = unat (ALPHABET ! unat i)"

text \<open>The body of the encoding loop, for one chunk of one to three bytes.\<close>

definition b64_encode_chunk :: "bytes \<Rightarrow> rstr" where
  "b64_encode_chunk chunk =
     (let b0 = chunk ! 0;
          b1 = (if 1 < length chunk then chunk ! 1 else 0);
          b2 = (if 2 < length chunk then chunk ! 2 else 0)
      in [alphabet_char (drop_bit 2 b0),
          alphabet_char (push_bit 4 (b0 AND 0x03) OR drop_bit 4 b1),
          if 1 < length chunk then alphabet_char (push_bit 2 (b1 AND 0x0f) OR drop_bit 6 b2) else 61,
          if 2 < length chunk then alphabet_char (b2 AND 0x3f) else 61])"

definition b64_encode :: "bytes \<Rightarrow> rstr" where
  "b64_encode input = concat (map b64_encode_chunk (chunks 3 input))"

definition b64_val :: "u8 \<Rightarrow> u8 option" where
  "b64_val c =
     (if 65 \<le> c \<and> c \<le> 90 then Some (c - 65)
      else if 97 \<le> c \<and> c \<le> 122 then Some (c - 97 + 26)
      else if 48 \<le> c \<and> c \<le> 57 then Some (c - 48 + 52)
      else if c = 43 then Some 62
      else if c = 47 then Some 63
      else None)"

definition is_ascii_whitespace :: "u8 \<Rightarrow> bool" where
  "is_ascii_whitespace c \<longleftrightarrow> c = 32 \<or> c = 9 \<or> c = 10 \<or> c = 12 \<or> c = 13"

definition b64_symbols :: "rstr \<Rightarrow> bytes" where
  "b64_symbols input = filter (\<lambda>c. c \<noteq> 61 \<and> \<not> is_ascii_whitespace c) (as_bytes input)"

text \<open>The body of the decoding loop: \<open>None\<close> is the early return of the whole function.\<close>

definition b64_decode_chunk :: "bytes \<Rightarrow> bytes option" where
  "b64_decode_chunk chunk =
     (if length chunk < 2 then None
      else case b64_val (chunk ! 0) of None \<Rightarrow> None | Some v0 \<Rightarrow>
        (case b64_val (chunk ! 1) of None \<Rightarrow> None | Some v1 \<Rightarrow>
          (let out = [push_bit 2 v0 OR drop_bit 4 v1]
           in if 3 \<le> length chunk then
                (case b64_val (chunk ! 2) of None \<Rightarrow> None | Some v2 \<Rightarrow>
                  (let out = out @ [push_bit 4 (v1 AND 0x0f) OR drop_bit 2 v2]
                   in if length chunk = 4 then
                        (case b64_val (chunk ! 3) of None \<Rightarrow> None | Some v3 \<Rightarrow>
                           Some (out @ [push_bit 6 (v2 AND 0x03) OR v3]))
                      else Some out))
              else Some out)))"

fun b64_decode_chunks :: "bytes list \<Rightarrow> bytes \<Rightarrow> bytes option" where
  "b64_decode_chunks [] out = Some out"
| "b64_decode_chunks (chunk # rest) out =
     (case b64_decode_chunk chunk of
        None \<Rightarrow> None
      | Some bs \<Rightarrow> b64_decode_chunks rest (out @ bs))"

definition b64_decode :: "rstr \<Rightarrow> bytes option" where
  "b64_decode input = b64_decode_chunks (chunks 4 (b64_symbols input)) []"

section \<open>Alphabet\<close>

definition b64_symbol :: "u8 \<Rightarrow> u8 \<Rightarrow> bool" where
  "b64_symbol i c \<longleftrightarrow>
     b64_val c = Some i \<and> c < 0x80 \<and> c \<noteq> 61 \<and> \<not> is_ascii_whitespace c"

lemma alphabet_symbols: "list_all2 b64_symbol (map of_nat [0..<64]) ALPHABET"
  by (simp add: ALPHABET_def blit_def b64_symbol_def b64_val_def is_ascii_whitespace_def
      upt_conv_Cons of_char_def)

lemma b64_symbol_nth: "i < 64 \<Longrightarrow> b64_symbol (of_nat i) (ALPHABET ! i)"
  using list_all2_nthD2 [OF alphabet_symbols, of i] alphabet_symbols
  by (auto dest: list_all2_lengthD)

lemma alphabet_char_props:
  assumes "i < 64"
  shows "b64_val (of_nat (alphabet_char i)) = Some i" and "alphabet_char i < 0x80"
    and "(of_nat (alphabet_char i) :: u8) \<noteq> 61"
    and "\<not> is_ascii_whitespace (of_nat (alphabet_char i))"
proof -
  have "unat i < 64" using assms by (simp add: word_less_nat_alt)
  from b64_symbol_nth [OF this] show "b64_val (of_nat (alphabet_char i)) = Some i"
    "alphabet_char i < 0x80" "(of_nat (alphabet_char i) :: u8) \<noteq> 61"
    "\<not> is_ascii_whitespace (of_nat (alphabet_char i))"
    by (simp_all add: b64_symbol_def alphabet_char_def word_less_nat_alt)
qed

lemma mask_u8:
  "(0x03 :: u8) = mask 2" "(0x0f :: u8) = mask 4" "(0x3f :: u8) = mask 6"
  by (simp_all add: mask_eq_exp_minus_1)

lemma u8_eq_bits:
  "(x :: u8) = y \<longleftrightarrow> list_all (\<lambda>n. bit x n = bit y n) [0, 1, 2, 3, 4, 5, 6, 7]"
proof
  assume all: "list_all (\<lambda>n. bit x n = bit y n) [0, 1, 2, 3, 4, 5, 6, 7]"
  show "x = y"
  proof (rule bit_word_eqI)
    fix n assume "n < LENGTH(8)"
    then have "n \<in> set [0, 1, 2, 3, 4, 5, 6, 7]" by auto
    with all show "bit x n = bit y n" unfolding list_all_iff by blast
  qed
qed simp

lemma u8_lt_64: "\<not> bit (x :: u8) 6 \<Longrightarrow> \<not> bit x 7 \<Longrightarrow> x < 64"
proof -
  assume "\<not> bit x 6" "\<not> bit x 7"
  then have "x = take_bit 6 x" by (simp add: u8_eq_bits bit_simps)
  then have "unat x = take_bit 6 (unat x)" by (metis unsigned_take_bit_eq)
  then have "unat x < 2 ^ 6" by (metis take_bit_nat_less_exp)
  then show ?thesis by (simp add: word_less_nat_alt)
qed

lemma bit_u8_high: "8 \<le> n \<Longrightarrow> \<not> bit (x :: u8) n"
  using bit_imp_le_length [of x n] by auto

lemma sextets_lt:
  fixes b0 b1 b2 :: u8
  shows "drop_bit 2 b0 < 64" "push_bit 4 (b0 AND 0x03) OR drop_bit 4 b1 < 64"
    "push_bit 2 (b1 AND 0x0f) OR drop_bit 6 b2 < 64" "b2 AND 0x3f < 64"
proof -
  show "drop_bit 2 b0 < 64" by (rule u8_lt_64) (simp_all add: bit_simps bit_u8_high)
  show "push_bit 4 (b0 AND 0x03) OR drop_bit 4 b1 < 64"
    by (rule u8_lt_64) (simp_all only: mask_u8, simp_all add: bit_simps bit_u8_high)
  show "push_bit 2 (b1 AND 0x0f) OR drop_bit 6 b2 < 64"
    by (rule u8_lt_64) (simp_all only: mask_u8, simp_all add: bit_simps bit_u8_high)
  show "b2 AND 0x3f < 64"
    by (rule u8_lt_64) (simp_all only: mask_u8, simp_all add: bit_simps bit_u8_high)
qed

lemma sextets_join:
  fixes b0 b1 b2 :: u8
  shows "push_bit 2 (drop_bit 2 b0) OR drop_bit 4 (push_bit 4 (b0 AND 0x03) OR drop_bit 4 b1) = b0"
    "push_bit 4 ((push_bit 4 (b0 AND 0x03) OR drop_bit 4 b1) AND 0x0f) OR
       drop_bit 2 (push_bit 2 (b1 AND 0x0f) OR drop_bit 6 b2) = b1"
    "push_bit 6 ((push_bit 2 (b1 AND 0x0f) OR drop_bit 6 b2) AND 0x03) OR (b2 AND 0x3f) = b2"
proof -
  have suc: "Suc (Suc 0) = 2" "Suc 2 = 3" by simp_all
  show "push_bit 2 (drop_bit 2 b0) OR drop_bit 4 (push_bit 4 (b0 AND 0x03) OR drop_bit 4 b1) = b0"
    by (simp only: mask_u8, simp only: u8_eq_bits, simp add: bit_simps bit_u8_high, simp add: suc)
  show "push_bit 4 ((push_bit 4 (b0 AND 0x03) OR drop_bit 4 b1) AND 0x0f) OR
       drop_bit 2 (push_bit 2 (b1 AND 0x0f) OR drop_bit 6 b2) = b1"
    by (simp only: mask_u8, simp only: u8_eq_bits, simp add: bit_simps bit_u8_high)
  show "push_bit 6 ((push_bit 2 (b1 AND 0x0f) OR drop_bit 6 b2) AND 0x03) OR (b2 AND 0x3f) = b2"
    by (simp only: mask_u8, simp only: u8_eq_bits, simp add: bit_simps bit_u8_high)
qed

section \<open>One quantum\<close>

lemma alphabet_char_symbol:
  assumes "i < 64"
  shows "as_bytes (alphabet_char i # s) = of_nat (alphabet_char i) # as_bytes s"
  using alphabet_char_props(2) [OF assms]
  by (simp add: as_bytes_Cons utf8_char_def utf8_code_def)

lemma as_bytes_pad: "as_bytes (61 # s) = 61 # as_bytes s"
  by (simp add: as_bytes_Cons utf8_char_def utf8_code_def)

lemma b64_symbols_char:
  "i < 64 \<Longrightarrow> b64_symbols (alphabet_char i # s) = of_nat (alphabet_char i) # b64_symbols s"
  by (simp add: b64_symbols_def alphabet_char_symbol alphabet_char_props)

lemma b64_symbols_pad: "b64_symbols (61 # s) = b64_symbols s"
  by (simp add: b64_symbols_def as_bytes_pad)

lemma b64_symbols_append: "b64_symbols (s @ t) = b64_symbols s @ b64_symbols t"
  by (simp add: b64_symbols_def)

lemma b64_symbols_Nil [simp]: "b64_symbols [] = []"
  by (simp add: b64_symbols_def)

text \<open>Decoding undoes encoding on one chunk; a full chunk yields a full quantum.\<close>

lemma b64_chunk_roundtrip:
  assumes "chunk \<noteq> []" and "length chunk \<le> 3"
  shows "b64_decode_chunk (b64_symbols (b64_encode_chunk chunk)) = Some chunk"
    and "length (b64_symbols (b64_encode_chunk chunk)) = Suc (length chunk)"
proof -
  from assms consider b0 where "chunk = [b0]" | b0 b1 where "chunk = [b0, b1]"
    | b0 b1 b2 where "chunk = [b0, b1, b2]"
    by (cases chunk rule: remdups_adj.cases; fastforce simp: le_Suc_eq length_Suc_conv)
  then have "b64_decode_chunk (b64_symbols (b64_encode_chunk chunk)) = Some chunk \<and>
      length (b64_symbols (b64_encode_chunk chunk)) = Suc (length chunk)"
  proof cases
    case (1 b0)
    then show ?thesis
      using sextets_lt(1) [of b0] sextets_lt(2) [of b0 0] sextets_join(1) [of b0 0]
      by (simp add: b64_encode_chunk_def b64_decode_chunk_def b64_symbols_char b64_symbols_pad
          alphabet_char_props)
  next
    case (2 b0 b1)
    then show ?thesis
      using sextets_lt(1) [of b0] sextets_lt(2) [of b0 b1] sextets_lt(3) [of b1 0]
        sextets_join(1) [of b0 b1] sextets_join(2) [of b0 b1 0]
      by (simp add: b64_encode_chunk_def b64_decode_chunk_def b64_symbols_char b64_symbols_pad
          alphabet_char_props)
  next
    case (3 b0 b1 b2)
    then show ?thesis
      using sextets_lt(1) [of b0] sextets_lt(2) [of b0 b1] sextets_lt(3) [of b1 b2]
        sextets_lt(4) [of b2] sextets_join(1) [of b0 b1] sextets_join(2) [of b0 b1 b2]
        sextets_join(3) [of b1 b2]
      by (simp add: b64_encode_chunk_def b64_decode_chunk_def b64_symbols_char b64_symbols_pad
          alphabet_char_props)
  qed
  then show "b64_decode_chunk (b64_symbols (b64_encode_chunk chunk)) = Some chunk"
    and "length (b64_symbols (b64_encode_chunk chunk)) = Suc (length chunk)" by auto
qed

lemma b64_decode_chunks_acc:
  "b64_decode_chunks cs out = map_option (\<lambda>bs. out @ bs) (b64_decode_chunks cs [])"
proof (induction cs arbitrary: out)
  case Nil
  then show ?case by simp
next
  case (Cons c cs)
  show ?case
  proof (cases "b64_decode_chunk c")
    case (Some bs)
    then show ?thesis
      using Cons [of "out @ bs"] Cons [of bs] by (simp add: option.map_comp comp_def)
  qed simp
qed

lemma b64_encode_step:
  "xs \<noteq> [] \<Longrightarrow> b64_encode xs = b64_encode_chunk (take 3 xs) @ b64_encode (drop 3 xs)"
  by (simp add: b64_encode_def chunks.simps [of _ xs])

lemma b64_roundtrip: "b64_decode (b64_encode xs) = Some xs"
proof (induction "length xs" arbitrary: xs rule: less_induct)
  case less
  show ?case
  proof (cases "xs = []")
    case True
    then show ?thesis by (simp add: b64_encode_def b64_decode_def)
  next
    case False
    let ?c = "take 3 xs" and ?r = "drop 3 xs"
    let ?s = "b64_symbols (b64_encode_chunk ?c)"
    have c: "?c \<noteq> []" "length ?c \<le> 3" using False by auto
    have rest: "b64_decode (b64_encode ?r) = Some ?r" using less [of ?r] False by simp
    have "chunks 4 (b64_symbols (b64_encode xs)) = ?s # chunks 4 (b64_symbols (b64_encode ?r))"
    proof (cases "?r = []")
      case True
      then show ?thesis
        using False b64_chunk_roundtrip(2) [OF c]
        by (subst b64_encode_step) (auto simp: b64_encode_def [of "[]"] b64_symbols_append
            intro!: chunks_short)
    next
      case notempty: False
      then have "length ?c = 3" by simp
      then show ?thesis
        using False b64_chunk_roundtrip(2) [OF c]
        by (subst b64_encode_step) (simp_all add: b64_symbols_append chunks_append)
    qed
    then show ?thesis
      using rest b64_chunk_roundtrip(1) [OF c]
        b64_decode_chunks_acc [of "chunks 4 (b64_symbols (b64_encode ?r))" ?c]
      by (simp add: b64_decode_def)
  qed
qed

interpretation b64_codec: codec b64_encode b64_decode
  by unfold_locales (rule b64_roundtrip)

section \<open>What the decoder rejects\<close>

lemma b64_decode_chunk_None_iff:
  assumes "chunk \<noteq> []" and "length chunk \<le> 4"
  shows "b64_decode_chunk chunk = None \<longleftrightarrow>
    length chunk = 1 \<or> (\<exists>c \<in> set chunk. b64_val c = None)"
proof -
  from assms consider c0 where "chunk = [c0]" | c0 c1 where "chunk = [c0, c1]"
    | c0 c1 c2 where "chunk = [c0, c1, c2]" | c0 c1 c2 c3 where "chunk = [c0, c1, c2, c3]"
    by (auto simp: le_Suc_eq length_Suc_conv numeral_eq_Suc)
  then show ?thesis
    by cases (auto simp: b64_decode_chunk_def Let_def split: option.splits)
qed

lemma b64_decode_chunks_None_iff:
  "b64_decode_chunks cs out = None \<longleftrightarrow> (\<exists>c \<in> set cs. b64_decode_chunk c = None)"
  by (induction cs arbitrary: out) (auto split: option.splits)

lemma chunk4_None_iff:
  "(\<exists>c \<in> set (chunks 4 xs). b64_decode_chunk c = None) \<longleftrightarrow>
     length xs mod 4 = 1 \<or> (\<exists>c \<in> set xs. b64_val c = None)"
proof (induction "length xs" arbitrary: xs rule: less_induct)
  case less
  show ?case
  proof (cases "xs = []")
    case True
    then show ?thesis by simp
  next
    case False
    let ?c = "take 4 xs" and ?r = "drop 4 xs"
    have c: "?c \<noteq> []" "length ?c \<le> 4" using False by auto
    have set: "set xs = set ?c \<union> set ?r" by (metis append_take_drop_id set_append)
    have mod: "length xs mod 4 = 1 \<longleftrightarrow> length ?c = 1 \<or> length ?r mod 4 = 1"
    proof (cases "4 \<le> length xs")
      case True
      then have "length xs = 4 + length ?r" by simp
      then show ?thesis using True by (metis length_take min.absorb2 mod_add_self1 num.distinct(1) numeral_eq_one_iff)
    next
      case False
      then show ?thesis by auto
    qed
    have "(\<exists>c \<in> set (chunks 4 xs). b64_decode_chunk c = None) \<longleftrightarrow>
        b64_decode_chunk ?c = None \<or> (\<exists>c \<in> set (chunks 4 ?r). b64_decode_chunk c = None)"
      using False by (simp add: chunks.simps [of _ xs])
    also have "\<dots> \<longleftrightarrow> length xs mod 4 = 1 \<or> (\<exists>c \<in> set xs. b64_val c = None)"
      using less [of ?r] False b64_decode_chunk_None_iff [OF c] set mod by auto
    finally show ?thesis .
  qed
qed

section \<open>Properties\<close>

text \<open>
  C39. Bytes survive the string wire: decoding the padded base64 of any byte sequence gives the
  sequence back, and it does so with any ASCII whitespace or padding the store put into the
  string, because only the symbols count.
\<close>

theorem b64_decode_encode:
  "b64_symbols s = b64_symbols (b64_encode xs) \<Longrightarrow> b64_decode s = Some xs"
  using b64_roundtrip [of xs] by (simp add: b64_decode_def)

theorem b64_decode_encode_witness:
  "b64_decode (lit ''Zm 9vYg'') = Some (blit ''foob'')"
proof -
  have "b64_symbols (lit ''Zm 9vYg'') = b64_symbols (b64_encode (blit ''foob''))"
    by code_simp
  from b64_decode_encode [OF this] show ?thesis .
qed

text \<open>
  The decoder fails exactly when the input, stripped of padding and whitespace, holds a
  byte outside the alphabet or leaves a lone symbol that cannot form a byte; on every other
  input it returns.
\<close>

theorem b64_decode_None_iff:
  "b64_decode s = None \<longleftrightarrow>
     length (b64_symbols s) mod 4 = 1 \<or> (\<exists>c \<in> set (b64_symbols s). b64_val c = None)"
  by (simp add: b64_decode_def b64_decode_chunks_None_iff chunk4_None_iff)

end
