(* ===== verification/Limits.thy ===== *)
theory Limits
  imports Rust_Text
begin

text \<open>
  \<open>src/limits.rs\<close>: the per-run fuel budget and the per-store caps, and the classification
  of resource-limit traps.  An error of the engine is what the code observes of it: its
  \<open>Display\<close> text, its alternate (\<open>{:#}\<close>) text and the \<open>Display\<close> texts along its source chain.
\<close>

section \<open>Budgets\<close>

definition DEFAULT_MEMORY_BYTES :: nat where "DEFAULT_MEMORY_BYTES = 256 * 1024 * 1024"
definition DEFAULT_TABLE_ELEMENTS :: nat where "DEFAULT_TABLE_ELEMENTS = 100000"
definition DEFAULT_INSTANCES :: nat where "DEFAULT_INSTANCES = 64"
definition DEFAULT_TABLES :: nat where "DEFAULT_TABLES = 64"
definition DEFAULT_MEMORIES :: nat where "DEFAULT_MEMORIES = 8"
definition DEFAULT_FUEL :: u64 where "DEFAULT_FUEL = 1000000000"

definition ERR_CPU_LIMIT :: rstr where "ERR_CPU_LIMIT = lit ''hellohq-plugin-cpu-limit''"
definition ERR_MEMORY_LIMIT :: rstr where "ERR_MEMORY_LIMIT = lit ''hellohq-plugin-memory-limit''"

text \<open>\<open>FUEL_OVERRIDE\<close> is the process-wide atomic; it is threaded as a value.\<close>

definition FUEL_OVERRIDE_init :: u64 where "FUEL_OVERRIDE_init = 0"

definition set_fuel_budget :: "u64 \<Rightarrow> u64 \<Rightarrow> u64" where
  "set_fuel_budget fuel override = fuel"

definition fuel_budget :: "u64 \<Rightarrow> u64" where
  "fuel_budget override = (if override = 0 then DEFAULT_FUEL else override)"

record StoreLimits =
  memory_size :: nat
  table_elements :: nat
  instances :: nat
  tables :: nat
  memories :: nat

definition store_limits :: StoreLimits where
  "store_limits =
     \<lparr>memory_size = DEFAULT_MEMORY_BYTES, table_elements = DEFAULT_TABLE_ELEMENTS,
      instances = DEFAULT_INSTANCES, tables = DEFAULT_TABLES, memories = DEFAULT_MEMORIES\<rparr>"

text \<open>\<open>NoLimits\<close>, the limiter of a store with no cap: every growth is granted.\<close>

definition no_limits_memory_growing :: "nat \<Rightarrow> nat \<Rightarrow> nat option \<Rightarrow> (bool, rstr) result" where
  "no_limits_memory_growing current desired maximum = Ok True"

definition no_limits_table_growing :: "nat \<Rightarrow> nat \<Rightarrow> nat option \<Rightarrow> (bool, rstr) result" where
  "no_limits_table_growing current desired maximum = Ok True"

section \<open>Classification\<close>

definition classify :: "rstr \<Rightarrow> rstr option" where
  "classify err =
     (let e = to_ascii_lowercase err in
      if str_contains e (lit ''fuel'') \<or> str_contains e (lit ''epoch'') \<or>
         str_contains e (lit ''interrupt'')
      then Some ERR_CPU_LIMIT
      else if str_contains e (lit ''exceeds memory limits'') \<or> str_contains e (lit ''memory limits'') \<or>
         str_contains e (lit ''memory'') \<and>
           (str_contains e (lit ''limit'') \<or> str_contains e (lit ''exceed''))
      then Some ERR_MEMORY_LIMIT
      else None)"

record wasm_error =
  err_display :: rstr
  err_alternate :: rstr
  err_sources :: "rstr list"

text \<open>The \<open>while let Some(s) = src\<close> walk over the source chain.\<close>

fun classify_sources :: "rstr list \<Rightarrow> rstr option" where
  "classify_sources [] = None"
| "classify_sources (s # src) =
     (case classify s of Some code \<Rightarrow> Some code | None \<Rightarrow> classify_sources src)"

definition classify_chain :: "wasm_error \<Rightarrow> rstr option" where
  "classify_chain err =
     (case classify (err_display err) of
        Some code \<Rightarrow> Some code
      | None \<Rightarrow> classify_sources (err_sources err))"

definition annotate :: "wasm_error \<Rightarrow> rstr" where
  "annotate err =
     (case classify_chain err of
        Some code \<Rightarrow> code @ lit '': '' @ err_alternate err
      | None \<Rightarrow> err_display err)"

section \<open>Lemmas\<close>

lemma classify_lowercase [simp]: "classify (to_ascii_lowercase s) = classify s"
  by (simp add: classify_def)

lemma classify_codes: "classify s = Some c \<Longrightarrow> c = ERR_CPU_LIMIT \<or> c = ERR_MEMORY_LIMIT"
  by (auto simp: classify_def Let_def split: if_splits)

text \<open>The first of the three memory patterns is subsumed by the second, and that by the third.\<close>

lemma str_contains_mono: "str_contains s q \<Longrightarrow> str_contains q p \<Longrightarrow> str_contains s p"
  unfolding str_contains_iff by (metis append.assoc)

lemma classify_memory_iff:
  "classify s = Some ERR_MEMORY_LIMIT \<longleftrightarrow>
     (let e = to_ascii_lowercase s in
      \<not> str_contains e (lit ''fuel'') \<and> \<not> str_contains e (lit ''epoch'') \<and>
      \<not> str_contains e (lit ''interrupt'') \<and> str_contains e (lit ''memory'') \<and>
      (str_contains e (lit ''limit'') \<or> str_contains e (lit ''exceed'')))"
proof -
  have ne: "ERR_CPU_LIMIT \<noteq> ERR_MEMORY_LIMIT" by code_simp
  have sub: "str_contains (lit ''exceeds memory limits'') (lit ''memory limits'')"
    "str_contains (lit ''memory limits'') (lit ''memory'')"
    "str_contains (lit ''memory limits'') (lit ''limit'')"
    by code_simp+
  show ?thesis
    using ne sub by (auto simp: classify_def Let_def dest: str_contains_mono)
qed

lemma classify_sources_Some:
  "classify_sources ss = Some c \<Longrightarrow>
     \<exists>a m b. ss = a @ m # b \<and> list_all (\<lambda>x. classify x = None) a \<and> classify m = Some c"
proof (induction ss)
  case Nil
  then show ?case by simp
next
  case (Cons s ss)
  show ?case
  proof (cases "classify s")
    case None
    with Cons obtain a m b where "ss = a @ m # b" "list_all (\<lambda>x. classify x = None) a"
      "classify m = Some c" by auto
    with None show ?thesis by (intro exI [of _ "s # a"] exI [of _ m] exI [of _ b]) simp
  next
    case (Some c')
    with Cons.prems show ?thesis by (intro exI [of _ "[]"] exI [of _ s] exI [of _ ss]) simp
  qed
qed

lemma classify_sources_None: "classify_sources ss = None \<longleftrightarrow> (\<forall>x \<in> set ss. classify x = None)"
  by (induction ss) (auto split: option.splits)

lemma classify_chain_eq: "classify_chain e = classify_sources (err_display e # err_sources e)"
  by (simp add: classify_chain_def)

section \<open>Properties\<close>

text \<open>
  The stable prefix the app matches on: an error is annotated with a limit code exactly when
  some message of its source chain names a limit, the code is that of the first such message,
  and every other error keeps its text.
\<close>

theorem annotate_first_cause:
  "(\<exists>a m b code. err_display e # err_sources e = a @ m # b \<and> list_all (\<lambda>x. classify x = None) a \<and>
      classify m = Some code \<and> (code = ERR_CPU_LIMIT \<or> code = ERR_MEMORY_LIMIT) \<and>
      annotate e = code @ lit '': '' @ err_alternate e) \<or>
   list_all (\<lambda>x. classify x = None) (err_display e # err_sources e) \<and> annotate e = err_display e"
proof (cases "classify_chain e")
  case None
  then have "list_all (\<lambda>x. classify x = None) (err_display e # err_sources e)"
    using classify_sources_None [of "err_display e # err_sources e"]
    by (simp add: classify_chain_eq list_all_iff)
  with None show ?thesis by (simp add: annotate_def)
next
  case (Some code)
  then obtain a m b where "err_display e # err_sources e = a @ m # b"
    "list_all (\<lambda>x. classify x = None) a" "classify m = Some code"
    using classify_sources_Some [of "err_display e # err_sources e" code]
    by (auto simp: classify_chain_eq)
  with Some show ?thesis
    using classify_codes [of m code] by (auto simp: annotate_def)
qed

text \<open>
  Classification is by substring, so an ordinary plugin error whose text merely contains
  one of the marker words is reported as a CPU-limit trap: whatever the rest of the message is.
\<close>

theorem annotate_marker_word:
  "annotate \<lparr>err_display = s @ lit ''fuel'' @ t, err_alternate = alt, err_sources = ss\<rparr> =
     ERR_CPU_LIMIT @ lit '': '' @ alt"
proof -
  have "to_ascii_lowercase (lit ''fuel'') = lit ''fuel''" by code_simp
  then have "str_contains (to_ascii_lowercase (s @ lit ''fuel'' @ t)) (lit ''fuel'')"
    unfolding str_contains_iff to_ascii_lowercase_append by (intro exI) simp
  then show ?thesis by (simp add: annotate_def classify_chain_def classify_def)
qed

text \<open>
  The fuel a run gets: never zero, the override when one is set, and the default again after
  an override of zero.
\<close>

theorem fuel_budget_after_set:
  "fuel_budget (set_fuel_budget fuel override) = (if fuel = 0 then DEFAULT_FUEL else fuel) \<and>
   fuel_budget override \<noteq> 0 \<and> fuel_budget FUEL_OVERRIDE_init = DEFAULT_FUEL"
  by (simp add: fuel_budget_def set_fuel_budget_def DEFAULT_FUEL_def FUEL_OVERRIDE_init_def)

end
