(* ===== verification/Request_Policy.thy ===== *)
theory Request_Policy
  imports Rust_Str
begin

text \<open>
  \<open>src/request_policy.rs\<close>: which request headers a plugin may set and which response headers
  it never sees.
\<close>

section \<open>The lists\<close>

definition ALLOWED_REQUEST_HEADERS :: "rstr list" where
  "ALLOWED_REQUEST_HEADERS =
     [lit ''accept'', lit ''accept-language'', lit ''content-type'', lit ''if-none-match'',
      lit ''if-modified-since'']"

definition STRIPPED_RESPONSE_HEADERS :: "rstr list" where
  "STRIPPED_RESPONSE_HEADERS = [lit ''set-cookie'', lit ''set-cookie2'']"

definition CREDENTIAL_FRAGMENTS :: "rstr list" where
  "CREDENTIAL_FRAGMENTS =
     [lit ''auth'', lit ''cookie'', lit ''key'', lit ''secret'', lit ''sign'', lit ''token'',
      lit ''passphrase'', lit ''password'', lit ''session'', lit ''cert'']"

definition CREDENTIAL_PREFIXES :: "rstr list" where
  "CREDENTIAL_PREFIXES = [lit ''cb-access-'', lit ''ok-access-'']"

definition RESERVED_CREDENTIAL_HEADER :: rstr where
  "RESERVED_CREDENTIAL_HEADER = lit ''x-hellohq-credential''"

section \<open>Name tests\<close>

definition is_credential_header_name :: "rstr \<Rightarrow> bool" where
  "is_credential_header_name name =
     (let n = to_ascii_lowercase (trim name)
      in list_ex (\<lambda>p. starts_with n p) CREDENTIAL_PREFIXES \<or>
         list_ex (\<lambda>f. str_contains n f) CREDENTIAL_FRAGMENTS)"

definition is_allowed_request_header :: "rstr \<Rightarrow> bool" where
  "is_allowed_request_header name =
     (let n = to_ascii_lowercase (trim name)
      in List.member ALLOWED_REQUEST_HEADERS n \<and> \<not> is_credential_header_name n)"

definition is_stripped_response_header :: "rstr \<Rightarrow> bool" where
  "is_stripped_response_header name =
     (let n = to_ascii_lowercase (trim name)
      in List.member STRIPPED_RESPONSE_HEADERS n)"

definition is_reserved_credential_header :: "rstr \<Rightarrow> bool" where
  "is_reserved_credential_header name =
     eq_ignore_ascii_case (trim name) RESERVED_CREDENTIAL_HEADER"

section \<open>Filters\<close>

record 'v SanitizedHeaders =
  sh_headers :: "(rstr \<times> 'v) list"
  sh_dropped :: nat
  sh_dropped_credential :: bool

text \<open>One turn of the loop over the supplied headers.\<close>

definition sanitize_step :: "'v SanitizedHeaders \<Rightarrow> rstr \<times> 'v \<Rightarrow> 'v SanitizedHeaders" where
  "sanitize_step acc nv =
     (let n = to_ascii_lowercase (trim (fst nv))
      in if is_allowed_request_header n
         then acc\<lparr>sh_headers := sh_headers acc @ [(n, snd nv)]\<rparr>
         else acc\<lparr>sh_dropped := sh_dropped acc + 1,
                  sh_dropped_credential :=
                    (if is_credential_header_name n then True else sh_dropped_credential acc)\<rparr>)"

definition sanitize_request_headers :: "(rstr \<times> 'v) list \<Rightarrow> 'v SanitizedHeaders" where
  "sanitize_request_headers headers =
     foldl sanitize_step \<lparr>sh_headers = [], sh_dropped = 0, sh_dropped_credential = False\<rparr> headers"

definition sanitize_response_headers :: "(rstr \<times> 'v) list \<Rightarrow> (rstr \<times> 'v) list" where
  "sanitize_response_headers headers =
     filter (\<lambda>nv. \<not> is_stripped_response_header (fst nv)) headers"

section \<open>Lemmas\<close>

abbreviation header_key :: "rstr \<Rightarrow> rstr" where
  "header_key n \<equiv> to_ascii_lowercase (trim n)"

lemma header_key_idem [simp]: "header_key (header_key n) = header_key n"
  by (simp add: trim_lowercase)

lemma trim_header_key [simp]: "trim (to_ascii_lowercase (trim n)) = to_ascii_lowercase (trim n)"
  by (simp add: trim_lowercase)

text \<open>Every test depends on the normalised name only.\<close>

lemma name_tests_key [simp]:
  "is_credential_header_name (header_key n) = is_credential_header_name n"
  "is_allowed_request_header (header_key n) = is_allowed_request_header n"
  "is_stripped_response_header (header_key n) = is_stripped_response_header n"
  "is_reserved_credential_header (header_key n) = is_reserved_credential_header n"
  by (simp_all add: is_credential_header_name_def is_allowed_request_header_def
      is_stripped_response_header_def is_reserved_credential_header_def
      eq_ignore_ascii_case_def)

lemma listed_not_credential:
  "list_all (\<lambda>n. \<not> is_credential_header_name n) ALLOWED_REQUEST_HEADERS"
  by (simp add: ALLOWED_REQUEST_HEADERS_def is_credential_header_name_def CREDENTIAL_PREFIXES_def
      CREDENTIAL_FRAGMENTS_def lit_def trim_def trim_start_def trim_end_def is_whitespace_def
      to_ascii_lowercase_def ascii_lower_def is_ascii_uppercase_def starts_with_def)

text \<open>The credential veto never hits a listed name, so the allowlist alone decides.\<close>

lemma is_allowed_iff:
  "is_allowed_request_header n \<longleftrightarrow> header_key n \<in> set ALLOWED_REQUEST_HEADERS"
  using listed_not_credential
  by (auto simp: is_allowed_request_header_def list_all_iff)

lemma allowed_not_credential: "is_allowed_request_header n \<Longrightarrow> \<not> is_credential_header_name n"
  by (simp add: is_allowed_request_header_def Let_def)

lemma reserved_iff: "is_reserved_credential_header n \<longleftrightarrow> header_key n = RESERVED_CREDENTIAL_HEADER"
proof -
  have "to_ascii_lowercase RESERVED_CREDENTIAL_HEADER = RESERVED_CREDENTIAL_HEADER" by code_simp
  then show ?thesis by (simp add: is_reserved_credential_header_def eq_ignore_ascii_case_def)
qed

lemma reserved_not_allowed: "is_reserved_credential_header n \<Longrightarrow> \<not> is_allowed_request_header n"
proof -
  have "RESERVED_CREDENTIAL_HEADER \<notin> set ALLOWED_REQUEST_HEADERS" by code_simp
  then show "is_reserved_credential_header n \<Longrightarrow> \<not> is_allowed_request_header n"
    by (simp add: reserved_iff is_allowed_iff)
qed

lemma sanitize_fold:
  "foldl sanitize_step acc hs =
     \<lparr>sh_headers = sh_headers acc @
        map (\<lambda>nv. (header_key (fst nv), snd nv)) (filter (\<lambda>nv. is_allowed_request_header (fst nv)) hs),
      sh_dropped = sh_dropped acc + length (filter (\<lambda>nv. \<not> is_allowed_request_header (fst nv)) hs),
      sh_dropped_credential =
        (sh_dropped_credential acc \<or> list_ex (\<lambda>nv. is_credential_header_name (fst nv)) hs)\<rparr>"
proof (induction hs arbitrary: acc)
  case Nil
  then show ?case by simp
next
  case (Cons h hs)
  then show ?case
    using allowed_not_credential [of "fst h"] by (auto simp: sanitize_step_def Let_def)
qed

lemma sanitize_clean:
  assumes "\<And>nv. nv \<in> set hs \<Longrightarrow> is_allowed_request_header (fst nv) \<and> header_key (fst nv) = fst nv"
  shows "sanitize_request_headers hs =
    \<lparr>sh_headers = hs, sh_dropped = 0, sh_dropped_credential = False\<rparr>"
proof -
  have keep: "filter (\<lambda>nv. is_allowed_request_header (fst nv)) hs = hs"
    using assms by (simp add: filter_id_conv)
  have none: "filter (\<lambda>nv. \<not> is_allowed_request_header (fst nv)) hs = []"
    using assms by (simp add: filter_empty_conv)
  have names: "map (\<lambda>nv. (header_key (fst nv), snd nv)) hs = hs"
    using assms by (intro map_idI) (auto simp: prod_eq_iff)
  have cred: "\<not> list_ex (\<lambda>nv. is_credential_header_name (fst nv)) hs"
    using assms allowed_not_credential unfolding list_ex_iff by blast
  show ?thesis
    unfolding sanitize_request_headers_def sanitize_fold using keep none names cred by simp
qed

section \<open>Properties\<close>

text \<open>
  The request-header filter, in closed form: what is sent is the plugin's headers restricted
  to the allowlist, in order, with normalised names; the two counters account for everything
  else, and the credential flag is raised exactly when some supplied name is a credential name.
\<close>

theorem sanitize_request_headers_eq:
  "sanitize_request_headers hs =
     \<lparr>sh_headers = map (\<lambda>nv. (header_key (fst nv), snd nv))
        (filter (\<lambda>nv. header_key (fst nv) \<in> set ALLOWED_REQUEST_HEADERS) hs),
      sh_dropped = length hs - length (sh_headers (sanitize_request_headers hs)),
      sh_dropped_credential = list_ex (\<lambda>nv. is_credential_header_name (fst nv)) hs\<rparr>"
proof -
  have "length hs = length (filter (\<lambda>nv. is_allowed_request_header (fst nv)) hs) +
      length (filter (\<lambda>nv. \<not> is_allowed_request_header (fst nv)) hs)"
    by (simp add: length_filter_partition)
  then show ?thesis
    by (simp add: sanitize_request_headers_def sanitize_fold is_allowed_iff)
qed

text \<open>
  No credential leaves through the filter: whatever headers a plugin supplies, no header that
  is sent has a credential name or the reserved handle name, and filtering a second time changes
  nothing and drops nothing.
\<close>

theorem sanitize_request_headers_safe:
  "list_all (\<lambda>nv. \<not> is_credential_header_name (fst nv) \<and> \<not> is_reserved_credential_header (fst nv))
     (sh_headers (sanitize_request_headers hs)) \<and>
   sanitize_request_headers (sh_headers (sanitize_request_headers hs)) =
     \<lparr>sh_headers = sh_headers (sanitize_request_headers hs), sh_dropped = 0,
      sh_dropped_credential = False\<rparr>"
proof -
  let ?out = "sh_headers (sanitize_request_headers hs)"
  have out: "?out = map (\<lambda>nv. (header_key (fst nv), snd nv))
      (filter (\<lambda>nv. is_allowed_request_header (fst nv)) hs)"
    by (simp add: sanitize_request_headers_def sanitize_fold)
  have all: "is_allowed_request_header (fst nv) \<and> header_key (fst nv) = fst nv"
    if "nv \<in> set ?out" for nv
    using that by (auto simp: out)
  have "sanitize_request_headers ?out =
      \<lparr>sh_headers = ?out, sh_dropped = 0, sh_dropped_credential = False\<rparr>"
    by (rule sanitize_clean) (rule all)
  then show ?thesis
    using all allowed_not_credential reserved_not_allowed unfolding list_all_iff by blast
qed

text \<open>
  No response header that sets a cookie reaches the plugin, under any spelling of the name,
  and every other response header does, unchanged and in order.
\<close>

theorem sanitize_response_headers_eq:
  "sanitize_response_headers hs =
     filter (\<lambda>nv. header_key (fst nv) \<noteq> lit ''set-cookie'' \<and> header_key (fst nv) \<noteq> lit ''set-cookie2'') hs"
  by (simp add: sanitize_response_headers_def is_stripped_response_header_def
      STRIPPED_RESPONSE_HEADERS_def Let_def)

end
