(* ===== verification/Ip_Addr.thy ===== *)
theory Ip_Addr
  imports Rust_Text
begin

unbundle bit_operations_syntax

text \<open>
  The part of \<open>std::net\<close> that \<open>src/fetch_gate.rs\<close> calls: \<open>IpAddr\<close>, its \<open>FromStr\<close> (the byte
  parser with its backtracking, digit limits and zero rules), and the address predicates.  A
  parser takes the unread bytes and gives the value with the bytes left, or \<open>None\<close>, upon which
  the caller keeps its own position (\<open>read_atomically\<close>).
\<close>

section \<open>Addresses\<close>

datatype Ipv4Addr = Ipv4Addr u8 u8 u8 u8

text \<open>An \<open>Ipv6Addr\<close> is its eight segments.\<close>

type_synonym Ipv6Addr = "u16 list"

datatype IpAddr = V4 Ipv4Addr | V6 Ipv6Addr

fun v4_octets :: "Ipv4Addr \<Rightarrow> u8 list" where
  "v4_octets (Ipv4Addr a b c d) = [a, b, c, d]"

fun v4_is_loopback :: "Ipv4Addr \<Rightarrow> bool" where
  "v4_is_loopback (Ipv4Addr a b c d) \<longleftrightarrow> a = 127"

fun v4_is_link_local :: "Ipv4Addr \<Rightarrow> bool" where
  "v4_is_link_local (Ipv4Addr a b c d) \<longleftrightarrow> a = 169 \<and> b = 254"

fun v4_is_multicast :: "Ipv4Addr \<Rightarrow> bool" where
  "v4_is_multicast (Ipv4Addr a b c d) \<longleftrightarrow> 224 \<le> a \<and> a \<le> 239"

fun v4_is_unspecified :: "Ipv4Addr \<Rightarrow> bool" where
  "v4_is_unspecified (Ipv4Addr a b c d) \<longleftrightarrow> a = 0 \<and> b = 0 \<and> c = 0 \<and> d = 0"

fun v4_is_broadcast :: "Ipv4Addr \<Rightarrow> bool" where
  "v4_is_broadcast (Ipv4Addr a b c d) \<longleftrightarrow> a = 255 \<and> b = 255 \<and> c = 255 \<and> d = 255"

definition v6_is_unspecified :: "Ipv6Addr \<Rightarrow> bool" where
  "v6_is_unspecified v6 \<longleftrightarrow> v6 = [0, 0, 0, 0, 0, 0, 0, 0]"

definition v6_is_loopback :: "Ipv6Addr \<Rightarrow> bool" where
  "v6_is_loopback v6 \<longleftrightarrow> v6 = [0, 0, 0, 0, 0, 0, 0, 1]"

definition v6_is_multicast :: "Ipv6Addr \<Rightarrow> bool" where
  "v6_is_multicast v6 \<longleftrightarrow> (v6 ! 0) AND 0xff00 = 0xff00"

definition hi_byte :: "u16 \<Rightarrow> u8" where
  "hi_byte w = ucast (drop_bit 8 w)"

definition lo_byte :: "u16 \<Rightarrow> u8" where
  "lo_byte w = ucast w"

definition v6_to_ipv4_mapped :: "Ipv6Addr \<Rightarrow> Ipv4Addr option" where
  "v6_to_ipv4_mapped v6 =
     (if take 6 v6 = [0, 0, 0, 0, 0, 0xffff]
      then Some (Ipv4Addr (hi_byte (v6 ! 6)) (lo_byte (v6 ! 6)) (hi_byte (v6 ! 7)) (lo_byte (v6 ! 7)))
      else None)"

section \<open>The parser\<close>

type_synonym 'a parser = "nat list \<Rightarrow> ('a \<times> nat list) option"

fun read_given_char :: "nat \<Rightarrow> unit parser" where
  "read_given_char t [] = None"
| "read_given_char t (c # cs) = (if c = t then Some ((), cs) else None)"

definition read_separator :: "nat \<Rightarrow> nat \<Rightarrow> 'a parser \<Rightarrow> 'a parser" where
  "read_separator sep index inner cs =
     (if 0 < index then
        (case read_given_char sep cs of None \<Rightarrow> None | Some (_, cs') \<Rightarrow> inner cs')
      else inner cs)"

text \<open>The digit loop of \<open>read_number\<close> with a digit limit: \<open>None\<close> when the limit is passed.\<close>

fun read_digits :: "nat \<Rightarrow> nat \<Rightarrow> nat \<Rightarrow> nat \<Rightarrow> nat list \<Rightarrow> (nat \<times> nat \<times> nat list) option" where
  "read_digits radix max_digits result count [] = Some (result, count, [])"
| "read_digits radix max_digits result count (c # cs) =
     (case to_digit radix c of
        None \<Rightarrow> Some (result, count, c # cs)
      | Some digit \<Rightarrow>
          if max_digits < Suc count then None
          else read_digits radix max_digits (result * radix + digit) (Suc count) cs)"

text \<open>\<open>bound\<close> is the largest value of the integer type the result is converted to.\<close>

definition read_number :: "nat \<Rightarrow> nat \<Rightarrow> bool \<Rightarrow> nat \<Rightarrow> nat parser" where
  "read_number radix max_digits allow_zero_prefix bound cs =
     (case read_digits radix max_digits 0 0 cs of
        None \<Rightarrow> None
      | Some (result, count, rest) \<Rightarrow>
          if count = 0 then None
          else if \<not> allow_zero_prefix \<and> take 1 cs = [48] \<and> 1 < count then None
          else if bound < result then None
          else Some (result, rest))"

definition read_octet :: "nat \<Rightarrow> nat parser" where
  "read_octet i = read_separator 46 i (read_number 10 3 False 255)"

definition read_ipv4_addr :: "Ipv4Addr parser" where
  "read_ipv4_addr cs =
     (case read_octet 0 cs of None \<Rightarrow> None | Some (a, cs) \<Rightarrow>
       (case read_octet 1 cs of None \<Rightarrow> None | Some (b, cs) \<Rightarrow>
         (case read_octet 2 cs of None \<Rightarrow> None | Some (c, cs) \<Rightarrow>
           (case read_octet 3 cs of None \<Rightarrow> None | Some (d, cs) \<Rightarrow>
              Some (Ipv4Addr (of_nat a) (of_nat b) (of_nat c) (of_nat d), cs)))))"

definition from_be_bytes :: "u8 \<Rightarrow> u8 \<Rightarrow> u16" where
  "from_be_bytes h l = push_bit 8 (ucast h) OR ucast l"

text \<open>
  \<open>read_groups\<close> from group \<open>i\<close> on, with \<open>limit\<close> slots and the groups read so far: the groups
  read, whether they ended with an embedded IPv4 address, and the bytes left.
\<close>

function read_groups :: "nat \<Rightarrow> nat \<Rightarrow> u16 list \<Rightarrow> nat list \<Rightarrow> u16 list \<times> bool \<times> nat list" where
  "read_groups limit i groups cs =
     (if limit \<le> i then (groups, False, cs)
      else case (if i < limit - 1 then read_separator 58 i read_ipv4_addr cs else None) of
        Some (Ipv4Addr a b c d, cs') \<Rightarrow>
          (groups @ [from_be_bytes a b, from_be_bytes c d], True, cs')
      | None \<Rightarrow>
          (case read_separator 58 i (read_number 16 4 True 65535) cs of
             Some (g, cs') \<Rightarrow> read_groups limit (Suc i) (groups @ [of_nat g]) cs'
           | None \<Rightarrow> (groups, False, cs)))"
  by pat_completeness auto
termination
  by (relation "measure (\<lambda>(limit, i, _). limit - i)") auto

declare read_groups.simps [simp del]

definition read_ipv6_addr :: "Ipv6Addr parser" where
  "read_ipv6_addr cs =
     (case read_groups 8 0 [] cs of (head, head_ipv4, cs1) \<Rightarrow>
        if length head = 8 then Some (head, cs1)
        else if head_ipv4 then None
        else
          (case read_given_char 58 cs1 of None \<Rightarrow> None | Some (_, cs2) \<Rightarrow>
            (case read_given_char 58 cs2 of None \<Rightarrow> None | Some (_, cs3) \<Rightarrow>
              (case read_groups (8 - (length head + 1)) 0 [] cs3 of (tail, _, cs4) \<Rightarrow>
                 Some (head @ replicate (8 - length head - length tail) 0 @ tail, cs4)))))"

definition read_ip_addr :: "IpAddr parser" where
  "read_ip_addr cs =
     (case read_ipv4_addr cs of
        Some (v4, rest) \<Rightarrow> Some (V4 v4, rest)
      | None \<Rightarrow>
          (case read_ipv6_addr cs of Some (v6, rest) \<Rightarrow> Some (V6 v6, rest) | None \<Rightarrow> None))"

text \<open>\<open>str::parse::<IpAddr>\<close>: the parser must consume the whole input.\<close>

definition parse_ip_addr :: "rstr \<Rightarrow> IpAddr option" where
  "parse_ip_addr s =
     (case read_ip_addr (map unat (as_bytes s)) of
        Some (ip, rest) \<Rightarrow> if rest = [] then Some ip else None
      | None \<Rightarrow> None)"

text \<open>\<open>Display\<close> of an \<open>Ipv4Addr\<close>.\<close>

fun v4_to_string :: "Ipv4Addr \<Rightarrow> rstr" where
  "v4_to_string (Ipv4Addr a b c d) =
     dec_digits (unat a) @ [46] @ dec_digits (unat b) @ [46] @ dec_digits (unat c) @ [46] @
     dec_digits (unat d)"

section \<open>Reading back a printed address\<close>

text \<open>A decimal of at most three digits, followed by a byte that is not a digit.\<close>

definition no_digit_head :: "nat list \<Rightarrow> bool" where
  "no_digit_head cs \<longleftrightarrow> (case cs of [] \<Rightarrow> True | c # _ \<Rightarrow> to_digit 10 c = None)"

lemma read_digits_stop: "no_digit_head cs \<Longrightarrow> read_digits 10 m acc k cs = Some (acc, k, cs)"
  by (cases cs) (auto simp: no_digit_head_def)

lemma read_octet_number:
  assumes "n < 256" and "no_digit_head rest"
  shows "read_number 10 3 False 255 (dec_digits n @ rest) = Some (n, rest)"
proof -
  have d: "to_digit 10 (48 + k) = Some k" if "k < 10" for k
    using that by (rule to_digit_dec)
  consider "n < 10" | "10 \<le> n" "n < 100" | "100 \<le> n" by linarith
  then show ?thesis
  proof cases
    case 1
    then show ?thesis
      using assms d [of n] by (simp add: dec_digits.simps read_number_def read_digits_stop)
  next
    case 2
    have *: "n div 10 < 10" "0 < n div 10" "n mod 10 < 10" "n \<ge> 10" "n \<le> 255"
      "n div 10 * 10 + n mod 10 = n" using 2 by (auto simp: div_greater_zero_iff)
    then have digits: "dec_digits n = [48 + n div 10, 48 + n mod 10]"
      using dec_digits.simps [of n] dec_digits.simps [of "n div 10"] by simp
    show ?thesis
      unfolding digits using assms * d [of "n div 10"] d [of "n mod 10"]
      by (simp add: read_number_def read_digits_stop)
  next
    case 3
    let ?h = "n div 10 div 10" and ?t = "n div 10 mod 10" and ?u = "n mod 10"
    have *: "?h < 10" "?h \<noteq> 0" "?t < 10" "?u < 10" "\<not> n div 10 < 10" "\<not> n < 10"
      "(?h * 10 + ?t) * 10 + ?u = n" using assms 3 by auto
    then have digits: "dec_digits n = [48 + ?h, 48 + ?t, 48 + ?u]"
      using dec_digits.simps [of n] dec_digits.simps [of "n div 10"] dec_digits.simps [of ?h] by simp
    show ?thesis
      unfolding digits using assms * d [of ?h] d [of ?t] d [of ?u]
      by (simp add: read_number_def read_digits_stop)
  qed
qed

lemma no_digit_head_simps [simp]: "no_digit_head []" "no_digit_head (46 # cs)"
  by (simp_all add: no_digit_head_def to_digit_def)

lemma read_octet_dec:
  assumes "no_digit_head rest"
  shows "read_octet 0 (dec_digits (unat (a :: u8)) @ rest) = Some (unat a, rest)"
    and "0 < i \<Longrightarrow> read_octet i (46 # dec_digits (unat a) @ rest) = Some (unat a, rest)"
proof -
  have "unat a < 256" using unsigned_less [of a] by simp
  from read_octet_number [OF this assms]
  show "read_octet 0 (dec_digits (unat a) @ rest) = Some (unat a, rest)"
    and "0 < i \<Longrightarrow> read_octet i (46 # dec_digits (unat a) @ rest) = Some (unat a, rest)"
    by (simp_all add: read_octet_def read_separator_def)
qed

lemma read_ipv4_to_string:
  "no_digit_head rest \<Longrightarrow> read_ipv4_addr (v4_to_string v4 @ rest) = Some (v4, rest)"
  by (cases v4) (simp add: read_ipv4_addr_def read_octet_dec)

lemma v4_to_string_ascii: "is_ascii (v4_to_string v4)"
  by (cases v4) (fastforce simp: is_ascii_def dest: dec_digits_set)

lemma bytes_of_ascii: "is_ascii s \<Longrightarrow> map unat (as_bytes s) = s"
  by (auto simp: as_bytes_ascii is_ascii_def unat_of_nat_u8 intro!: map_idI)

lemma parse_v4_to_string: "parse_ip_addr (v4_to_string v4) = Some (V4 v4)"
  using read_ipv4_to_string [of "[]" v4]
  by (simp add: parse_ip_addr_def read_ip_addr_def bytes_of_ascii v4_to_string_ascii)

section \<open>IPv4-mapped literals\<close>

lemma hi_lo_from_be_bytes [simp]:
  "hi_byte (from_be_bytes h l) = h" "lo_byte (from_be_bytes h l) = l"
  by (rule bit_word_eqI; auto simp: hi_byte_def lo_byte_def from_be_bytes_def bit_simps
      dest: bit_imp_le_length)+

lemma read_ipv4_not_digit: "to_digit 10 c = None \<Longrightarrow> read_ipv4_addr (c # cs) = None"
  by (simp add: read_ipv4_addr_def read_octet_def read_separator_def read_number_def)

lemma read_groups_colon: "read_groups 8 0 [] (58 # cs) = ([], False, 58 # cs)"
  by (simp add: read_groups.simps [of 8 0] read_separator_def read_ipv4_not_digit read_number_def
      to_digit_def)

lemma to_digit_hex: "to_digit 16 102 = Some 15" "to_digit 16 58 = None" "to_digit 10 102 = None"
  "to_digit 10 58 = None"
  by (simp_all add: to_digit_def)

lemma read_groups_mapped:
  "read_groups 7 0 [] (lit ''ffff:'' @ v4_to_string (Ipv4Addr a b c d)) =
     ([0xffff, from_be_bytes a b, from_be_bytes c d], True, [])"
proof -
  have v4: "read_separator 58 1 read_ipv4_addr (58 # v4_to_string (Ipv4Addr a b c d)) =
      Some (Ipv4Addr a b c d, [])"
    using read_ipv4_to_string [of "[]" "Ipv4Addr a b c d"] by (simp add: read_separator_def)
  have num: "read_separator 58 0 (read_number 16 4 True 65535)
      (lit ''ffff:'' @ v4_to_string (Ipv4Addr a b c d)) =
      Some (65535, 58 # v4_to_string (Ipv4Addr a b c d))"
    by (simp add: read_separator_def read_number_def lit_def to_digit_hex)
  have no: "read_separator 58 0 read_ipv4_addr (lit ''ffff:'' @ v4_to_string (Ipv4Addr a b c d)) = None"
    by (simp add: read_separator_def lit_def read_ipv4_not_digit to_digit_hex)
  have "read_groups 7 (Suc 0) [0xffff] (58 # v4_to_string (Ipv4Addr a b c d)) =
      ([0xffff, from_be_bytes a b, from_be_bytes c d], True, [])"
    using v4 by (subst read_groups.simps) simp
  then show ?thesis by (subst read_groups.simps) (simp add: num no del: v4_to_string.simps)
qed

lemma is_ascii_lit_append: "is_ascii (lit ''::ffff:'' @ s) = is_ascii s"
  by (simp add: is_ascii_def lit_def)

lemma parse_v4_mapped:
  "parse_ip_addr (lit ''::ffff:'' @ v4_to_string (Ipv4Addr a b c d)) =
     Some (V6 [0, 0, 0, 0, 0, 0xffff, from_be_bytes a b, from_be_bytes c d])"
proof -
  have five: "replicate 5 (0 :: u16) = [0, 0, 0, 0, 0]" by (simp add: numeral_eq_Suc)
  have split: "lit ''::ffff:'' = 58 # 58 # lit ''ffff:''" by (simp add: lit_def)
  have "read_ipv6_addr (lit ''::ffff:'' @ v4_to_string (Ipv4Addr a b c d)) =
      Some ([0, 0, 0, 0, 0, 0xffff, from_be_bytes a b, from_be_bytes c d], [])"
    unfolding read_ipv6_addr_def split
    by (simp add: read_groups_colon read_groups_mapped five del: v4_to_string.simps)
  moreover have "read_ipv4_addr (lit ''::ffff:'' @ v4_to_string (Ipv4Addr a b c d)) = None"
    unfolding split by (simp add: read_ipv4_not_digit to_digit_hex)
  ultimately show ?thesis
    using bytes_of_ascii [of "lit ''::ffff:'' @ v4_to_string (Ipv4Addr a b c d)"]
      v4_to_string_ascii [of "Ipv4Addr a b c d"]
    by (simp add: parse_ip_addr_def read_ip_addr_def is_ascii_lit_append
        del: v4_to_string.simps as_bytes_append)
qed

text \<open>A name that starts with no hexadecimal digit and no colon is not an address.\<close>

lemma parse_not_address:
  assumes "c < 128" and "to_digit 10 c = None" and "to_digit 16 c = None" and "c \<noteq> 58"
  shows "parse_ip_addr (c # s) = None"
proof -
  have "map unat (as_bytes (c # s)) = c # map unat (as_bytes s)"
    using assms(1) by (simp add: as_bytes_Cons utf8_char_def utf8_code_def unat_of_nat_u8)
  moreover have "read_groups 8 0 [] (c # cs) = ([], False, c # cs)" for cs
    using assms
    by (simp add: read_groups.simps [of 8 0] read_separator_def read_ipv4_not_digit read_number_def)
  ultimately show ?thesis
    using assms by (simp add: parse_ip_addr_def read_ip_addr_def read_ipv6_addr_def read_ipv4_not_digit)
qed

text \<open>A bracketed host is not an address to this parser.\<close>

lemma parse_bracketed: "parse_ip_addr (91 # s) = None"
  by (rule parse_not_address) (simp_all add: to_digit_def)

end
