(* ===== verification/Fetch_Gate.thy ===== *)
theory Fetch_Gate
  imports Ip_Addr
begin

unbundle bit_operations_syntax

text \<open>
  \<open>src/fetch_gate.rs\<close>: the gate an outbound plugin request passes before it leaves the host.
  The blocked IPv4 set is restated as a list of CIDR blocks (\<open>blocked_cidrs\<close>), which the
  byte tests of the code are shown to decide.
\<close>

section \<open>The gate\<close>

datatype FetchDenial =
  SchemeBlocked | OriginBlocked | AddressBlocked | CredentialUnsupportedTransport

definition is_blocked_v4 :: "Ipv4Addr \<Rightarrow> bool" where
  "is_blocked_v4 v4 =
     (if v4_is_loopback v4 \<or> v4_is_link_local v4 \<or> v4_is_multicast v4 \<or> v4_is_unspecified v4 \<or>
         v4_is_broadcast v4
      then True
      else (case v4 of Ipv4Addr b0 b1 _ _ \<Rightarrow>
        if b0 = 0 then True
        else if b0 = 10 then True
        else if b0 = 100 \<and> (64 \<le> b1 \<and> b1 \<le> 127) then True
        else if b0 = 127 then True
        else if b0 = 169 \<and> b1 = 254 then True
        else if b0 = 172 \<and> (16 \<le> b1 \<and> b1 \<le> 31) then True
        else if b0 = 192 \<and> b1 = 168 then True
        else False))"

definition is_blocked_v6 :: "Ipv6Addr \<Rightarrow> bool" where
  "is_blocked_v6 v6 =
     (if v6_is_unspecified v6 \<or> v6_is_loopback v6 \<or> v6_is_multicast v6 then True
      else case v6_to_ipv4_mapped v6 of
        Some v4 \<Rightarrow> is_blocked_v4 v4
      | None \<Rightarrow>
          (let seg0 = v6 ! 0 in
           if seg0 AND 0xFE00 = 0xFC00 then True
           else if seg0 AND 0xFFC0 = 0xFE80 then True
           else False))"

fun is_blocked_address :: "IpAddr \<Rightarrow> bool" where
  "is_blocked_address (V4 v4) = is_blocked_v4 v4"
| "is_blocked_address (V6 v6) = is_blocked_v6 v6"

definition origin_matches :: "rstr \<Rightarrow> rstr \<Rightarrow> bool" where
  "origin_matches host norm =
     (if norm = host then True
      else case strip_prefix norm (lit ''*.'') of
        Some suffix \<Rightarrow> host = suffix \<or> ends_with host (lit ''.'' @ suffix)
      | None \<Rightarrow> False)"

text \<open>The loop over the allowlist, with its early return.\<close>

fun origin_loop :: "rstr \<Rightarrow> rstr list \<Rightarrow> bool" where
  "origin_loop host [] = False"
| "origin_loop host (origin # rest) =
     (if origin_matches host (to_ascii_lowercase origin) then True else origin_loop host rest)"

definition origin_allowed :: "rstr \<Rightarrow> rstr list \<Rightarrow> bool" where
  "origin_allowed host allowlist = origin_loop (to_ascii_lowercase host) allowlist"

definition check_request :: "rstr \<Rightarrow> rstr \<Rightarrow> rstr list \<Rightarrow> (unit, FetchDenial) result" where
  "check_request scheme host allowlist =
     (if \<not> eq_ignore_ascii_case scheme (lit ''https'') then Err SchemeBlocked
      else if \<not> origin_allowed host allowlist then Err OriginBlocked
      else let lower = to_ascii_lowercase host in
        if lower = lit ''localhost'' \<or> ends_with lower (lit ''.localhost'') then Err AddressBlocked
        else case parse_ip_addr host of
          Some ip \<Rightarrow> if is_blocked_address ip then Err AddressBlocked else Ok ()
        | None \<Rightarrow> Ok ())"

section \<open>The blocked set as CIDR blocks\<close>

fun v4_number :: "Ipv4Addr \<Rightarrow> nat" where
  "v4_number (Ipv4Addr a b c d) = unat a * 2 ^ 24 + unat b * 2 ^ 16 + unat c * 2 ^ 8 + unat d"

definition in_cidr :: "Ipv4Addr \<Rightarrow> Ipv4Addr \<times> nat \<Rightarrow> bool" where
  "in_cidr v4 net \<longleftrightarrow>
     v4_number v4 div 2 ^ (32 - snd net) = v4_number (fst net) div 2 ^ (32 - snd net)"

definition blocked_cidrs :: "(Ipv4Addr \<times> nat) list" where
  "blocked_cidrs =
     [(Ipv4Addr 0 0 0 0, 8), (Ipv4Addr 10 0 0 0, 8), (Ipv4Addr 100 64 0 0, 10),
      (Ipv4Addr 127 0 0 0, 8), (Ipv4Addr 169 254 0 0, 16), (Ipv4Addr 172 16 0 0, 12),
      (Ipv4Addr 192 168 0 0, 16), (Ipv4Addr 224 0 0 0, 4), (Ipv4Addr 255 255 255 255, 32)]"

lemma octets_div:
  fixes A B C D :: nat
  assumes "A < 256" "B < 256" "C < 256" "D < 256"
  shows "(A * 16777216 + B * 65536 + C * 256 + D) div 16777216 = A"
    and "(A * 16777216 + B * 65536 + C * 256 + D) div 4194304 = A * 4 + B div 64"
    and "(A * 16777216 + B * 65536 + C * 256 + D) div 1048576 = A * 16 + B div 16"
    and "(A * 16777216 + B * 65536 + C * 256 + D) div 65536 = A * 256 + B"
    and "(A * 16777216 + B * 65536 + C * 256 + D) div 268435456 = A div 16"
  using assms by linarith+

lemma octet_tests:
  fixes A B C D :: nat
  assumes "A < 256" "B < 256" "C < 256" "D < 256"
  shows "A * 4 + B div 64 = 401 \<longleftrightarrow> A = 100 \<and> 64 \<le> B \<and> B \<le> 127"
    and "A * 256 + B = 43518 \<longleftrightarrow> A = 169 \<and> B = 254"
    and "A * 16 + B div 16 = 2753 \<longleftrightarrow> A = 172 \<and> 16 \<le> B \<and> B \<le> 31"
    and "A * 256 + B = 49320 \<longleftrightarrow> A = 192 \<and> B = 168"
    and "A div 16 = 14 \<longleftrightarrow> 224 \<le> A \<and> A \<le> 239"
    and "A * 16777216 + B * 65536 + C * 256 + D = 4294967295 \<longleftrightarrow>
       A = 255 \<and> B = 255 \<and> C = 255 \<and> D = 255"
proof -
  have digits: "A * k + q = n \<longleftrightarrow> A = n div k \<and> q = n mod k" if "q < k" for k q n :: nat
    using that by auto
  have div: "B div 64 < 4" "B div 16 < 16" "B div 64 = 1 \<longleftrightarrow> 64 \<le> B \<and> B \<le> 127"
    "B div 16 = 1 \<longleftrightarrow> 16 \<le> B \<and> B \<le> 31"
    using assms by - (linarith, linarith, safe, linarith+)
  show "A * 4 + B div 64 = 401 \<longleftrightarrow> A = 100 \<and> 64 \<le> B \<and> B \<le> 127"
    using digits [of "B div 64" 4 401] div by simp
  show "A * 256 + B = 43518 \<longleftrightarrow> A = 169 \<and> B = 254"
    using digits [of B 256 43518] assms by simp
  show "A * 16 + B div 16 = 2753 \<longleftrightarrow> A = 172 \<and> 16 \<le> B \<and> B \<le> 31"
    using digits [of "B div 16" 16 2753] div by simp
  show "A * 256 + B = 49320 \<longleftrightarrow> A = 192 \<and> B = 168"
    using digits [of B 256 49320] assms by simp
  show "A div 16 = 14 \<longleftrightarrow> 224 \<le> A \<and> A \<le> 239"
    by (safe; linarith)
  show "A * 16777216 + B * 65536 + C * 256 + D = 4294967295 \<longleftrightarrow>
       A = 255 \<and> B = 255 \<and> C = 255 \<and> D = 255"
    using assms by (safe; linarith)
qed

lemma u8_unat_lt: "unat (x :: u8) < 256"
  using unsigned_less [of x] by simp

lemma is_blocked_v4_cidr: "is_blocked_v4 v4 \<longleftrightarrow> list_ex (in_cidr v4) blocked_cidrs"
proof (cases v4)
  case (Ipv4Addr a b c d)
  have lt: "unat a < 256" "unat b < 256" "unat c < 256" "unat d < 256" by (rule u8_unat_lt)+
  have "list_ex (in_cidr v4) blocked_cidrs \<longleftrightarrow>
      unat a = 0 \<or> unat a = 10 \<or> unat a * 4 + unat b div 64 = 401 \<or> unat a = 127 \<or>
      unat a * 256 + unat b = 43518 \<or> unat a * 16 + unat b div 16 = 2753 \<or>
      unat a * 256 + unat b = 49320 \<or> unat a div 16 = 14 \<or>
      unat a * 16777216 + unat b * 65536 + unat c * 256 + unat d = 4294967295"
    unfolding Ipv4Addr by (simp add: blocked_cidrs_def in_cidr_def octets_div lt)
  moreover have "is_blocked_v4 v4 \<longleftrightarrow>
      unat a = 0 \<or> unat a = 10 \<or> unat a = 100 \<and> 64 \<le> unat b \<and> unat b \<le> 127 \<or> unat a = 127 \<or>
      unat a = 169 \<and> unat b = 254 \<or> unat a = 172 \<and> 16 \<le> unat b \<and> unat b \<le> 31 \<or>
      unat a = 192 \<and> unat b = 168 \<or> 224 \<le> unat a \<and> unat a \<le> 239 \<or>
      unat a = 255 \<and> unat b = 255 \<and> unat c = 255 \<and> unat d = 255"
    unfolding Ipv4Addr is_blocked_v4_def
    by (auto simp: word_unat_eq_iff word_le_nat_alt)
  ultimately show ?thesis by (simp only: octet_tests [OF lt])
qed

section \<open>Lemmas\<close>

lemma origin_loop_iff:
  "origin_loop host os \<longleftrightarrow> list_ex (\<lambda>origin. origin_matches host (to_ascii_lowercase origin)) os"
  by (induction os) auto

lemma origin_matches_iff:
  "origin_matches host norm \<longleftrightarrow>
     host = norm \<or>
     (\<exists>suffix. norm = lit ''*.'' @ suffix \<and> (host = suffix \<or> (\<exists>sub. host = sub @ lit ''.'' @ suffix)))"
proof (cases "strip_prefix norm (lit ''*.'')")
  case None
  then have "\<nexists>suffix. norm = lit ''*.'' @ suffix"
    using strip_prefix_Some_iff [of norm "lit ''*.''"] by force
  with None show ?thesis by (auto simp: origin_matches_def)
next
  case (Some suffix)
  then have "norm = lit ''*.'' @ suffix" by (simp add: strip_prefix_Some_iff)
  with Some show ?thesis by (auto simp: origin_matches_def ends_with_iff)
qed

text \<open>The tests on segment 0, as ranges.\<close>

lemma u16_prefix_test:
  fixes w p :: u16
  assumes n: "n \<le> 16" and p: "p = drop_bit n (push_bit n p)"
  shows "w AND push_bit n (mask (16 - n)) = push_bit n p \<longleftrightarrow> unat w div 2 ^ n = unat p"
proof -
  have take_bit_unat: "take_bit LENGTH(16) (unat w) = unat w"
    using unsigned_less [of w, where ?'a = nat] by (simp add: take_bit_nat_eq_self)
  have and_eq: "w AND push_bit n (mask (16 - n)) = push_bit n (drop_bit n w)"
    by (rule bit_word_eqI) (use n in \<open>auto simp: bit_simps\<close>)
  have "push_bit n (drop_bit n w) = push_bit n p \<longleftrightarrow> drop_bit n w = p"
  proof
    assume "push_bit n (drop_bit n w) = push_bit n p"
    then have "drop_bit n (push_bit n (drop_bit n w)) = p" using p by simp
    moreover have "drop_bit n (push_bit n (drop_bit n w)) = drop_bit n w"
      by (rule bit_word_eqI) (auto simp: bit_simps dest: bit_imp_le_length)
    ultimately show "drop_bit n w = p" by simp
  qed simp
  also have "\<dots> \<longleftrightarrow> unat w div 2 ^ n = unat p"
    by (simp only: word_unat_eq_iff unsigned_drop_bit_eq take_bit_unat, simp only: drop_bit_eq_div)
  finally show ?thesis by (simp add: and_eq)
qed

lemma seg0_tests:
  fixes w :: u16
  shows "w AND 0xFE00 = 0xFC00 \<longleftrightarrow> 0xFC00 \<le> w \<and> w \<le> 0xFDFF"
    and "w AND 0xFFC0 = 0xFE80 \<longleftrightarrow> 0xFE80 \<le> w \<and> w \<le> 0xFEBF"
    and "w AND 0xFF00 = 0xFF00 \<longleftrightarrow> 0xFF00 \<le> w"
proof -
  have m: "push_bit 9 (mask 7) = (0xFE00 :: u16)" "push_bit 6 (mask 10) = (0xFFC0 :: u16)"
    "push_bit 8 (mask 8) = (0xFF00 :: u16)"
    by code_simp+
  have p: "push_bit 9 0x7E = (0xFC00 :: u16)"
    "push_bit 6 0x3FA = (0xFE80 :: u16)" "push_bit 8 0xFF = (0xFF00 :: u16)"
    by simp_all
  have d: "(0x7E :: u16) = drop_bit 9 (push_bit 9 0x7E)" "(0x3FA :: u16) = drop_bit 6 (push_bit 6 0x3FA)"
    "(0xFF :: u16) = drop_bit 8 (push_bit 8 0xFF)"
    by simp_all
  have lt: "unat w < 65536" using unsigned_less [of w] by simp
  show "w AND 0xFE00 = 0xFC00 \<longleftrightarrow> 0xFC00 \<le> w \<and> w \<le> 0xFDFF"
    using u16_prefix_test [OF _ d(1), of w] lt
    by (simp add: m p word_le_nat_alt) linarith
  show "w AND 0xFFC0 = 0xFE80 \<longleftrightarrow> 0xFE80 \<le> w \<and> w \<le> 0xFEBF"
    using u16_prefix_test [OF _ d(2), of w] lt
    by (simp add: m p word_le_nat_alt) linarith
  show "w AND 0xFF00 = 0xFF00 \<longleftrightarrow> 0xFF00 \<le> w"
    using u16_prefix_test [OF _ d(3), of w] lt
    by (simp add: m p word_le_nat_alt) linarith
qed

lemma mapped_of_octets:
  "v6_to_ipv4_mapped [0, 0, 0, 0, 0, 0xffff, from_be_bytes a b, from_be_bytes c d] =
     Some (Ipv4Addr a b c d)"
  by (simp add: v6_to_ipv4_mapped_def)

lemma is_blocked_v6_mapped:
  "is_blocked_v6 [0, 0, 0, 0, 0, 0xffff, from_be_bytes a b, from_be_bytes c d] =
     is_blocked_v4 (Ipv4Addr a b c d)"
  by (simp add: is_blocked_v6_def v6_is_unspecified_def v6_is_loopback_def v6_is_multicast_def
      mapped_of_octets)

lemma check_request_blocked_ip:
  assumes "parse_ip_addr host = Some ip" and "is_blocked_address ip"
  shows "check_request scheme host allowlist \<noteq> Ok ()"
  using assms by (auto simp: check_request_def Let_def)

section \<open>Properties\<close>

text \<open>
  C20. The gate's decision and the order of its refusals: a request passes exactly when its scheme
  is https, some allowlist entry is the host or a \<open>*.\<close> wildcard whose suffix is the host or ends
  it at a label boundary, the host is not under \<open>localhost\<close>, and the host, if it is an address
  literal, is not a blocked address.  An empty allowlist passes nothing.
\<close>

theorem check_request_Ok_iff:
  "check_request scheme host allowlist = Ok () \<longleftrightarrow>
     eq_ignore_ascii_case scheme (lit ''https'') \<and>
     (\<exists>entry suffix. List.member allowlist entry \<and>
        (eq_ignore_ascii_case host entry \<or>
         to_ascii_lowercase entry = lit ''*.'' @ suffix \<and>
           (to_ascii_lowercase host = suffix \<or>
            (\<exists>sub. to_ascii_lowercase host = sub @ lit ''.'' @ suffix)))) \<and>
     \<not> eq_ignore_ascii_case host (lit ''localhost'') \<and>
     (\<nexists>sub. to_ascii_lowercase host = sub @ lit ''.localhost'') \<and>
     (\<nexists>ip. parse_ip_addr host = Some ip \<and> is_blocked_address ip)"
proof -
  have lower: "to_ascii_lowercase (lit ''localhost'') = lit ''localhost''" by code_simp
  have "origin_allowed host allowlist \<longleftrightarrow>
      (\<exists>entry suffix. List.member allowlist entry \<and>
        (eq_ignore_ascii_case host entry \<or>
         to_ascii_lowercase entry = lit ''*.'' @ suffix \<and>
           (to_ascii_lowercase host = suffix \<or>
            (\<exists>sub. to_ascii_lowercase host = sub @ lit ''.'' @ suffix))))"
    unfolding origin_allowed_def origin_loop_iff list_ex_iff origin_matches_iff
      eq_ignore_ascii_case_def by auto
  then show ?thesis
    using lower by (auto simp: check_request_def Let_def eq_ignore_ascii_case_def ends_with_iff
        split: option.splits)
qed

text \<open>
  C21. SSRF through IPv4 literals: the dotted-decimal text of any address in the blocked CIDR
  blocks, and its IPv4-mapped \<open>::ffff:\<close> form, is refused for every scheme and every allowlist,
  even one that lists the literal itself.
\<close>

theorem check_request_ssrf:
  assumes "list_ex (in_cidr v4) blocked_cidrs"
  shows "check_request scheme (v4_to_string v4) allowlist \<noteq> Ok () \<and>
    check_request scheme (lit ''::ffff:'' @ v4_to_string v4) allowlist \<noteq> Ok ()"
proof (cases v4)
  case (Ipv4Addr a b c d)
  have "is_blocked_v4 (Ipv4Addr a b c d)" using assms by (simp add: is_blocked_v4_cidr Ipv4Addr)
  then show ?thesis
    unfolding Ipv4Addr
    using check_request_blocked_ip [OF parse_v4_to_string, of "Ipv4Addr a b c d"]
      check_request_blocked_ip [OF parse_v4_mapped, of a b c d]
    by (simp add: is_blocked_v6_mapped del: v4_to_string.simps)
qed

theorem check_request_ssrf_witness:
  "check_request (lit ''https'') (lit ''169.254.169.254'') [lit ''169.254.169.254''] \<noteq> Ok ()"
proof -
  have "list_ex (in_cidr (Ipv4Addr 169 254 169 254)) blocked_cidrs"
    by (simp add: blocked_cidrs_def in_cidr_def)
  moreover have "v4_to_string (Ipv4Addr 169 254 169 254) = lit ''169.254.169.254''"
    by (simp add: dec_digits.simps lit_def)
  ultimately show ?thesis
    using check_request_ssrf [of "Ipv4Addr 169 254 169 254" "lit ''https''"
        "[lit ''169.254.169.254'']"] by metis
qed

text \<open>
  The blocked IPv6 set as ranges: the unspecified and loopback addresses, multicast, the
  IPv4-mapped forms of blocked IPv4 addresses, unique-local and link-local; the prefix masks of
  the code are exactly these ranges of the first segment.
\<close>

theorem is_blocked_v6_ranges:
  "is_blocked_address (V6 v6) \<longleftrightarrow>
     v6 = [0, 0, 0, 0, 0, 0, 0, 0] \<or> v6 = [0, 0, 0, 0, 0, 0, 0, 1] \<or> 0xff00 \<le> v6 ! 0 \<or>
     (case v6_to_ipv4_mapped v6 of
        Some v4 \<Rightarrow> list_ex (in_cidr v4) blocked_cidrs
      | None \<Rightarrow> 0xfc00 \<le> v6 ! 0 \<and> v6 ! 0 \<le> 0xfdff \<or> 0xfe80 \<le> v6 ! 0 \<and> v6 ! 0 \<le> 0xfebf)"
  by (auto simp: is_blocked_v6_def v6_is_unspecified_def v6_is_loopback_def v6_is_multicast_def
      seg0_tests is_blocked_v4_cidr Let_def split: option.splits)

text \<open>
  The address check only sees bare literals: a host in brackets, the form in which a URI
  carries an IPv6 literal, does not parse as an address, so an allowlisted bracketed literal
  passes the gate whatever address it names.
\<close>

theorem check_request_bracketed_literal:
  "check_request (lit ''https'') (lit ''[::1]'') [lit ''[::1]''] = Ok () \<and>
   check_request (lit ''https'') (lit ''::1'') [lit ''::1''] = Err AddressBlocked \<and>
   parse_ip_addr (lit ''['' @ s) = None"
proof -
  have "parse_ip_addr (lit ''[::1]'') = None"
    using parse_bracketed [of "lit ''::1]''"] by (simp add: lit_def)
  then have "check_request (lit ''https'') (lit ''[::1]'') [lit ''[::1]''] = Ok ()"
    by (simp add: check_request_def origin_allowed_def origin_matches_def lit_def
        to_ascii_lowercase_def ascii_lower_def is_ascii_uppercase_def ends_with_def
        starts_with_def)
  moreover have "parse_ip_addr (lit ''::1'') = Some (V6 [0, 0, 0, 0, 0, 0, 0, 1])"
  proof -
    have "as_bytes (lit ''::1'') = [58, 58, 49]"
      by (simp add: lit_def as_bytes_Cons utf8_char_def utf8_code_def)
    moreover have "read_groups 7 0 [] [49] = ([1], False, [])"
      by (simp add: read_groups.simps read_separator_def read_ipv4_addr_def read_octet_def
          read_number_def to_digit_def)
    moreover have "replicate 7 (0 :: u16) = [0, 0, 0, 0, 0, 0, 0]" by code_simp
    ultimately show ?thesis
      by (simp add: parse_ip_addr_def read_ip_addr_def read_ipv6_addr_def read_groups_colon
          read_ipv4_not_digit to_digit_hex)
  qed
  then have "check_request (lit ''https'') (lit ''::1'') [lit ''::1''] = Err AddressBlocked"
    by (simp add: check_request_def origin_allowed_def origin_matches_def lit_def
        to_ascii_lowercase_def ascii_lower_def is_ascii_uppercase_def ends_with_def
        starts_with_def
        is_blocked_v6_def v6_is_loopback_def)
  moreover have "parse_ip_addr (lit ''['' @ s) = None"
    using parse_bracketed [of s] by (simp add: lit_def)
  ultimately show ?thesis by blast
qed

end
