(* ===== verification/Hash_Map.thy ===== *)
theory Hash_Map
  imports Prelude "HOL-Library.AList" "HOL-Library.Multiset"
begin

text \<open>
  \<open>std::collections::HashMap\<close>, as far as the crate uses it: an association list with distinct
  keys, whose order stands for the unspecified iteration order of the map.  The locale states
  what the crate relies on (a lookup after an update, and which entries an update leaves), with
  the accounting facts derived once.
\<close>

section \<open>Operations\<close>

type_synonym ('k, 'v) hash_map = "('k \<times> 'v) list"

definition hm_new :: "('k, 'v) hash_map" where "hm_new = []"

definition hm_get :: "('k, 'v) hash_map \<Rightarrow> 'k \<Rightarrow> 'v option" where
  "hm_get m k = map_of m k"

definition hm_contains_key :: "('k, 'v) hash_map \<Rightarrow> 'k \<Rightarrow> bool" where
  "hm_contains_key m k \<longleftrightarrow> map_of m k \<noteq> None"

definition hm_insert :: "'k \<Rightarrow> 'v \<Rightarrow> ('k, 'v) hash_map \<Rightarrow> ('k, 'v) hash_map" where
  "hm_insert k v m = AList.update k v m"

definition hm_remove :: "'k \<Rightarrow> ('k, 'v) hash_map \<Rightarrow> ('k, 'v) hash_map" where
  "hm_remove k m = filter (\<lambda>e. fst e \<noteq> k) m"

definition hm_wf :: "('k, 'v) hash_map \<Rightarrow> bool" where
  "hm_wf m \<longleftrightarrow> distinct (map fst m)"

section \<open>The interface\<close>

lemma filter_key_Some:
  "map_of xs k = Some v \<Longrightarrow> distinct (map fst xs) \<Longrightarrow> filter (\<lambda>e. fst e = k) xs = [(k, v)]"
proof (induction xs)
  case Nil
  then show ?case by simp
next
  case (Cons e xs)
  then show ?case by (cases e) (force simp: filter_empty_conv split: if_splits)
qed

locale keyed_store =
  fixes new :: "'m"
    and lookup :: "'m \<Rightarrow> 'k \<Rightarrow> 'v option"
    and insert :: "'k \<Rightarrow> 'v \<Rightarrow> 'm \<Rightarrow> 'm"
    and remove :: "'k \<Rightarrow> 'm \<Rightarrow> 'm"
    and entries :: "'m \<Rightarrow> ('k \<times> 'v) list"
    and wf :: "'m \<Rightarrow> bool"
  assumes wf_keys: "wf m \<Longrightarrow> distinct (map fst (entries m))"
    and lookup_entries: "lookup m k = map_of (entries m) k"
    and entries_new: "entries new = []"
    and wf_new: "wf new"
    and wf_insert: "wf m \<Longrightarrow> wf (insert k v m)"
    and wf_remove: "wf m \<Longrightarrow> wf (remove k m)"
    and entries_insert: "wf m \<Longrightarrow>
      mset (entries (insert k v m)) = add_mset (k, v) {#e \<in># mset (entries m). fst e \<noteq> k#}"
    and entries_remove: "wf m \<Longrightarrow>
      mset (entries (remove k m)) = {#e \<in># mset (entries m). fst e \<noteq> k#}"
begin

lemma lookup_new: "lookup new k = None"
  by (simp add: lookup_entries entries_new)

lemma lookup_Some_iff: "wf m \<Longrightarrow> lookup m k = Some v \<longleftrightarrow> (k, v) \<in># mset (entries m)"
  using map_of_eq_Some_iff [OF wf_keys] by (simp add: lookup_entries)

lemma lookup_eqI: "(\<And>v. a = Some v \<longleftrightarrow> b = Some v) \<Longrightarrow> a = (b :: 'v option)"
  by (cases a; cases b) auto

lemma lookup_insert:
  assumes "wf m"
  shows "lookup (insert k v m) = (lookup m)(k \<mapsto> v)"
proof
  fix j
  show "lookup (insert k v m) j = ((lookup m)(k \<mapsto> v)) j"
  proof (rule lookup_eqI)
    fix w
    show "lookup (insert k v m) j = Some w \<longleftrightarrow> ((lookup m)(k \<mapsto> v)) j = Some w"
      using assms by (auto simp: lookup_Some_iff wf_insert entries_insert)
  qed
qed

lemma lookup_remove:
  assumes "wf m"
  shows "lookup (remove k m) = (lookup m)(k := None)"
proof
  fix j
  show "lookup (remove k m) j = ((lookup m)(k := None)) j"
  proof (rule lookup_eqI)
    fix w
    show "lookup (remove k m) j = Some w \<longleftrightarrow> ((lookup m)(k := None)) j = Some w"
      using assms by (auto simp: lookup_Some_iff wf_remove entries_remove)
  qed
qed

text \<open>A measure summed over the values, and the number of entries, after an update.\<close>

definition total :: "('v \<Rightarrow> nat) \<Rightarrow> 'm \<Rightarrow> nat" where
  "total f m = sum_list (map (\<lambda>e. f (snd e)) (entries m))"

lemma total_mset: "total f m = (\<Sum>e \<in># mset (entries m). f (snd e))"
  by (simp add: total_def sum_mset_sum_list flip: mset_map)

lemma entries_split:
  assumes "wf m"
  shows "mset (entries m) =
    (case lookup m k of Some v \<Rightarrow> {#(k, v)#} | None \<Rightarrow> {#}) + {#e \<in># mset (entries m). fst e \<noteq> k#}"
proof -
  let ?A = "{#e \<in># mset (entries m). fst e = k#}"
  have d: "distinct (map fst (entries m))" using wf_keys [OF assms] .
  have part: "mset (entries m) = ?A + {#e \<in># mset (entries m). fst e \<noteq> k#}"
    by (rule multiset_partition)
  have "?A = (case lookup m k of Some v \<Rightarrow> {#(k, v)#} | None \<Rightarrow> {#})"
  proof (cases "lookup m k")
    case None
    then have "k \<notin> fst ` set (entries m)" by (simp add: lookup_entries map_of_eq_None_iff)
    then have "filter (\<lambda>e. fst e = k) (entries m) = []" by (auto simp: filter_empty_conv)
    then have "?A = {#}" by (simp flip: mset_filter)
    with None show ?thesis by simp
  next
    case (Some v)
    have "filter (\<lambda>e. fst e = k) (entries m) = [(k, v)]"
      using Some d filter_key_Some unfolding lookup_entries by fastforce
    then show ?thesis using Some by (simp flip: mset_filter)
  qed
  with part show ?thesis by simp
qed

lemma total_le: "wf m \<Longrightarrow> lookup m k = Some v \<Longrightarrow> f v \<le> total f m"
  using entries_split [of m k] by (metis (no_types, lifting) total_mset option.simps(5)
      image_mset_union image_mset_single sum_mset.union sum_mset.singleton snd_conv le_add1)

lemma total_insert:
  assumes "wf m"
  shows "total f (insert k v m) + (case lookup m k of Some w \<Rightarrow> f w | None \<Rightarrow> 0) = total f m + f v"
  using arg_cong [OF entries_split [OF assms, of k], of "\<lambda>M. \<Sum>e \<in># M. f (snd e)"]
  by (cases "lookup m k") (simp_all add: total_mset entries_insert [OF assms])

lemma total_remove_le: "wf m \<Longrightarrow> total f (remove k m) \<le> total f m"
  using arg_cong [OF entries_split [of m k], of "\<lambda>M. \<Sum>e \<in># M. f (snd e)"]
  by (cases "lookup m k") (simp_all add: total_mset entries_remove)

lemma length_entries_insert:
  assumes "wf m"
  shows "length (entries (insert k v m)) =
    (if lookup m k = None then Suc (length (entries m)) else length (entries m))"
  using arg_cong [OF entries_split [OF assms, of k], of size]
    arg_cong [OF entries_insert [OF assms, of k v], of size]
  by (cases "lookup m k") simp_all

lemma length_entries_remove_le: "wf m \<Longrightarrow> length (entries (remove k m)) \<le> length (entries m)"
  by (metis entries_remove size_mset size_filter_mset_lesseq)

end

section \<open>The model satisfies the interface\<close>

lemma mset_update:
  "distinct (map fst m) \<Longrightarrow>
     mset (AList.update k v m) = add_mset (k, v) {#e \<in># mset m. fst e \<noteq> k#}"
proof (induction m)
  case Nil
  then show ?case by simp
next
  case (Cons e m)
  show ?case
  proof (cases "fst e = k")
    case True
    with Cons.prems have "k \<notin> fst ` set m" by auto
    then have "{#x \<in># mset m. fst x \<noteq> k#} = mset m" by (auto simp: filter_mset_eq_conv)
    with True show ?thesis by (cases e) simp
  next
    case False
    with Cons show ?thesis by (cases e) auto
  qed
qed

interpretation hm: keyed_store hm_new hm_get hm_insert hm_remove "\<lambda>m. m" hm_wf
proof unfold_locales
  fix m :: "('a, 'b) hash_map" and k v
  show "hm_wf m \<Longrightarrow> hm_wf (hm_insert k v m)"
    by (simp add: hm_wf_def hm_insert_def distinct_update)
  show "hm_wf m \<Longrightarrow> hm_wf (hm_remove k m)"
    by (simp add: hm_wf_def hm_remove_def distinct_map_filter)
  show "hm_wf m \<Longrightarrow> mset (hm_insert k v m) = add_mset (k, v) {#e \<in># mset m. fst e \<noteq> k#}"
    by (simp add: hm_wf_def hm_insert_def mset_update)
qed (simp_all add: hm_wf_def hm_get_def hm_new_def hm_remove_def)

end
