(* ===== verification/Storage_Events.thy ===== *)
theory Storage_Events
  imports Hash_Map Rust_Str
begin

text \<open>
  \<open>src/storage_events.rs\<close>: the gated, quota-bounded key-value host and the capped event sink.
  Every host method is a function from the host state; \<open>gated_store\<close> states what a composing
  host relies on, and the capstone host of \<open>Capstone\<close> is shown to satisfy it too.
\<close>

section \<open>State\<close>

record ApiError =
  code :: rstr
  message :: rstr

record PluginEvent =
  kind :: rstr
  payload :: bytes

definition STORAGE_MAX_KEYS :: nat where "STORAGE_MAX_KEYS = 128"
definition STORAGE_MAX_TOTAL_BYTES :: nat where "STORAGE_MAX_TOTAL_BYTES = 256 * 1024"
definition EVENTS_MAX_COUNT :: nat where "EVENTS_MAX_COUNT = 256"
definition EVENT_MAX_PAYLOAD_BYTES :: nat where "EVENT_MAX_PAYLOAD_BYTES = 64 * 1024"

record StorageEventsHost =
  granted :: bool
  kv :: "(rstr, bytes) hash_map"
  events :: "PluginEvent list"

definition storage_events_new :: "bool \<Rightarrow> StorageEventsHost" where
  "storage_events_new g = \<lparr>granted = g, kv = hm_new, events = []\<rparr>"

definition captured_events :: "StorageEventsHost \<Rightarrow> PluginEvent list" where
  "captured_events h = events h"

definition stored_value :: "StorageEventsHost \<Rightarrow> rstr \<Rightarrow> bytes option" where
  "stored_value h key = hm_get (kv h) key"

definition total_bytes :: "StorageEventsHost \<Rightarrow> nat" where
  "total_bytes h = sum_list (map (\<lambda>e. length (snd e)) (kv h))"

definition denied :: ApiError where
  "denied = \<lparr>code = lit ''permission-denied'', message = lit ''storage: capability not granted''\<rparr>"

definition quota_exceeded :: "rstr \<Rightarrow> ApiError" where
  "quota_exceeded what =
     \<lparr>code = lit ''quota-exceeded'', message = lit ''storage: '' @ what @ lit '' quota exceeded''\<rparr>"

section \<open>The storage host\<close>

definition kv_get :: "StorageEventsHost \<Rightarrow> rstr \<Rightarrow> (bytes option, ApiError) result" where
  "kv_get h key = (if \<not> granted h then Err denied else Ok (hm_get (kv h) key))"

text \<open>
  The projection \<open>total_bytes() - old_len + value.len()\<close> is on \<open>usize\<close>; that the subtraction
  does not underflow is \<open>old_len_le_total\<close> below.
\<close>

definition kv_set ::
  "StorageEventsHost \<Rightarrow> rstr \<Rightarrow> bytes \<Rightarrow> (unit, ApiError) result \<times> StorageEventsHost" where
  "kv_set h key value =
     (if \<not> granted h then (Err denied, h)
      else
        let is_new_key = \<not> hm_contains_key (kv h) key in
        if is_new_key \<and> STORAGE_MAX_KEYS \<le> length (kv h)
        then (Err (quota_exceeded (lit ''key count'')), h)
        else
          let old_len = (case hm_get (kv h) key of Some v \<Rightarrow> length v | None \<Rightarrow> 0);
              projected = total_bytes h - old_len + length value in
          if STORAGE_MAX_TOTAL_BYTES < projected
          then (Err (quota_exceeded (lit ''total bytes'')), h)
          else (Ok (), h\<lparr>kv := hm_insert key value (kv h)\<rparr>))"

definition kv_delete ::
  "StorageEventsHost \<Rightarrow> rstr \<Rightarrow> (unit, ApiError) result \<times> StorageEventsHost" where
  "kv_delete h key =
     (if \<not> granted h then (Err denied, h) else (Ok (), h\<lparr>kv := hm_remove key (kv h)\<rparr>))"

definition kv_clear :: "StorageEventsHost \<Rightarrow> (unit, ApiError) result \<times> StorageEventsHost" where
  "kv_clear h = (if \<not> granted h then (Err denied, h) else (Ok (), h\<lparr>kv := hm_new\<rparr>))"

definition kv_list_keys :: "StorageEventsHost \<Rightarrow> (rstr list, ApiError) result" where
  "kv_list_keys h = (if \<not> granted h then Err denied else Ok (map fst (kv h)))"

section \<open>The event sink\<close>

definition events_emit ::
  "StorageEventsHost \<Rightarrow> PluginEvent \<Rightarrow> (unit, ApiError) result \<times> StorageEventsHost" where
  "events_emit h event =
     (if EVENT_MAX_PAYLOAD_BYTES < length (payload event)
      then (Err \<lparr>code = lit ''quota-exceeded'', message = lit ''events: payload too large''\<rparr>, h)
      else if EVENTS_MAX_COUNT \<le> length (events h)
      then (Err \<lparr>code = lit ''rate-limited'', message = lit ''events: emit rate cap reached''\<rparr>, h)
      else (Ok (), h\<lparr>events := events h @ [event]\<rparr>))"

definition capture_event ::
  "StorageEventsHost \<Rightarrow> rstr \<Rightarrow> bytes \<Rightarrow> (unit, ApiError) result \<times> StorageEventsHost" where
  "capture_event h k p = events_emit h \<lparr>kind = k, payload = p\<rparr>"

section \<open>What a storage host promises\<close>

text \<open>
  The guest's calls, and the laws of a gated store: \<open>view\<close> is the stored map, \<open>sink\<close> the captured
  events, \<open>inv\<close> the host's invariant.
\<close>

datatype host_call =
  CallSet rstr bytes | CallDelete rstr | CallClear | CallEmit rstr bytes

text \<open>What a call may do to the stored map: nothing, or, behind an open gate, its effect.\<close>

fun effect :: "host_call \<Rightarrow> (rstr \<Rightarrow> bytes option) \<Rightarrow> rstr \<Rightarrow> bytes option" where
  "effect (CallSet k v) m = m(k \<mapsto> v)"
| "effect (CallDelete k) m = m(k := None)"
| "effect CallClear m = Map.empty"
| "effect (CallEmit k v) m = m"

text \<open>A call that leaves the value of a key alone.\<close>

fun spares :: "rstr \<Rightarrow> host_call \<Rightarrow> bool" where
  "spares k (CallSet j v) \<longleftrightarrow> j \<noteq> k"
| "spares k (CallDelete j) \<longleftrightarrow> j \<noteq> k"
| "spares k CallClear \<longleftrightarrow> False"
| "spares k (CallEmit j v) \<longleftrightarrow> True"

locale gated_store =
  fixes gate :: "'h \<Rightarrow> bool"
    and view :: "'h \<Rightarrow> rstr \<Rightarrow> bytes option"
    and sink :: "'h \<Rightarrow> (rstr \<times> bytes) list"
    and inv :: "'h \<Rightarrow> bool"
    and get :: "'h \<Rightarrow> rstr \<Rightarrow> (bytes option, 'e) result"
    and set :: "'h \<Rightarrow> rstr \<Rightarrow> bytes \<Rightarrow> (unit, 'e) result \<times> 'h"
    and delete :: "'h \<Rightarrow> rstr \<Rightarrow> (unit, 'e) result \<times> 'h"
    and clear :: "'h \<Rightarrow> (unit, 'e) result \<times> 'h"
    and emit :: "'h \<Rightarrow> rstr \<Rightarrow> bytes \<Rightarrow> (unit, 'e) result \<times> 'h"
    and denial :: 'e
  assumes get_law: "inv h \<Longrightarrow> get h k = (if gate h then Ok (view h k) else Err denial)"
    and closed: "inv h \<Longrightarrow> \<not> gate h \<Longrightarrow>
      set h k v = (Err denial, h) \<and> delete h k = (Err denial, h) \<and> clear h = (Err denial, h)"
    and set_law: "gate h \<Longrightarrow> inv h \<Longrightarrow> set h k v = (r, h') \<Longrightarrow>
      gate h' \<and> inv h' \<and> sink h' = sink h \<and>
      (case r of Inl e \<Rightarrow> e \<noteq> denial \<and> h' = h | Inr _ \<Rightarrow> view h' = (view h)(k \<mapsto> v))"
    and delete_law: "gate h \<Longrightarrow> inv h \<Longrightarrow> delete h k = (r, h') \<Longrightarrow>
      gate h' \<and> inv h' \<and> sink h' = sink h \<and> r = Ok () \<and> view h' = (view h)(k := None)"
    and clear_law: "gate h \<Longrightarrow> inv h \<Longrightarrow> clear h = (r, h') \<Longrightarrow>
      gate h' \<and> inv h' \<and> sink h' = sink h \<and> r = Ok () \<and> view h' = Map.empty"
    and emit_law: "inv h \<Longrightarrow> emit h k v = (r, h') \<Longrightarrow>
      gate h' = gate h \<and> inv h' \<and> view h' = view h \<and>
      (case r of Inl e \<Rightarrow> h' = h | Inr _ \<Rightarrow> sink h' = sink h @ [(k, v)])"
begin

fun call :: "host_call \<Rightarrow> 'h \<Rightarrow> (unit, 'e) result \<times> 'h" where
  "call (CallSet k v) h = set h k v"
| "call (CallDelete k) h = delete h k"
| "call CallClear h = clear h"
| "call (CallEmit k v) h = emit h k v"

fun run :: "host_call list \<Rightarrow> 'h \<Rightarrow> 'h" where
  "run [] h = h"
| "run (c # cs) h = run cs (snd (call c h))"

lemma call_effect:
  assumes inv: "inv h" and call: "call c h = (r, h')"
  shows "inv h' \<and> gate h' = gate h \<and> (view h' = view h \<or> gate h \<and> view h' = effect c (view h))"
proof (cases "gate h")
  case False
  show ?thesis
  proof (cases c)
    case (CallEmit k v)
    with emit_law [OF inv, of k v r h'] call show ?thesis by simp
  qed (use False closed [OF inv False] inv call in simp_all)
next
  case True
  show ?thesis
  proof (cases c)
    case (CallSet k v)
    with set_law [OF True inv, of k v r h'] call True inv show ?thesis by (cases r) auto
  next
    case (CallDelete k)
    with delete_law [OF True inv, of k r h'] call True show ?thesis by simp
  next
    case CallClear
    with clear_law [OF True inv, of r h'] call True show ?thesis by simp
  next
    case (CallEmit k v)
    with emit_law [OF inv, of k v r h'] call show ?thesis by simp
  qed
qed

lemma call_keeps: "inv h \<Longrightarrow> inv (snd (call c h)) \<and> gate (snd (call c h)) = gate h"
  using call_effect [of h c] by (cases "call c h") simp

lemma run_keeps: "inv h \<Longrightarrow> inv (run cs h) \<and> gate (run cs h) = gate h"
  by (induction cs arbitrary: h) (simp_all add: call_keeps)

lemma closed_call_view: "inv h \<Longrightarrow> \<not> gate h \<Longrightarrow> view (snd (call c h)) = view h"
  using call_effect [of h c] by (cases "call c h") simp

text \<open>Behind a closed gate nothing a guest calls changes what is stored.\<close>

lemma closed_run_view: "inv h \<Longrightarrow> \<not> gate h \<Longrightarrow> view (run cs h) = view h"
  by (induction cs arbitrary: h) (simp_all add: closed_call_view call_keeps)

lemma read_your_write:
  assumes "inv h" and "set h k v = (Ok u, h')"
  shows "get h' j = (if j = k then Ok (Some v) else get h j)"
proof -
  have "gate h" using assms closed [of h k v] by (cases "gate h") auto
  with set_law [OF this assms] show ?thesis using assms(1) by (simp add: get_law)
qed

lemma spared_effect: "spares k c \<Longrightarrow> effect c m k = m k"
  by (cases c) auto

lemma spared_call: "inv h \<Longrightarrow> spares k c \<Longrightarrow> view (snd (call c h)) k = view h k"
  using call_effect [of h c] spared_effect [of k c "view h"] by (cases "call c h") auto

lemma spared_run: "inv h \<Longrightarrow> list_all (spares k) cs \<Longrightarrow> view (run cs h) k = view h k"
  by (induction cs arbitrary: h) (simp_all add: spared_call call_keeps)

end

section \<open>The quota invariant\<close>

definition within_quota :: "StorageEventsHost \<Rightarrow> bool" where
  "within_quota h \<longleftrightarrow>
     hm_wf (kv h) \<and> length (kv h) \<le> STORAGE_MAX_KEYS \<and> total_bytes h \<le> STORAGE_MAX_TOTAL_BYTES \<and>
     length (events h) \<le> EVENTS_MAX_COUNT \<and>
     list_all (\<lambda>e. length (payload e) \<le> EVENT_MAX_PAYLOAD_BYTES) (events h)"

lemma total_bytes_total: "total_bytes h = hm.total length (kv h)"
  by (simp add: total_bytes_def hm.total_def)

lemma old_len_le_total:
  "hm_wf (kv h) \<Longrightarrow> (case hm_get (kv h) k of Some v \<Rightarrow> length v | None \<Rightarrow> 0) \<le> total_bytes h"
  using hm.total_le [of "kv h" k] by (auto simp: total_bytes_total split: option.splits)

lemma total_bytes_insert:
  assumes "hm_wf (kv h)"
  shows "total_bytes (h\<lparr>kv := hm_insert k v (kv h)\<rparr>) =
    total_bytes h - (case hm_get (kv h) k of Some w \<Rightarrow> length w | None \<Rightarrow> 0) + length v"
  using hm.total_insert [OF assms, of length k v] old_len_le_total [OF assms, of k]
  by (simp add: total_bytes_total)

lemma within_quota_new [inv_intros]: "within_quota (storage_events_new g)"
  by (simp add: within_quota_def storage_events_new_def hm_wf_def total_bytes_def hm_new_def)

lemma kv_set_Ok:
  assumes "within_quota h" and "kv_set h k v = (Ok u, h')"
  shows "h' = h\<lparr>kv := hm_insert k v (kv h)\<rparr> \<and> within_quota h'"
proof -
  have wf: "hm_wf (kv h)" using assms by (simp add: within_quota_def)
  have h': "h' = h\<lparr>kv := hm_insert k v (kv h)\<rparr>"
    and count: "hm_get (kv h) k = None \<Longrightarrow> length (kv h) < STORAGE_MAX_KEYS"
    and bytes: "total_bytes h - (case hm_get (kv h) k of Some w \<Rightarrow> length w | None \<Rightarrow> 0) + length v
      \<le> STORAGE_MAX_TOTAL_BYTES"
    using assms
    by (auto simp: kv_set_def Let_def hm_contains_key_def hm_get_def split: if_splits)
  have "total_bytes h' \<le> STORAGE_MAX_TOTAL_BYTES"
    using bytes unfolding h' total_bytes_insert [OF wf] .
  moreover have "length (kv h') \<le> STORAGE_MAX_KEYS"
    using hm.length_entries_insert [OF wf, of k v] count assms(1)
    by (auto simp: h' within_quota_def split: if_splits)
  ultimately show ?thesis
    using assms(1) by (simp add: h' within_quota_def hm.wf_insert)
qed

lemma kv_set_Err: "kv_set h k v = (Err e, h') \<Longrightarrow> h' = h"
  by (auto simp: kv_set_def Let_def split: if_splits)

lemma kv_set_Err_code:
  "granted h \<Longrightarrow> kv_set h k v = (Err e, h') \<Longrightarrow> e \<noteq> denied"
  by (auto simp: kv_set_def Let_def denied_def quota_exceeded_def lit_def split: if_splits)

lemma kv_delete_quota: "within_quota h \<Longrightarrow> within_quota (h\<lparr>kv := hm_remove k (kv h)\<rparr>)"
  using hm.total_remove_le [of "kv h" length k] hm.length_entries_remove_le [of "kv h" k]
  by (simp add: within_quota_def hm.wf_remove total_bytes_total)

lemma kv_clear_quota: "within_quota h \<Longrightarrow> within_quota (h\<lparr>kv := hm_new\<rparr>)"
  by (simp add: within_quota_def hm_wf_def total_bytes_def hm_new_def)

lemma events_emit_quota:
  "within_quota h \<Longrightarrow> events_emit h ev = (r, h') \<Longrightarrow> within_quota h' \<and> granted h' = granted h \<and> kv h' = kv h"
  by (auto simp: events_emit_def within_quota_def total_bytes_def split: if_splits)

definition event_pairs :: "StorageEventsHost \<Rightarrow> (rstr \<times> bytes) list" where
  "event_pairs h = map (\<lambda>e. (kind e, payload e)) (events h)"

interpretation se: gated_store granted stored_value event_pairs within_quota kv_get kv_set
  kv_delete kv_clear capture_event denied
proof unfold_locales
  fix h h' :: StorageEventsHost and k :: rstr and v :: bytes and r :: "(unit, ApiError) result"
  show "within_quota h \<Longrightarrow> kv_get h k = (if granted h then Ok (stored_value h k) else Err denied)"
    by (simp add: kv_get_def stored_value_def)
  show "within_quota h \<Longrightarrow> \<not> granted h \<Longrightarrow> kv_set h k v = (Err denied, h) \<and> kv_delete h k = (Err denied, h) \<and>
      kv_clear h = (Err denied, h)"
    by (simp add: kv_set_def kv_delete_def kv_clear_def)
  show "granted h' \<and> within_quota h' \<and> event_pairs h' = event_pairs h \<and>
      (case r of Inl e \<Rightarrow> e \<noteq> denied \<and> h' = h | Inr _ \<Rightarrow> stored_value h' = (stored_value h)(k \<mapsto> v))"
    if "granted h" "within_quota h" "kv_set h k v = (r, h')"
  proof (cases r)
    case (Inl e)
    with that kv_set_Err [of h k v e h'] kv_set_Err_code [of h k v e h'] show ?thesis by simp
  next
    case (Inr u)
    then have h': "h' = h\<lparr>kv := hm_insert k v (kv h)\<rparr>" "within_quota h'"
      using kv_set_Ok [of h k v u h'] that by auto
    have wf: "hm_wf (kv h)" using that by (simp add: within_quota_def)
    have "stored_value h' = (stored_value h)(k \<mapsto> v)"
      by (rule ext) (simp add: stored_value_def h'(1) hm.lookup_insert [OF wf])
    with that Inr h' show ?thesis by (simp add: event_pairs_def)
  qed
  show "granted h' \<and> within_quota h' \<and> event_pairs h' = event_pairs h \<and> r = Ok () \<and>
      stored_value h' = (stored_value h)(k := None)"
    if "granted h" "within_quota h" "kv_delete h k = (r, h')"
  proof -
    have wf: "hm_wf (kv h)" using that by (simp add: within_quota_def)
    have h': "h' = h\<lparr>kv := hm_remove k (kv h)\<rparr>" "r = Ok ()" using that by (auto simp: kv_delete_def)
    have "stored_value h' = (stored_value h)(k := None)"
      by (rule ext) (simp add: stored_value_def h'(1) hm.lookup_remove [OF wf])
    with that h' kv_delete_quota [of h k] show ?thesis by (simp add: event_pairs_def)
  qed
  show "granted h' \<and> within_quota h' \<and> event_pairs h' = event_pairs h \<and> r = Ok () \<and>
      stored_value h' = Map.empty"
    if "granted h" "within_quota h" "kv_clear h = (r, h')"
    using that kv_clear_quota [of h]
    by (auto simp: kv_clear_def event_pairs_def stored_value_def hm.lookup_new)
  show "granted h' = granted h \<and> within_quota h' \<and> stored_value h' = stored_value h \<and>
      (case r of Inl e \<Rightarrow> h' = h | Inr _ \<Rightarrow> event_pairs h' = event_pairs h @ [(k, v)])"
    if "within_quota h" "capture_event h k v = (r, h')"
  proof -
    have emit: "events_emit h \<lparr>kind = k, payload = v\<rparr> = (r, h')"
      using that by (simp add: capture_event_def)
    have "case r of Inl e \<Rightarrow> h' = h | Inr _ \<Rightarrow> event_pairs h' = event_pairs h @ [(k, v)]"
      using emit by (auto simp: events_emit_def event_pairs_def split: if_splits)
    with events_emit_quota [OF that(1) emit] show ?thesis
      by (simp add: stored_value_def fun_eq_iff)
  qed
qed

section \<open>Guest call sequences\<close>

text \<open>The state-changing calls of the two interfaces, in the order a guest makes them.\<close>

fun storage_call ::
  "host_call \<Rightarrow> StorageEventsHost \<Rightarrow> (unit, ApiError) result \<times> StorageEventsHost" where
  "storage_call (CallSet k v) h = kv_set h k v"
| "storage_call (CallDelete k) h = kv_delete h k"
| "storage_call CallClear h = kv_clear h"
| "storage_call (CallEmit k v) h = capture_event h k v"

fun storage_run :: "host_call list \<Rightarrow> StorageEventsHost \<Rightarrow> StorageEventsHost" where
  "storage_run [] h = h"
| "storage_run (c # cs) h = storage_run cs (snd (storage_call c h))"

lemma storage_call_eq: "storage_call c h = se.call c h"
  by (cases c) simp_all

lemma storage_run_eq: "storage_run cs h = se.run cs h"
  by (induction cs arbitrary: h) (simp_all add: storage_call_eq)

section \<open>Properties\<close>

text \<open>
  C5. The quotas hold in every reachable state: after any sequence of guest calls a host holds at
  most 128 keys and 256 KiB of values, with distinct keys, and at most 256 events, none over
  64 KiB.
\<close>

theorem storage_run_within_quota:
  "let h = storage_run cs (storage_events_new g) in
     distinct (map fst (kv h)) \<and> length (kv h) \<le> 128 \<and> total_bytes h \<le> 262144 \<and>
     length (captured_events h) \<le> 256 \<and>
     list_all (\<lambda>e. length (payload e) \<le> 65536) (captured_events h)"
  using se.run_keeps [OF within_quota_new, of cs g]
  by (simp add: storage_run_eq within_quota_def hm_wf_def captured_events_def STORAGE_MAX_KEYS_def
      STORAGE_MAX_TOTAL_BYTES_def EVENTS_MAX_COUNT_def EVENT_MAX_PAYLOAD_BYTES_def)

text \<open>
  C27. \<open>set\<close> refuses exactly the writes that would break a quota, and nothing else: on a granted
  host within its quotas it succeeds if and only if the host with the value stored is within
  them, and it then is that host; a refused write leaves the host as it was.
\<close>

theorem kv_set_exact:
  assumes "granted h" and "within_quota h"
  shows "kv_set h k v =
    (let h' = h\<lparr>kv := hm_insert k v (kv h)\<rparr> in
     if within_quota h' then (Ok (), h')
     else if STORAGE_MAX_KEYS < length (kv h') then (Err (quota_exceeded (lit ''key count'')), h)
     else (Err (quota_exceeded (lit ''total bytes'')), h))"
proof -
  have wf: "hm_wf (kv h)" using assms by (simp add: within_quota_def)
  have len: "length (hm_insert k v (kv h)) =
      (if hm_get (kv h) k = None then Suc (length (kv h)) else length (kv h))"
    using hm.length_entries_insert [OF wf, of k v] .
  have "within_quota (h\<lparr>kv := hm_insert k v (kv h)\<rparr>) \<longleftrightarrow>
      length (hm_insert k v (kv h)) \<le> STORAGE_MAX_KEYS \<and>
      total_bytes h - (case hm_get (kv h) k of Some w \<Rightarrow> length w | None \<Rightarrow> 0) + length v
        \<le> STORAGE_MAX_TOTAL_BYTES"
    using assms(2) total_bytes_insert [OF wf, of k v] by (simp add: within_quota_def hm.wf_insert)
  moreover have "length (kv h) \<le> STORAGE_MAX_KEYS" using assms(2) by (simp add: within_quota_def)
  ultimately show ?thesis
    using assms(1) len
    by (auto simp: kv_set_def Let_def hm_contains_key_def hm_get_def)
qed

theorem kv_set_exact_witness:
  "kv_set (storage_events_new True) (lit ''k'') [7] =
     (Ok (), (storage_events_new True)\<lparr>kv := [(lit ''k'', [7])]\<rparr>)"
proof -
  let ?h = "storage_events_new True"
  have "granted ?h" by (simp add: storage_events_new_def)
  moreover have "within_quota (?h\<lparr>kv := hm_insert (lit ''k'') [7] (kv ?h)\<rparr>)"
    by (simp add: within_quota_def storage_events_new_def hm_wf_def total_bytes_def hm_new_def
        hm_insert_def STORAGE_MAX_KEYS_def STORAGE_MAX_TOTAL_BYTES_def)
  ultimately show ?thesis
    using kv_set_exact [OF _ within_quota_new, of True "lit ''k''" "[7]"]
    by (simp add: storage_events_new_def hm_new_def hm_insert_def)
qed

text \<open>
  C28. A stored value is what later reads return: after a successful \<open>set\<close>, and any calls that
  neither clear the store nor name the key, \<open>get\<close> gives that value.
\<close>

theorem storage_read_back:
  assumes "within_quota h" and "kv_set h k v = (Ok u, h')" and "list_all (spares k) cs"
  shows "kv_get (storage_run cs h') k = Ok (Some v)"
proof -
  have h': "within_quota h'" using kv_set_Ok [OF assms(1,2)] by blast
  have get: "kv_get h' k = Ok (Some v)" using se.read_your_write [OF assms(1,2), of k] by simp
  have "stored_value (storage_run cs h') k = stored_value h' k"
    using se.spared_run [OF h' assms(3)] by (simp add: storage_run_eq)
  moreover have "granted (storage_run cs h') = granted h'" "within_quota (storage_run cs h')"
    using se.run_keeps [OF h', of cs] by (simp_all add: storage_run_eq)
  ultimately show ?thesis using get h' by (simp add: se.get_law split: if_splits)
qed

theorem storage_read_back_witness:
  "kv_get (storage_run [CallSet (lit ''b'') [2], CallEmit (lit ''e'') [3], CallDelete (lit ''b'')]
     (snd (kv_set (storage_events_new True) (lit ''a'') [1]))) (lit ''a'') = Ok (Some [1])"
proof -
  have set: "kv_set (storage_events_new True) (lit ''a'') [1] =
      (Ok (), (storage_events_new True)\<lparr>kv := [(lit ''a'', [1])]\<rparr>)"
    by (simp add: kv_set_def storage_events_new_def hm_new_def hm_contains_key_def hm_get_def
        hm_insert_def total_bytes_def STORAGE_MAX_KEYS_def STORAGE_MAX_TOTAL_BYTES_def)
  show ?thesis
    unfolding set snd_conv
    by (rule storage_read_back [OF within_quota_new set]) (simp add: lit_def)
qed

end
