(* ===== verification/Capstone.thy ===== *)
theory Capstone
  imports Storage_Events
begin

text \<open>
  \<open>src/capstone.rs\<close>: the host harness that composes the storage and event host with a gated
  workspace and a log sink.  It delegates; \<open>cap\<close> interprets the same interface on it, so every
  law of the storage host holds of the composition.
\<close>

section \<open>State\<close>

datatype Level = Trace | Debug | Info | Warn | Error

record LogLine =
  level :: Level
  log_message :: rstr

record PortfolioName =
  pn_id :: rstr
  pn_name :: rstr

record CapstoneHarness =
  cap_granted :: bool
  store :: StorageEventsHost
  logs :: "LogLine list"

definition canned_portfolios :: "PortfolioName list" where
  "canned_portfolios =
     [\<lparr>pn_id = lit ''p1'', pn_name = lit ''Growth''\<rparr>, \<lparr>pn_id = lit ''p2'', pn_name = lit ''Income''\<rparr>]"

definition capstone_new :: "bool \<Rightarrow> CapstoneHarness" where
  "capstone_new g = \<lparr>cap_granted = g, store = storage_events_new g, logs = []\<rparr>"

definition capstone_captured_events :: "CapstoneHarness \<Rightarrow> (rstr \<times> bytes) list" where
  "capstone_captured_events c = map (\<lambda>e. (kind e, payload e)) (captured_events (store c))"

definition capstone_stored_value :: "CapstoneHarness \<Rightarrow> rstr \<Rightarrow> bytes option" where
  "capstone_stored_value c key = stored_value (store c) key"

definition captured_logs :: "CapstoneHarness \<Rightarrow> LogLine list" where
  "captured_logs c = logs c"

text \<open>The two worlds' generated \<open>api-error\<close> types are structurally the same; the re-pack.\<close>

definition capstone_map_err :: "ApiError \<Rightarrow> ApiError" where
  "capstone_map_err e = \<lparr>code = code e, message = message e\<rparr>"

definition capstone_denied :: "rstr \<Rightarrow> ApiError" where
  "capstone_denied what =
     \<lparr>code = lit ''permission-denied'', message = what @ lit '': capability not granted''\<rparr>"

definition not_found :: "rstr \<Rightarrow> ApiError" where
  "not_found what =
     \<lparr>code = lit ''not-found'',
      message = lit ''workspace: '' @ what @ lit '' not provided by the capstone harness''\<rparr>"

section \<open>The workspace host\<close>

definition read_portfolio_names :: "CapstoneHarness \<Rightarrow> (PortfolioName list, ApiError) result" where
  "read_portfolio_names c =
     (if \<not> cap_granted c then Err (capstone_denied (lit ''workspace'')) else Ok canned_portfolios)"

text \<open>The reads the harness does not provide; their success types never arise.\<close>

definition read_sheet_structure :: "CapstoneHarness \<Rightarrow> rstr \<Rightarrow> ('s, ApiError) result" where
  "read_sheet_structure c portfolio_id = Err (not_found (lit ''read-sheet-structure''))"

definition read_asset_count :: "CapstoneHarness \<Rightarrow> rstr \<Rightarrow> ('s, ApiError) result" where
  "read_asset_count c portfolio_id = Err (not_found (lit ''read-asset-count''))"

definition read_currency_rates :: "CapstoneHarness \<Rightarrow> ('s, ApiError) result" where
  "read_currency_rates c = Err (not_found (lit ''read-currency-rates''))"

definition read_aggregated_values :: "CapstoneHarness \<Rightarrow> rstr \<Rightarrow> ('s, ApiError) result" where
  "read_aggregated_values c portfolio_id = Err (not_found (lit ''read-aggregated-values''))"

definition write_external_file :: "CapstoneHarness \<Rightarrow> rstr \<Rightarrow> bytes \<Rightarrow> (unit, ApiError) result" where
  "write_external_file c filename content = Err (not_found (lit ''write-external-file''))"

section \<open>Delegation\<close>

definition cap_get :: "CapstoneHarness \<Rightarrow> rstr \<Rightarrow> (bytes option, ApiError) result" where
  "cap_get c key = map_err capstone_map_err (kv_get (store c) key)"

definition cap_set ::
  "CapstoneHarness \<Rightarrow> rstr \<Rightarrow> bytes \<Rightarrow> (unit, ApiError) result \<times> CapstoneHarness" where
  "cap_set c key value =
     (case kv_set (store c) key value of (r, s) \<Rightarrow> (map_err capstone_map_err r, c\<lparr>store := s\<rparr>))"

definition cap_delete ::
  "CapstoneHarness \<Rightarrow> rstr \<Rightarrow> (unit, ApiError) result \<times> CapstoneHarness" where
  "cap_delete c key =
     (case kv_delete (store c) key of (r, s) \<Rightarrow> (map_err capstone_map_err r, c\<lparr>store := s\<rparr>))"

definition cap_clear :: "CapstoneHarness \<Rightarrow> (unit, ApiError) result \<times> CapstoneHarness" where
  "cap_clear c =
     (case kv_clear (store c) of (r, s) \<Rightarrow> (map_err capstone_map_err r, c\<lparr>store := s\<rparr>))"

definition cap_list_keys :: "CapstoneHarness \<Rightarrow> (rstr list, ApiError) result" where
  "cap_list_keys c = map_err capstone_map_err (kv_list_keys (store c))"

definition cap_emit ::
  "CapstoneHarness \<Rightarrow> PluginEvent \<Rightarrow> (unit, ApiError) result \<times> CapstoneHarness" where
  "cap_emit c event =
     (case capture_event (store c) (kind event) (payload event) of
        (r, s) \<Rightarrow> (map_err capstone_map_err r, c\<lparr>store := s\<rparr>))"

definition log_write :: "CapstoneHarness \<Rightarrow> Level \<Rightarrow> rstr \<Rightarrow> CapstoneHarness" where
  "log_write c l m = c\<lparr>logs := logs c @ [\<lparr>level = l, log_message = m\<rparr>]\<rparr>"

section \<open>The composition is a gated store\<close>

lemma capstone_map_err_id [simp]: "capstone_map_err e = e"
  by (simp add: capstone_map_err_def)

lemma map_err_repack [simp]: "map_err capstone_map_err r = r"
  by (cases r) simp_all

lemma update_store_id: "c\<lparr>store := s\<rparr> = c \<longleftrightarrow> s = store c"
  by (cases c) auto

definition cap_inv :: "CapstoneHarness \<Rightarrow> bool" where
  "cap_inv c \<longleftrightarrow> within_quota (store c) \<and> cap_granted c = granted (store c)"

lemma cap_views:
  "capstone_stored_value c = stored_value (store c)"
  "capstone_captured_events c = event_pairs (store c)"
  by (simp_all add: capstone_stored_value_def capstone_captured_events_def event_pairs_def
      captured_events_def fun_eq_iff)

interpretation cap: gated_store cap_granted capstone_stored_value capstone_captured_events cap_inv
  cap_get cap_set cap_delete cap_clear "\<lambda>c k p. cap_emit c \<lparr>kind = k, payload = p\<rparr>" denied
proof unfold_locales
  fix c c' :: CapstoneHarness and k :: rstr and v :: bytes and r :: "(unit, ApiError) result"
  show "cap_inv c \<Longrightarrow> cap_get c k = (if cap_granted c then Ok (capstone_stored_value c k) else Err denied)"
    by (simp add: cap_get_def cap_inv_def se.get_law capstone_stored_value_def)
  show "cap_set c k v = (Err denied, c) \<and> cap_delete c k = (Err denied, c) \<and> cap_clear c = (Err denied, c)"
    if "cap_inv c" "\<not> cap_granted c"
    using that se.closed [of "store c" k v]
    by (simp add: cap_inv_def cap_set_def cap_delete_def cap_clear_def)
  show "cap_granted c' \<and> cap_inv c' \<and> capstone_captured_events c' = capstone_captured_events c \<and>
      (case r of Inl e \<Rightarrow> e \<noteq> denied \<and> c' = c
       | Inr _ \<Rightarrow> capstone_stored_value c' = (capstone_stored_value c)(k \<mapsto> v))"
    if pre: "cap_granted c" "cap_inv c" "cap_set c k v = (r, c')"
  proof -
    obtain s where s: "kv_set (store c) k v = (r, s)" "c' = c\<lparr>store := s\<rparr>"
      using pre by (auto simp: cap_set_def split: prod.splits)
    with se.set_law [OF _ _ s(1)] pre show ?thesis
      by (auto simp: cap_inv_def cap_views split: sum.splits)
  qed
  show "cap_granted c' \<and> cap_inv c' \<and> capstone_captured_events c' = capstone_captured_events c \<and>
      r = Ok () \<and> capstone_stored_value c' = (capstone_stored_value c)(k := None)"
    if pre: "cap_granted c" "cap_inv c" "cap_delete c k = (r, c')"
  proof -
    obtain s where s: "kv_delete (store c) k = (r, s)" "c' = c\<lparr>store := s\<rparr>"
      using pre by (auto simp: cap_delete_def split: prod.splits)
    with se.delete_law [OF _ _ s(1)] pre show ?thesis by (auto simp: cap_inv_def cap_views)
  qed
  show "cap_granted c' \<and> cap_inv c' \<and> capstone_captured_events c' = capstone_captured_events c \<and>
      r = Ok () \<and> capstone_stored_value c' = Map.empty"
    if pre: "cap_granted c" "cap_inv c" "cap_clear c = (r, c')"
  proof -
    obtain s where s: "kv_clear (store c) = (r, s)" "c' = c\<lparr>store := s\<rparr>"
      using pre by (auto simp: cap_clear_def split: prod.splits)
    with se.clear_law [OF _ _ s(1)] pre show ?thesis by (auto simp: cap_inv_def cap_views)
  qed
  show "cap_granted c' = cap_granted c \<and> cap_inv c' \<and> capstone_stored_value c' = capstone_stored_value c \<and>
      (case r of Inl e \<Rightarrow> c' = c
       | Inr _ \<Rightarrow> capstone_captured_events c' = capstone_captured_events c @ [(k, v)])"
    if pre: "cap_inv c" "cap_emit c \<lparr>kind = k, payload = v\<rparr> = (r, c')"
  proof -
    obtain s where s: "capture_event (store c) k v = (r, s)" "c' = c\<lparr>store := s\<rparr>"
      using pre by (auto simp: cap_emit_def split: prod.splits)
    with se.emit_law [OF _ s(1)] pre show ?thesis
      by (auto simp: cap_inv_def cap_views split: sum.splits)
  qed
qed

section \<open>Guest call sequences\<close>

text \<open>All the state-changing calls of the four imports.\<close>

datatype cap_call = HostCall host_call | LogCall Level rstr

fun capstone_step :: "cap_call \<Rightarrow> CapstoneHarness \<Rightarrow> CapstoneHarness" where
  "capstone_step (HostCall (CallSet k v)) c = snd (cap_set c k v)"
| "capstone_step (HostCall (CallDelete k)) c = snd (cap_delete c k)"
| "capstone_step (HostCall CallClear) c = snd (cap_clear c)"
| "capstone_step (HostCall (CallEmit k v)) c = snd (cap_emit c \<lparr>kind = k, payload = v\<rparr>)"
| "capstone_step (LogCall l m) c = log_write c l m"

fun capstone_run :: "cap_call list \<Rightarrow> CapstoneHarness \<Rightarrow> CapstoneHarness" where
  "capstone_run [] c = c"
| "capstone_run (x # xs) c = capstone_run xs (capstone_step x c)"

fun host_calls :: "cap_call list \<Rightarrow> host_call list" where
  "host_calls [] = []"
| "host_calls (HostCall x # xs) = x # host_calls xs"
| "host_calls (LogCall l m # xs) = host_calls xs"

fun log_lines :: "cap_call list \<Rightarrow> LogLine list" where
  "log_lines [] = []"
| "log_lines (HostCall x # xs) = log_lines xs"
| "log_lines (LogCall l m # xs) = \<lparr>level = l, log_message = m\<rparr> # log_lines xs"

lemma capstone_step_host:
  "capstone_step (HostCall x) c = c\<lparr>store := snd (storage_call x (store c))\<rparr>"
  by (cases x) (auto simp: cap_set_def cap_delete_def cap_clear_def cap_emit_def split: prod.splits)

lemma capstone_run_eq:
  "capstone_run xs c =
     c\<lparr>store := storage_run (host_calls xs) (store c), logs := captured_logs c @ log_lines xs\<rparr>"
proof (induction xs arbitrary: c)
  case Nil
  then show ?case by (simp add: captured_logs_def)
next
  case (Cons x xs)
  then show ?case
    by (cases x) (simp_all add: capstone_step_host log_write_def captured_logs_def)
qed

lemma capstone_closed_run:
  "capstone_stored_value (capstone_run xs (capstone_new False)) = Map.empty"
  "granted (store (capstone_run xs (capstone_new False))) = False"
proof -
  let ?h = "storage_run (host_calls xs) (storage_events_new False)"
  have "stored_value ?h = stored_value (storage_events_new False)"
    using se.closed_run_view [OF within_quota_new, of False "host_calls xs"]
    by (simp add: storage_run_eq storage_events_new_def)
  then show "capstone_stored_value (capstone_run xs (capstone_new False)) = Map.empty"
    by (simp add: capstone_run_eq capstone_new_def cap_views)
      (simp add: storage_events_new_def stored_value_def hm.lookup_new fun_eq_iff)
  show "granted (store (capstone_run xs (capstone_new False))) = False"
    using se.run_keeps [OF within_quota_new, of "host_calls xs" False]
    by (simp add: capstone_run_eq capstone_new_def storage_run_eq storage_events_new_def)
qed

section \<open>Properties\<close>

text \<open>
  The composition refines its parts: after any guest call sequence the harness is the storage
  and event host run on the storage and event calls alone, next to the log lines in the order
  they were written, with its gate as it was set at construction.
\<close>

theorem capstone_run_refines:
  "capstone_run xs c =
     c\<lparr>store := storage_run (host_calls xs) (store c), logs := captured_logs c @ log_lines xs\<rparr>"
  by (rule capstone_run_eq)

text \<open>
  C26. One gate for the whole world: without the grant, no call sequence changes what is stored,
  every storage and workspace read is refused with \<open>permission-denied\<close>, and events and log
  lines are still taken.
\<close>

theorem capstone_gate_closed:
  "let c = capstone_run xs (capstone_new False) in
     capstone_stored_value c = Map.empty \<and> cap_get c k = Err denied \<and>
     cap_list_keys c = Err denied \<and>
     read_portfolio_names c = Err (capstone_denied (lit ''workspace'')) \<and>
     captured_logs c = log_lines xs"
  using capstone_closed_run [of xs]
  by (simp add: capstone_run_eq capstone_new_def cap_get_def kv_get_def cap_list_keys_def
      kv_list_keys_def read_portfolio_names_def captured_logs_def)

end
