(* ===== verification/Resource_Table.thy ===== *)
theory Resource_Table
  imports Hash_Map
begin

text \<open>
  \<open>Table<T>\<close> of \<open>src/wasi_http.rs\<close>: the map from resource ids to backing data with its
  monotonic 32-bit allocator.  The locale states what the host's methods rely on; ids are
  counted by \<open>issued\<close>, so that an id that was dropped is never handed out again while the
  allocator has room (the counter is a \<open>u32\<close> that wraps after \<open>2^32 - 1\<close> insertions).
\<close>

section \<open>The table\<close>

record 'a Table =
  items :: "(u32, 'a) hash_map"
  next_rep :: u32

definition table_default :: "'a Table" where
  "table_default = \<lparr>items = hm_new, next_rep = 1\<rparr>"

definition table_insert :: "'a \<Rightarrow> 'a Table \<Rightarrow> u32 \<times> 'a Table" where
  "table_insert value t =
     (let rep = next_rep t
      in (rep, t\<lparr>next_rep := next_rep t + 1, items := hm_insert rep value (items t)\<rparr>))"

definition table_get :: "'a Table \<Rightarrow> u32 \<Rightarrow> 'a option" where
  "table_get t rep = hm_get (items t) rep"

text \<open>
  \<open>get_mut\<close> lends a reference; what its callers do through it is a function on the entry.
\<close>

definition table_modify :: "u32 \<Rightarrow> ('a \<Rightarrow> 'a) \<Rightarrow> 'a Table \<Rightarrow> 'a Table" where
  "table_modify rep f t =
     (case hm_get (items t) rep of
        None \<Rightarrow> t
      | Some v \<Rightarrow> t\<lparr>items := hm_insert rep (f v) (items t)\<rparr>)"

definition table_remove :: "u32 \<Rightarrow> 'a Table \<Rightarrow> 'a option \<times> 'a Table" where
  "table_remove rep t = (hm_get (items t) rep, t\<lparr>items := hm_remove rep (items t)\<rparr>)"

section \<open>The interface\<close>

locale resource_table =
  fixes default :: 't
    and insert :: "'a \<Rightarrow> 't \<Rightarrow> u32 \<times> 't"
    and lookup :: "'t \<Rightarrow> u32 \<Rightarrow> 'a option"
    and modify :: "u32 \<Rightarrow> ('a \<Rightarrow> 'a) \<Rightarrow> 't \<Rightarrow> 't"
    and remove :: "u32 \<Rightarrow> 't \<Rightarrow> 'a option \<times> 't"
    and inv :: "'t \<Rightarrow> bool"
    and room :: "'t \<Rightarrow> nat"
    and issued :: "'t \<Rightarrow> u32 set"
  assumes default_law: "inv default \<and> lookup default = Map.empty \<and> issued default = {0}"
    and insert_law: "inv t \<Longrightarrow> 0 < room t \<Longrightarrow> insert v t = (r, t') \<Longrightarrow>
      inv t' \<and> r \<notin> issued t \<and> issued t' = Set.insert r (issued t) \<and>
      lookup t' = (lookup t)(r \<mapsto> v) \<and> room t = Suc (room t')"
    and modify_law: "inv t \<Longrightarrow>
      inv (modify r f t) \<and> issued (modify r f t) = issued t \<and> room (modify r f t) = room t \<and>
      lookup (modify r f t) = (lookup t)(r := map_option f (lookup t r))"
    and remove_law: "inv t \<Longrightarrow>
      fst (remove r t) = lookup t r \<and> inv (snd (remove r t)) \<and>
      issued (snd (remove r t)) = issued t \<and> room (snd (remove r t)) = room t \<and>
      lookup (snd (remove r t)) = (lookup t)(r := None)"
    and live_issued: "inv t \<Longrightarrow> lookup t r \<noteq> None \<Longrightarrow> r \<in> issued t"
begin

lemma zero_unused: "inv t \<Longrightarrow> 0 \<in> issued t \<Longrightarrow> 0 < room t \<Longrightarrow> fst (insert v t) \<noteq> 0"
  using insert_law [of t v "fst (insert v t)" "snd (insert v t)"] by auto

lemma insert_keeps:
  "inv t \<Longrightarrow> 0 < room t \<Longrightarrow> insert v t = (r, t') \<Longrightarrow> lookup t s = Some x \<Longrightarrow> lookup t' s = Some x"
  using insert_law [of t v r t'] live_issued [of t s] by auto

lemma insert_lookup:
  "inv t \<Longrightarrow> 0 < room t \<Longrightarrow> insert v t = (r, t') \<Longrightarrow> lookup t' r = Some v"
  using insert_law [of t v r t'] by simp

end

text \<open>A sequence of table operations, as host methods make them.\<close>

datatype 'a table_op = TInsert 'a | TModify u32 "'a \<Rightarrow> 'a" | TRemove u32

fun inserts :: "'a table_op list \<Rightarrow> nat" where
  "inserts [] = 0"
| "inserts (TInsert v # xs) = Suc (inserts xs)"
| "inserts (x # xs) = inserts xs"

context resource_table
begin

fun apply_op :: "'a table_op \<Rightarrow> 't \<Rightarrow> 't" where
  "apply_op (TInsert v) t = snd (insert v t)"
| "apply_op (TModify r f) t = modify r f t"
| "apply_op (TRemove r) t = snd (remove r t)"

fun apply_ops :: "'a table_op list \<Rightarrow> 't \<Rightarrow> 't" where
  "apply_ops [] t = t"
| "apply_ops (x # xs) t = apply_ops xs (apply_op x t)"

lemma apply_op_dead:
  assumes "inv t" and "r \<in> issued t" and "lookup t r = None" and "inserts [x] \<le> room t"
  shows "inv (apply_op x t) \<and> r \<in> issued (apply_op x t) \<and> lookup (apply_op x t) r = None \<and>
    room t = inserts [x] + room (apply_op x t)"
proof (cases x)
  case (TInsert v)
  obtain s t' where ins: "insert v t = (s, t')" by (cases "insert v t")
  from TInsert assms(4) have "0 < room t" by simp
  from insert_law [OF assms(1) this ins] assms TInsert ins show ?thesis by auto
next
  case (TModify s f)
  with modify_law [OF assms(1), of s f] assms show ?thesis by auto
next
  case (TRemove s)
  with remove_law [OF assms(1), of s] assms show ?thesis by auto
qed

text \<open>An id that was issued and is no longer live stays dead.\<close>

lemma dropped_stays_dead:
  assumes "inv t" and "r \<in> issued t" and "lookup t r = None" and "inserts xs \<le> room t"
  shows "lookup (apply_ops xs t) r = None"
  using assms
proof (induction xs arbitrary: t)
  case Nil
  then show ?case by simp
next
  case (Cons x xs)
  have split: "inserts (x # xs) = inserts [x] + inserts xs" by (cases x) simp_all
  with Cons.prems have "inserts [x] \<le> room t" by simp
  note dead = apply_op_dead [OF Cons.prems(1,2,3) this]
  with split Cons.prems(4) have "inserts xs \<le> room (apply_op x t)" by linarith
  with dead Cons.IH [of "apply_op x t"] show ?case by simp
qed

end

section \<open>The model satisfies the interface\<close>

definition table_inv :: "'a Table \<Rightarrow> bool" where
  "table_inv t \<longleftrightarrow> hm_wf (items t) \<and> 0 < next_rep t \<and> (\<forall>k \<in> fst ` set (items t). k < next_rep t)"

definition table_room :: "'a Table \<Rightarrow> nat" where
  "table_room t = 2 ^ 32 - 1 - unat (next_rep t)"

definition table_issued :: "'a Table \<Rightarrow> u32 set" where
  "table_issued t = {r. r < next_rep t}"

lemma next_rep_step:
  fixes n :: u32
  assumes "0 < 2 ^ 32 - 1 - unat n"
  shows "n < n + 1" and "unat (n + 1) = Suc (unat n)"
    and "r < n + 1 \<longleftrightarrow> r < n \<or> r = n"
proof -
  have "unat n + 1 < 2 ^ 32" using assms by simp
  then have u: "unat (n + 1) = Suc (unat n)" by (simp add: unat_word_ariths)
  then show "unat (n + 1) = Suc (unat n)" .
  show "n < n + 1" using u by (simp add: word_less_nat_alt)
  show "r < n + 1 \<longleftrightarrow> r < n \<or> r = n" using u by (auto simp: word_less_nat_alt word_unat_eq_iff)
qed

lemma hm_get_key: "hm_get m k = Some v \<Longrightarrow> k \<in> fst ` set m"
  by (force simp: hm_get_def dest: map_of_SomeD)

lemma keys_insert: "fst ` set (hm_insert k v m) = Set.insert k (fst ` set m)"
  by (simp add: hm_insert_def dom_update)

lemma keys_remove: "fst ` set (hm_remove k m) = fst ` set m - {k}"
  by (force simp: hm_remove_def)

interpretation tab: resource_table table_default table_insert table_get table_modify table_remove
  table_inv table_room table_issued
proof unfold_locales
  show "table_inv (table_default :: 'a Table) \<and> table_get (table_default :: 'a Table) = Map.empty \<and>
      table_issued (table_default :: 'a Table) = {0}"
    by (auto simp: table_inv_def table_default_def hm_wf_def hm_new_def table_get_def hm_get_def
        table_issued_def fun_eq_iff word_less_1)
next
  fix t t' :: "'a Table" and v r
  assume inv: "table_inv t" and room: "0 < table_room t" and ins: "table_insert v t = (r, t')"
  let ?n = "next_rep t"
  note step = next_rep_step [OF room [unfolded table_room_def]]
  have r: "r = ?n" and t': "t' = t\<lparr>next_rep := ?n + 1, items := hm_insert ?n v (items t)\<rparr>"
    using ins by (auto simp: table_insert_def Let_def)
  have wf: "hm_wf (items t)" using inv by (simp add: table_inv_def)
  have inv': "table_inv t'"
    using inv step(1) by (auto simp: t' table_inv_def hm.wf_insert keys_insert step(3))
  moreover have "table_get t' = (table_get t)(r \<mapsto> v)"
    by (rule ext) (simp add: table_get_def t' r hm.lookup_insert [OF wf])
  moreover have "table_issued t' = Set.insert r (table_issued t)"
    by (auto simp: table_issued_def t' r step(3))
  moreover have "table_room t = Suc (table_room t')"
    using room step(2) by (simp add: table_room_def t')
  ultimately show "table_inv t' \<and> r \<notin> table_issued t \<and> table_issued t' = Set.insert r (table_issued t) \<and>
      table_get t' = (table_get t)(r \<mapsto> v) \<and> table_room t = Suc (table_room t')"
    by (simp add: table_issued_def r)
next
  fix t :: "'a Table" and r f
  assume inv: "table_inv t"
  then have wf: "hm_wf (items t)" by (simp add: table_inv_def)
  show "table_inv (table_modify r f t) \<and> table_issued (table_modify r f t) = table_issued t \<and>
      table_room (table_modify r f t) = table_room t \<and>
      table_get (table_modify r f t) = (table_get t)(r := map_option f (table_get t r))"
  proof (cases "hm_get (items t) r")
    case None
    with inv show ?thesis by (auto simp: table_modify_def table_get_def fun_eq_iff)
  next
    case (Some v)
    then have "r \<in> fst ` set (items t)" by (rule hm_get_key)
    then have keys: "fst ` set (hm_insert r (f v) (items t)) = fst ` set (items t)"
      by (auto simp: keys_insert)
    with inv Some show ?thesis
      by (auto simp: table_modify_def table_get_def fun_eq_iff table_inv_def hm.wf_insert [OF wf]
          keys table_issued_def table_room_def hm.lookup_insert [OF wf])
  qed
next
  fix t :: "'a Table" and r
  assume inv: "table_inv t"
  then have wf: "hm_wf (items t)" by (simp add: table_inv_def)
  have "table_get (snd (table_remove r t)) = (table_get t)(r := None)"
    by (rule ext) (simp add: table_remove_def table_get_def hm.lookup_remove [OF wf])
  with inv show "fst (table_remove r t) = table_get t r \<and> table_inv (snd (table_remove r t)) \<and>
      table_issued (snd (table_remove r t)) = table_issued t \<and>
      table_room (snd (table_remove r t)) = table_room t \<and>
      table_get (snd (table_remove r t)) = (table_get t)(r := None)"
    by (auto simp: table_remove_def table_get_def table_inv_def hm.wf_remove keys_remove
        table_issued_def table_room_def)
next
  fix t :: "'a Table" and r
  assume "table_inv t" "table_get t r \<noteq> None"
  then show "r \<in> table_issued t"
    by (auto simp: table_inv_def table_get_def table_issued_def dest: hm_get_key)
qed

section \<open>Properties\<close>

fun table_step :: "'a table_op \<Rightarrow> 'a Table \<Rightarrow> 'a Table" where
  "table_step (TInsert v) t = snd (table_insert v t)"
| "table_step (TModify r f) t = table_modify r f t"
| "table_step (TRemove r) t = snd (table_remove r t)"

fun table_run :: "'a table_op list \<Rightarrow> 'a Table \<Rightarrow> 'a Table" where
  "table_run [] t = t"
| "table_run (x # xs) t = table_run xs (table_step x t)"

lemma table_run_eq: "table_run xs t = tab.apply_ops xs t"
proof (induction xs arbitrary: t)
  case (Cons x xs)
  then show ?case by (cases x) simp_all
qed simp

text \<open>
  C38. No use after drop through a recycled id: once an entry has been removed, its id stays dead
  through any further inserts, updates and removals, up to the point where the 32-bit allocator
  would wrap; and a fresh id is never the reserved 0.
\<close>

theorem table_no_reuse:
  assumes "table_inv t" and "table_get t r \<noteq> None" and "inserts xs \<le> table_room t"
  shows "table_get (table_run xs (snd (table_remove r t))) r = None \<and>
    (0 < table_room t \<longrightarrow> fst (table_insert v t) \<noteq> 0)"
proof -
  note rem = tab.remove_law [OF assms(1), of r]
  have "r \<in> table_issued t" using tab.live_issued [OF assms(1,2)] .
  with rem assms(3) have "table_get (table_run xs (snd (table_remove r t))) r = None"
    using tab.dropped_stays_dead [of "snd (table_remove r t)" r xs] by (simp add: table_run_eq)
  moreover have "0 \<in> table_issued t" using assms(1) by (simp add: table_inv_def table_issued_def)
  ultimately show ?thesis using tab.zero_unused [OF assms(1), of v] by blast
qed

theorem table_no_reuse_witness:
  "table_get (table_run [TInsert 5, TModify 1 Suc]
     (snd (table_remove 1 (snd (table_insert (3::nat) table_default))))) 1 = None"
proof -
  let ?t = "snd (table_insert (3::nat) table_default)"
  have t: "?t = \<lparr>items = [(1, 3)], next_rep = 2\<rparr>"
    by (simp add: table_insert_def table_default_def hm_new_def hm_insert_def)
  have "table_inv ?t" "table_get ?t 1 \<noteq> None" "inserts [TInsert 5, TModify 1 Suc] \<le> table_room ?t"
    unfolding t by (simp_all add: table_inv_def hm_wf_def table_get_def hm_get_def table_room_def)
  from table_no_reuse [OF this] show ?thesis by blast
qed

end
