(* ===== verification/P3_Session.thy ===== *)
theory P3_Session
  imports Limits
begin

text \<open>
  The atomic P3 bridge of \<open>src/lib.rs\<close>: a worker thread runs the guest, the caller thread
  drives it with \<open>poll\<close> / \<open>resolve\<close> and frees it with \<open>drop\<close>.  The two threads share the event
  channel and one oneshot channel per host call; both are explicit here, so that the steps of the
  two threads can interleave freely.
\<close>

section \<open>The guest and the worker\<close>

text \<open>
  What the worker's drive future does, seen from the bridge: it returns, dies by a panic, or
  makes a host call and goes on with the response (\<open>None\<close> when the responder was dropped).
  The run is metered (\<open>Store::set_fuel\<close>), so no sequence of responses keeps it calling for ever;
  what it calls, and how often, may depend on every response so far.
\<close>

datatype guest =
    Return "(bytes, rstr) result"
  | Panic
  | Call bytes "bytes option \<Rightarrow> guest"

text \<open>
  A component run under \<open>p3_drive\<close>: the component itself is outside the crate, its run is any
  such tree.  A cancelled responder makes the host import fail, which traps the run; \<open>trapped\<close>
  is the engine's error for a failed host import.
\<close>

datatype component_run =
    Finish bytes
  | Trap wasm_error
  | Import bytes "bytes \<Rightarrow> component_run"

primrec p3_drive :: "(rstr \<Rightarrow> wasm_error) \<Rightarrow> component_run \<Rightarrow> guest" where
  "p3_drive trapped (Finish out) = Return (Ok out)"
| "p3_drive trapped (Trap e) = Return (Err (annotate e))"
| "p3_drive trapped (Import req k) =
     Call req (\<lambda>resp. case resp of
       Some r \<Rightarrow> p3_drive trapped (k r)
     | None \<Rightarrow> Return (Err (annotate (trapped (lit ''p3: resolve channel cancelled'')))))"

section \<open>Channels and the session\<close>

definition HWR_P3_PENDING :: i32 where "HWR_P3_PENDING = 1"
definition HWR_P3_DONE :: i32 where "HWR_P3_DONE = 2"
definition HWR_P3_ERROR :: i32 where "HWR_P3_ERROR = 3"

lemmas p3_status = HWR_P3_PENDING_def HWR_P3_DONE_def HWR_P3_ERROR_def

text \<open>A responder is named by the number of its oneshot channel.\<close>

datatype P3Event =
    HostCall bytes nat
  | Done "(bytes, rstr) result"

datatype oneshot = Open | Sent bytes | Cancelled

text \<open>\<open>rx\<close> holds the buffered events while the receiver is alive.\<close>

record HwrP3Session =
  rx :: "P3Event list option"
  thread_joined :: bool
  pending_request :: bytes
  pending_respond :: "nat option"
  p3_result :: bytes
  finished :: bool

datatype worker_state =
    Running guest
  | Waiting nat "bytes option \<Rightarrow> guest"
  | Exited

record p3_world =
  session :: HwrP3Session
  worker :: worker_state
  oneshots :: "nat \<Rightarrow> oneshot"
  next_shot :: nat

definition p3_run_session :: "guest \<Rightarrow> p3_world" where
  "p3_run_session g =
     \<lparr>session = \<lparr>rx = Some [], thread_joined = False, pending_request = [], pending_respond = None,
                 p3_result = [], finished = False\<rparr>,
      worker = Running g, oneshots = (\<lambda>_. Open), next_shot = 0\<rparr>"

text \<open>Dropping the sender of an unused oneshot cancels it; sending into it fills it.\<close>

definition cancel :: "nat \<Rightarrow> p3_world \<Rightarrow> p3_world" where
  "cancel i w =
     w\<lparr>oneshots := (oneshots w)(i := (case oneshots w i of Open \<Rightarrow> Cancelled | s \<Rightarrow> s))\<rparr>"

definition respond :: "nat \<Rightarrow> bytes \<Rightarrow> p3_world \<Rightarrow> p3_world" where
  "respond i resp w =
     w\<lparr>oneshots := (oneshots w)(i := (case oneshots w i of Open \<Rightarrow> Sent resp | s \<Rightarrow> s))\<rparr>"

fun drop_event :: "P3Event \<Rightarrow> p3_world \<Rightarrow> p3_world" where
  "drop_event (HostCall req i) w = cancel i w"
| "drop_event (Done r) w = w"

text \<open>\<open>let _ = tx.send(ev)\<close>: queued while the receiver lives, dropped otherwise.\<close>

definition send :: "P3Event \<Rightarrow> p3_world \<Rightarrow> p3_world" where
  "send ev w =
     (case rx (session w) of
        Some q \<Rightarrow> w\<lparr>session := (session w)\<lparr>rx := Some (q @ [ev])\<rparr>\<rparr>
      | None \<Rightarrow> drop_event ev w)"

section \<open>Worker steps\<close>

definition worker_step :: "p3_world \<Rightarrow> p3_world option" where
  "worker_step w =
     (case worker w of
        Running (Return r) \<Rightarrow> Some ((send (Done r) w)\<lparr>worker := Exited\<rparr>)
      | Running Panic \<Rightarrow> Some (w\<lparr>worker := Exited\<rparr>)
      | Running (Call req k) \<Rightarrow>
          (let i = next_shot w
           in Some ((send (HostCall req i) (w\<lparr>next_shot := Suc i\<rparr>))\<lparr>worker := Waiting i k\<rparr>))
      | Waiting i k \<Rightarrow>
          (case oneshots w i of
             Open \<Rightarrow> None
           | Sent resp \<Rightarrow> Some (w\<lparr>worker := Running (k (Some resp))\<rparr>)
           | Cancelled \<Rightarrow> Some (w\<lparr>worker := Running (k None)\<rparr>))
      | Exited \<Rightarrow> None)"

section \<open>Caller operations\<close>

text \<open>
  \<open>poll\<close> blocks (\<open>None\<close>) on an empty queue while the worker, which holds the senders, lives.
  Storing a new responder drops one that was still pending.
\<close>

definition p3_poll :: "p3_world \<Rightarrow> (i32 \<times> p3_world) option" where
  "p3_poll w =
     (let s = session w in
      if finished s then Some (HWR_P3_DONE, w)
      else case rx s of
        Some (HostCall req i # q) \<Rightarrow>
          (let w = (case pending_respond s of Some j \<Rightarrow> cancel j w | None \<Rightarrow> w)
           in Some (HWR_P3_PENDING,
                w\<lparr>session := s\<lparr>rx := Some q, pending_request := req, pending_respond := Some i\<rparr>\<rparr>))
      | Some (Done (Inr out) # q) \<Rightarrow>
          Some (HWR_P3_DONE, w\<lparr>session := s\<lparr>rx := Some q, p3_result := out, finished := True\<rparr>\<rparr>)
      | Some (Done (Inl msg) # q) \<Rightarrow>
          Some (HWR_P3_ERROR,
            w\<lparr>session := s\<lparr>rx := Some q, p3_result := as_bytes msg, finished := True\<rparr>\<rparr>)
      | Some [] \<Rightarrow>
          (if worker w = Exited
           then Some (HWR_P3_ERROR, w\<lparr>session := s\<lparr>finished := True\<rparr>\<rparr>)
           else None)
      | None \<Rightarrow> Some (HWR_P3_ERROR, w\<lparr>session := s\<lparr>finished := True\<rparr>\<rparr>))"

definition p3_request :: "p3_world \<Rightarrow> bytes" where
  "p3_request w = pending_request (session w)"

definition p3_resolve :: "bytes \<Rightarrow> p3_world \<Rightarrow> p3_world" where
  "p3_resolve resp w =
     (let w' = (case pending_respond (session w) of
                  Some i \<Rightarrow> (respond i resp w)\<lparr>session := (session w)\<lparr>pending_respond := None\<rparr>\<rparr>
                | None \<Rightarrow> w)
      in w'\<lparr>session := (session w')\<lparr>pending_request := []\<rparr>\<rparr>)"

definition p3_session_result :: "p3_world \<Rightarrow> bytes" where
  "p3_session_result w = p3_result (session w)"

text \<open>
  \<open>Drop\<close> up to the join: the pending responder is dropped, then the receiver with every event
  still buffered in it.
\<close>

definition p3_drop :: "p3_world \<Rightarrow> p3_world" where
  "p3_drop w =
     (let w = (case pending_respond (session w) of
                 Some i \<Rightarrow> (cancel i w)\<lparr>session := (session w)\<lparr>pending_respond := None\<rparr>\<rparr>
               | None \<Rightarrow> w);
          w = (case rx (session w) of Some q \<Rightarrow> fold drop_event q w | None \<Rightarrow> w)
      in w\<lparr>session := (session w)\<lparr>rx := None\<rparr>\<rparr>)"

text \<open>\<open>t.join()\<close> returns once the worker has exited.\<close>

definition p3_join :: "p3_world \<Rightarrow> p3_world option" where
  "p3_join w =
     (if worker w = Exited then Some (w\<lparr>session := (session w)\<lparr>thread_joined := True\<rparr>\<rparr>) else None)"

section \<open>Interleavings\<close>

text \<open>
  The caller keeps a state of its own (the app's data) and services each pending request with \<open>svc\<close>
  before it polls again; otherwise the two threads step in any order.
\<close>

type_synonym 's servicer = "'s \<Rightarrow> bytes \<Rightarrow> bytes \<times> 's"

inductive p3_step :: "'s servicer \<Rightarrow> 's \<times> p3_world \<Rightarrow> 's \<times> p3_world \<Rightarrow> bool" for svc where
  worker: "worker_step w = Some w' \<Longrightarrow> p3_step svc (st, w) (st, w')"
| poll: "pending_respond (session w) = None \<Longrightarrow> p3_poll w = Some (status, w') \<Longrightarrow>
    p3_step svc (st, w) (st, w')"
| resolve: "pending_respond (session w) = Some i \<Longrightarrow> svc st (p3_request w) = (resp, st') \<Longrightarrow>
    p3_step svc (st, w) (st', p3_resolve resp w)"

inductive_simps p3_step_simps: "p3_step svc (st, w) sw'"

text \<open>What the run means, with no threads and no channels.\<close>

datatype run_result = Completed "(bytes, rstr) result" | Died

primrec interp :: "'s servicer \<Rightarrow> guest \<Rightarrow> 's \<Rightarrow> run_result \<times> 's" where
  "interp svc (Return r) st = (Completed r, st)"
| "interp svc Panic st = (Died, st)"
| "interp svc (Call req k) st =
     (case svc st req of (resp, st') \<Rightarrow> interp svc (k (Some resp)) st')"

primrec host_calls_made :: "'s servicer \<Rightarrow> guest \<Rightarrow> 's \<Rightarrow> nat" where
  "host_calls_made svc (Return r) st = 0"
| "host_calls_made svc Panic st = 0"
| "host_calls_made svc (Call req k) st =
     (case svc st req of (resp, st') \<Rightarrow> Suc (host_calls_made svc (k (Some resp)) st'))"

fun reported :: "run_result \<Rightarrow> bytes \<Rightarrow> bool" where
  "reported (Completed (Inr out)) res \<longleftrightarrow> res = out"
| "reported (Completed (Inl msg)) res \<longleftrightarrow> res = as_bytes msg"
| "reported Died res \<longleftrightarrow> res = []"

section \<open>The phases of a run\<close>

text \<open>
  Every state a serviced session reaches is in one of these phases, with the result the run will
  have, the state it will leave the caller in, and the number of steps left to it.
\<close>

definition unfinished :: "P3Event list \<Rightarrow> nat option \<Rightarrow> p3_world \<Rightarrow> bool" where
  "unfinished q p w \<longleftrightarrow>
     rx (session w) = Some q \<and> pending_respond (session w) = p \<and> \<not> finished (session w) \<and>
     p3_result (session w) = [] \<and> (\<forall>j \<ge> next_shot w. oneshots w j = Open)"

inductive p3_phase :: "'s servicer \<Rightarrow> run_result \<times> 's \<Rightarrow> 's \<times> p3_world \<Rightarrow> nat \<Rightarrow> bool" for svc R where
  running: "unfinished [] None w \<Longrightarrow> worker w = Running g \<Longrightarrow> interp svc g st = R \<Longrightarrow>
    p3_phase svc R (st, w) (4 * host_calls_made svc g st + 2)"
| queued: "unfinished [HostCall req i] None w \<Longrightarrow> worker w = Waiting i k \<Longrightarrow> oneshots w i = Open \<Longrightarrow>
    i < next_shot w \<Longrightarrow> interp svc (Call req k) st = R \<Longrightarrow>
    p3_phase svc R (st, w) (4 * host_calls_made svc (Call req k) st + 1)"
| pending: "unfinished [] (Some i) w \<Longrightarrow> worker w = Waiting i k \<Longrightarrow> oneshots w i = Open \<Longrightarrow>
    i < next_shot w \<Longrightarrow> interp svc (Call (p3_request w) k) st = R \<Longrightarrow>
    p3_phase svc R (st, w) (4 * host_calls_made svc (Call (p3_request w) k) st)"
| answered: "unfinished [] None w \<Longrightarrow> worker w = Waiting i k \<Longrightarrow> oneshots w i = Sent b \<Longrightarrow>
    interp svc (k (Some b)) st = R \<Longrightarrow>
    p3_phase svc R (st, w) (4 * host_calls_made svc (k (Some b)) st + 3)"
| done_queued: "unfinished [Done r] None w \<Longrightarrow> worker w = Exited \<Longrightarrow> R = (Completed r, st) \<Longrightarrow>
    p3_phase svc R (st, w) 1"
| died: "unfinished [] None w \<Longrightarrow> worker w = Exited \<Longrightarrow> R = (Died, st) \<Longrightarrow> p3_phase svc R (st, w) 1"
| over: "finished (session w) \<Longrightarrow> worker w = Exited \<Longrightarrow> pending_respond (session w) = None \<Longrightarrow>
    reported (fst R) (p3_result (session w)) \<Longrightarrow> st = snd R \<Longrightarrow> p3_phase svc R (st, w) 0"

lemmas p3_ops = worker_step_def p3_poll_def p3_resolve_def p3_request_def send_def cancel_def
  respond_def unfinished_def Let_def

lemma p3_phase_start:
  "p3_phase svc (interp svc g st) (st, p3_run_session g) (4 * host_calls_made svc g st + 2)"
  by (rule p3_phase.running) (simp_all add: unfinished_def p3_run_session_def)

text \<open>Every step of either thread moves to the next phase; a finished session only repeats itself.\<close>

lemma running_step:
  assumes "unfinished [] None w" "worker w = Running g" "interp svc g st = R" "p3_step svc (st, w) sw"
  shows "p3_phase svc R sw (4 * host_calls_made svc g st + 1)"
proof (cases g)
  case (Return r)
  then have "sw = (st, w\<lparr>session := (session w)\<lparr>rx := Some [Done r]\<rparr>, worker := Exited\<rparr>)"
    using assms by (auto simp: p3_step_simps p3_ops)
  then have "p3_phase svc R sw 1"
    using assms Return by (simp only:, intro p3_phase.done_queued) (auto simp: unfinished_def)
  then show ?thesis using Return by simp
next
  case Panic
  then have "sw = (st, w\<lparr>worker := Exited\<rparr>)"
    using assms by (auto simp: p3_step_simps p3_ops)
  then have "p3_phase svc R sw 1"
    using assms Panic by (simp only:, intro p3_phase.died) (auto simp: unfinished_def)
  then show ?thesis using Panic by simp
next
  case (Call req k)
  let ?i = "next_shot w"
  have "sw = (st, w\<lparr>session := (session w)\<lparr>rx := Some [HostCall req ?i]\<rparr>, next_shot := Suc ?i,
      worker := Waiting ?i k\<rparr>)"
    using assms Call by (auto simp: p3_step_simps p3_ops)
  then show ?thesis
    unfolding Call using assms Call
    by (simp only:, intro p3_phase.queued [of _ ?i]) (auto simp: unfinished_def)
qed

lemma queued_step:
  assumes "unfinished [HostCall req i] None w" "worker w = Waiting i k" "oneshots w i = Open"
    "i < next_shot w" "interp svc (Call req k) st = R" "p3_step svc (st, w) sw"
  shows "p3_phase svc R sw (4 * host_calls_made svc (Call req k) st)"
proof -
  let ?w = "w\<lparr>session := (session w)\<lparr>rx := Some [], pending_request := req, pending_respond := Some i\<rparr>\<rparr>"
  have sw: "sw = (st, ?w)"
    using assms by (auto simp: p3_step_simps p3_ops)
  have "p3_request ?w = req" by (simp add: p3_request_def)
  moreover have "p3_phase svc R (st, ?w) (4 * host_calls_made svc (Call (p3_request ?w) k) st)"
    using assms by (intro p3_phase.pending [of i]) (auto simp: unfinished_def p3_request_def)
  ultimately show ?thesis using sw by simp
qed

lemma pending_step:
  assumes "unfinished [] (Some i) w" "worker w = Waiting i k" "oneshots w i = Open"
    "i < next_shot w" "interp svc (Call (p3_request w) k) st = R" "p3_step svc (st, w) sw"
    "svc st (p3_request w) = (resp, st')"
  shows "p3_phase svc R sw (4 * host_calls_made svc (k (Some resp)) st' + 3)"
proof -
  have "sw = (st', w\<lparr>oneshots := (oneshots w)(i := Sent resp),
      session := (session w)\<lparr>pending_respond := None, pending_request := []\<rparr>\<rparr>)"
    using assms by (auto simp: p3_step_simps p3_ops)
  then show ?thesis
    using assms by (simp only:, intro p3_phase.answered [of _ i]) (auto simp: unfinished_def)
qed

lemma answered_step:
  assumes "unfinished [] None w" "worker w = Waiting i k" "oneshots w i = Sent b"
    "interp svc (k (Some b)) st = R" "p3_step svc (st, w) sw"
  shows "p3_phase svc R sw (4 * host_calls_made svc (k (Some b)) st + 2)"
proof -
  have "sw = (st, w\<lparr>worker := Running (k (Some b))\<rparr>)"
    using assms by (auto simp: p3_step_simps p3_ops)
  then show ?thesis using assms by (simp only:, intro p3_phase.running) (auto simp: unfinished_def)
qed

lemma exited_step:
  assumes "unfinished q None w" "worker w = Exited"
    "q = [Done r] \<and> R = (Completed r, st) \<or> q = [] \<and> R = (Died, st)" "p3_step svc (st, w) sw"
  shows "p3_phase svc R sw 0"
proof -
  obtain w' where sw: "sw = (st, w')" and "finished (session w') \<and> worker w' = Exited \<and>
      pending_respond (session w') = None \<and> reported (fst R) (p3_result (session w'))"
    using assms by (cases r) (auto simp: p3_step_simps p3_ops)
  then show ?thesis using assms(3) by (auto intro!: p3_phase.over)
qed

lemma p3_phase_step:
  assumes "p3_phase svc R sw n" and "p3_step svc sw sw'"
  shows "(\<exists>m. n = Suc m \<and> p3_phase svc R sw' m) \<or> n = 0 \<and> sw' = sw"
  using assms(1)
proof cases
  case (running w g st)
  with running_step [OF running(3,4,5)] assms(2) show ?thesis by auto
next
  case (queued req i w k st)
  with queued_step [OF queued(3-7)] assms(2) show ?thesis by auto
next
  case (pending i w k st)
  with pending_step [OF pending(3-7)] assms(2) show ?thesis
    by (cases "svc st (p3_request w)") (auto simp: add.commute)
next
  case (answered w i b k st)
  with answered_step [OF answered(3-6)] assms(2) show ?thesis by auto
next
  case (done_queued r w st)
  with exited_step [of "[Done r]" w r R st svc sw'] assms(2) show ?thesis by auto
next
  case (died w st)
  with exited_step [of "[]" w _ R st svc sw'] assms(2) show ?thesis by auto
next
  case over
  then show ?thesis using assms(2) by (auto simp: p3_step_simps p3_ops)
qed

lemma p3_phase_progress: "p3_phase svc R sw n \<Longrightarrow> \<exists>sw'. p3_step svc sw sw'"
proof (induction rule: p3_phase.induct)
  case (running w g st)
  then show ?case by (cases g) (auto simp: p3_step_simps p3_ops)
next
  case (pending i w k st)
  then show ?case by (cases "svc st (p3_request w)") (auto simp: p3_step_simps p3_ops)
next
  case (done_queued r w st)
  then show ?case by (cases r) (auto simp: p3_step_simps p3_ops)
qed (auto simp: p3_step_simps p3_ops)

lemma p3_phase_finished: "p3_phase svc R (st, w) n \<Longrightarrow> finished (session w) \<longleftrightarrow> n = 0"
  by (cases rule: p3_phase.cases) (auto simp: unfinished_def split: prod.splits)

lemma p3_phase_reachable:
  assumes "(p3_step svc ^^ n) (st, p3_run_session g) sw"
  shows "p3_phase svc (interp svc g st) sw (4 * host_calls_made svc g st + 2 - n)"
  using assms
proof (induction n arbitrary: sw)
  case 0
  then show ?case using p3_phase_start [of svc g st] by auto
next
  case (Suc n)
  then obtain v where v: "(p3_step svc ^^ n) (st, p3_run_session g) v" and step: "p3_step svc v sw"
    by auto
  let ?b = "4 * host_calls_made svc g st + 2"
  from p3_phase_step [OF Suc.IH [OF v] step] consider m where "?b - n = Suc m"
    "p3_phase svc (interp svc g st) sw m" | "?b - n = 0" "sw = v" by metis
  then show ?case
  proof cases
    case 1
    then have "m = ?b - Suc n" by linarith
    with 1 show ?thesis by simp
  next
    case 2
    with Suc.IH [OF v] show ?thesis by simp
  qed
qed

section \<open>Dropping a session\<close>

text \<open>Whatever the caller does: it may poll or resolve at any time, with any response.\<close>

inductive p3_any_step :: "p3_world \<Rightarrow> p3_world \<Rightarrow> bool" where
  any_worker: "worker_step w = Some w' \<Longrightarrow> p3_any_step w w'"
| any_poll: "p3_poll w = Some (status, w') \<Longrightarrow> p3_any_step w w'"
| any_resolve: "p3_any_step w (p3_resolve resp w)"

text \<open>An unanswered host call always has its responder: buffered in the channel, or held pending.\<close>

definition responder_held :: "p3_world \<Rightarrow> bool" where
  "responder_held w \<longleftrightarrow>
     (case worker w of
        Waiting i k \<Rightarrow>
          oneshots w i \<noteq> Open \<or> pending_respond (session w) = Some i \<or>
          (\<exists>q req. rx (session w) = Some q \<and> HostCall req i \<in> set q)
      | _ \<Rightarrow> True)"

lemma responder_held_worker:
  assumes "responder_held w" and "worker_step w = Some w'"
  shows "responder_held w'"
proof (cases "worker w")
  case (Running g)
  show ?thesis
  proof (cases g)
    case (Call req k)
    with Running assms(2) show ?thesis
      by (cases "rx (session w)") (auto simp: responder_held_def p3_ops split: oneshot.splits)
  qed (use Running assms(2) in \<open>auto simp: responder_held_def worker_step_def\<close>)
next
  case (Waiting i k)
  with assms(2) show ?thesis
    by (auto simp: responder_held_def worker_step_def split: oneshot.splits)
qed (use assms(2) in \<open>simp add: worker_step_def\<close>)

lemma responder_held_resolve: "responder_held w \<Longrightarrow> responder_held (p3_resolve resp w)"
  by (cases "pending_respond (session w)")
    (auto simp: responder_held_def p3_resolve_def respond_def Let_def split: worker_state.splits oneshot.splits)

lemma responder_held_poll:
  assumes "responder_held w" and poll: "p3_poll w = Some (status, w')"
  shows "responder_held w'"
proof (cases "finished (session w)")
  case True
  with assms show ?thesis by (simp add: p3_poll_def)
next
  case False
  show ?thesis
  proof (cases "rx (session w)")
    case None
    with False assms show ?thesis
      by (auto simp: responder_held_def p3_poll_def Let_def split: worker_state.splits)
  next
    case (Some q)
    show ?thesis
    proof (cases q)
      case Nil
      with Some False assms show ?thesis
        by (auto simp: responder_held_def p3_poll_def Let_def split: worker_state.splits if_splits)
    next
      case (Cons ev q')
      show ?thesis
      proof (cases ev)
        case (HostCall req j)
        with Some Cons False assms show ?thesis
          by (cases "pending_respond (session w)")
            (auto simp: responder_held_def p3_poll_def cancel_def Let_def
              split: worker_state.splits oneshot.splits if_splits)
      next
        case (Done r)
        with Some Cons False assms show ?thesis
          by (cases r) (auto simp: responder_held_def p3_poll_def Let_def split: worker_state.splits)
      qed
    qed
  qed
qed

lemma responder_held_reachable: "p3_any_step\<^sup>*\<^sup>* (p3_run_session g) w \<Longrightarrow> responder_held w"
proof (induction rule: rtranclp_induct)
  case base
  then show ?case by (simp add: responder_held_def p3_run_session_def)
next
  case (step v w)
  from step(2,3) show ?case
    by (cases rule: p3_any_step.cases)
      (auto intro: responder_held_worker responder_held_poll responder_held_resolve)
qed

lemma cancel_not_open: "oneshots (cancel i w) i \<noteq> Open"
  by (auto simp: cancel_def split: oneshot.splits)

lemma cancel_keeps:
  "worker (cancel i w) = worker w" "session (cancel i w) = session w"
  "oneshots w j \<noteq> Open \<Longrightarrow> oneshots (cancel i w) j \<noteq> Open"
  by (auto simp: cancel_def split: oneshot.splits)

lemma drop_events_keep:
  "worker (fold drop_event q w) = worker w \<and> session (fold drop_event q w) = session w \<and>
   (oneshots w j \<noteq> Open \<longrightarrow> oneshots (fold drop_event q w) j \<noteq> Open)"
proof (induction q arbitrary: w)
  case (Cons ev q)
  then show ?case by (cases ev) (simp_all add: cancel_keeps)
qed simp

lemma drop_events_cancel:
  "HostCall req i \<in> set q \<Longrightarrow> oneshots (fold drop_event q w) i \<noteq> Open"
proof (induction q arbitrary: w)
  case (Cons ev q)
  show ?case
  proof (cases "ev = HostCall req i")
    case True
    then show ?thesis using drop_events_keep [of q "cancel i w" i] cancel_not_open [of i w] by simp
  next
    case False
    with Cons show ?thesis by simp
  qed
qed simp

lemma p3_drop_worker: "worker (p3_drop w) = worker w"
  by (simp add: p3_drop_def Let_def drop_events_keep cancel_keeps split: option.splits)

lemma p3_drop_rx: "rx (session (p3_drop w)) = None"
  by (simp add: p3_drop_def Let_def)

lemma p3_drop_cancels:
  assumes "responder_held w" and "worker w = Waiting i k"
  shows "oneshots (p3_drop w) i \<noteq> Open"
proof -
  let ?w = "case pending_respond (session w) of
      Some i \<Rightarrow> (cancel i w)\<lparr>session := (session w)\<lparr>pending_respond := None\<rparr>\<rparr> | None \<Rightarrow> w"
  let ?v = "case rx (session ?w) of Some q \<Rightarrow> fold drop_event q ?w | None \<Rightarrow> ?w"
  have drop: "oneshots (p3_drop w) = oneshots ?v" by (simp add: p3_drop_def Let_def)
  have rx: "rx (session ?w) = rx (session w)" by (simp split: option.split)
  have keep: "oneshots ?w i \<noteq> Open \<Longrightarrow> oneshots ?v i \<noteq> Open"
    using drop_events_keep [of _ ?w i] by (auto split: option.splits)
  from assms consider "oneshots w i \<noteq> Open" | "pending_respond (session w) = Some i"
    | q req where "rx (session w) = Some q" "HostCall req i \<in> set q"
    by (auto simp: responder_held_def)
  then have "oneshots ?v i \<noteq> Open"
  proof cases
    case 1
    then show ?thesis using keep cancel_keeps(3) [of w i] by (auto split: option.splits)
  next
    case 2
    then show ?thesis using keep cancel_not_open [of i w] by simp
  next
    case 3
    then show ?thesis using drop_events_cancel [OF 3(2)] rx by (simp split: option.splits)
  qed
  then show ?thesis by (simp add: drop)
qed

abbreviation worker_moves :: "p3_world \<Rightarrow> p3_world \<Rightarrow> bool" where
  "worker_moves w w' \<equiv> worker_step w = Some w'"

lemma waiting_moves:
  assumes "worker w = Waiting i k" "oneshots w i \<noteq> Open"
  obtains resp where "worker_moves w (w\<lparr>worker := Running (k resp)\<rparr>)"
  using assms by (cases "oneshots w i") (auto simp: worker_step_def)

lemma orphan_runs_out:
  "rx (session w) = None \<Longrightarrow> worker w = Running g \<Longrightarrow>
     \<exists>w'. worker_moves\<^sup>*\<^sup>* w w' \<and> worker w' = Exited"
proof (induction g arbitrary: w)
  case (Return r)
  then have "worker_moves w (w\<lparr>worker := Exited\<rparr>)" by (simp add: worker_step_def send_def)
  then show ?case by (intro exI conjI, rule r_into_rtranclp) simp_all
next
  case Panic
  then have "worker_moves w (w\<lparr>worker := Exited\<rparr>)" by (simp add: worker_step_def)
  then show ?case by (intro exI conjI, rule r_into_rtranclp) simp_all
next
  case (Call req k)
  let ?i = "next_shot w"
  let ?v = "(cancel ?i (w\<lparr>next_shot := Suc ?i\<rparr>))\<lparr>worker := Waiting ?i k\<rparr>"
  have first: "worker_moves w ?v" using Call.prems by (simp add: worker_step_def send_def Let_def)
  have "oneshots ?v ?i \<noteq> Open" using cancel_not_open [of ?i "w\<lparr>next_shot := Suc ?i\<rparr>"] by simp
  then obtain resp where second: "worker_moves ?v (?v\<lparr>worker := Running (k resp)\<rparr>)"
    using waiting_moves [of ?v ?i k] by auto
  have "rx (session (?v\<lparr>worker := Running (k resp)\<rparr>)) = None"
    using Call.prems by (simp add: cancel_keeps)
  from Call.IH [OF rangeI this] obtain w' where
    "worker_moves\<^sup>*\<^sup>* (?v\<lparr>worker := Running (k resp)\<rparr>) w'" "worker w' = Exited" by auto
  then show ?case
    using first second by (meson converse_rtranclp_into_rtranclp)
qed

lemma p3_run_refines:
  assumes "(p3_step svc ^^ n) (st, p3_run_session g) (st', w)"
  shows "(finished (session w) \<longleftrightarrow> 4 * host_calls_made svc g st + 2 \<le> n) \<and>
    (\<exists>sw. p3_step svc (st', w) sw) \<and>
    (finished (session w) \<longrightarrow>
       reported (fst (interp svc g st)) (p3_session_result w) \<and> st' = snd (interp svc g st))"
proof -
  note phase = p3_phase_reachable [OF assms]
  have "finished (session w) \<longleftrightarrow> 4 * host_calls_made svc g st + 2 \<le> n"
    using p3_phase_finished [OF phase] by simp
  moreover have "reported (fst (interp svc g st)) (p3_session_result w) \<and> st' = snd (interp svc g st)"
    if "finished (session w)"
    using phase that by cases (auto simp: unfinished_def p3_session_result_def)
  ultimately show ?thesis using p3_phase_progress [OF phase] by blast
qed

lemma p3_step_exists: "\<exists>st' w. (p3_step svc ^^ n) (st, p3_run_session g) (st', w)"
proof (induction n)
  case (Suc n)
  then obtain st' w where w: "(p3_step svc ^^ n) (st, p3_run_session g) (st', w)" by blast
  with p3_run_refines [OF w] obtain sw where "p3_step svc (st', w) sw" by blast
  with w show ?case by (cases sw) auto
qed auto

lemma p3_runs_to_end:
  "\<exists>n st' w. (p3_step svc ^^ n) (st, p3_run_session g) (st', w) \<and> finished (session w)"
proof -
  obtain st' w where w: "(p3_step svc ^^ (4 * host_calls_made svc g st + 2)) (st, p3_run_session g) (st', w)"
    using p3_step_exists [of "4 * host_calls_made svc g st + 2" svc st g] by blast
  with p3_run_refines [OF w] show ?thesis by blast
qed

section \<open>Properties\<close>

text \<open>
  C1. The bridge adds nothing to the run, whatever the schedule: if the caller answers every
  pending request with \<open>svc\<close>, keeping a state of its own, then after any \<open>n\<close> steps of the two
  threads, in any order, the session is finished exactly when \<open>n\<close> has reached four steps per host
  call plus two, it is never stuck, and once it is finished its result bytes and the caller's state
  are those of the guest interpreted directly against \<open>svc\<close> (the output, the error message, or
  nothing if the worker died).
\<close>

theorem p3_session_refines:
  assumes "(p3_step svc ^^ n) (st, p3_run_session g) (st', w)"
  shows "(finished (session w) \<longleftrightarrow> 4 * host_calls_made svc g st + 2 \<le> n) \<and>
    (\<exists>sw. p3_step svc (st', w) sw) \<and>
    (finished (session w) \<longrightarrow>
       reported (fst (interp svc g st)) (p3_session_result w) \<and> st' = snd (interp svc g st))"
  using assms by (rule p3_run_refines)

theorem p3_session_refines_witness:
  "\<exists>w. (p3_step (\<lambda>n r. (r @ [9], Suc n)) ^^ 6) (0, p3_run_session (Call [1] (\<lambda>b. Return (Ok (the b)))))
       (1 :: nat, w) \<and> p3_session_result w = [1, 9]"
proof -
  let ?f = "\<lambda>(n :: nat) (r :: bytes). (r @ [9], Suc n)" and ?g = "Call [1] (\<lambda>b. Return (Ok (the b)))"
  obtain st' w where w: "(p3_step ?f ^^ 6) (0, p3_run_session ?g) (st', w)"
    using p3_step_exists [of 6 ?f 0 ?g] by blast
  from p3_session_refines [OF w] have "st' = 1" "p3_session_result w = [1, 9]" by simp_all
  with w show ?thesis by auto
qed

text \<open>
  C7. Freeing a session never hangs: in every state the two threads can reach, however the caller
  has polled and resolved, including with a host call that was never polled, dropping the session
  lets the worker run to its exit, so the join returns.
\<close>

theorem p3_drop_joins:
  assumes "p3_any_step\<^sup>*\<^sup>* (p3_run_session g) w"
  shows "\<exists>w' w''. worker_moves\<^sup>*\<^sup>* (p3_drop w) w' \<and> p3_join w' = Some w'' \<and> thread_joined (session w'')"
proof -
  have "\<exists>w'. worker_moves\<^sup>*\<^sup>* (p3_drop w) w' \<and> worker w' = Exited"
  proof (cases "worker w")
    case (Running g')
    then show ?thesis using orphan_runs_out [of "p3_drop w" g'] by (simp add: p3_drop_rx p3_drop_worker)
  next
    case (Waiting i k)
    then have "worker (p3_drop w) = Waiting i k" by (simp add: p3_drop_worker)
    moreover have "oneshots (p3_drop w) i \<noteq> Open"
      using p3_drop_cancels [OF responder_held_reachable [OF assms] Waiting] .
    ultimately obtain resp where
      move: "worker_moves (p3_drop w) ((p3_drop w)\<lparr>worker := Running (k resp)\<rparr>)"
      by (rule waiting_moves)
    with orphan_runs_out [of "(p3_drop w)\<lparr>worker := Running (k resp)\<rparr>" "k resp"] show ?thesis
      by (auto simp: p3_drop_rx intro: converse_rtranclp_into_rtranclp)
  next
    case Exited
    then show ?thesis by (intro exI [of _ "p3_drop w"]) (simp add: p3_drop_worker)
  qed
  then show ?thesis by (auto simp: p3_join_def)
qed

theorem p3_drop_joins_witness:
  "\<exists>w w' w''. worker_step (p3_run_session (Call [1] (\<lambda>b. Return (Ok [])))) = Some w \<and>
     worker_moves\<^sup>*\<^sup>* (p3_drop w) w' \<and> p3_join w' = Some w'' \<and> thread_joined (session w'')"
proof -
  let ?g = "Call [1] (\<lambda>b. Return (Ok []))"
  obtain w where w: "worker_step (p3_run_session ?g) = Some w"
    by (simp add: worker_step_def p3_run_session_def Let_def)
  then have "p3_any_step\<^sup>*\<^sup>* (p3_run_session ?g) w" by (intro r_into_rtranclp any_worker)
  from p3_drop_joins [OF this] w show ?thesis by blast
qed

text \<open>
  Polling a session that has already failed reports success: the first poll of a failed run
  gives \<open>ERROR\<close>, and every later one \<open>DONE\<close>, with the error message still in the result bytes.
\<close>

theorem p3_poll_after_error:
  assumes "\<not> finished (session w)" and "rx (session w) = Some (Done (Err msg) # q)"
  shows "\<exists>w'. p3_poll w = Some (HWR_P3_ERROR, w') \<and> p3_session_result w' = as_bytes msg \<and>
    p3_poll w' = Some (HWR_P3_DONE, w')"
  using assms by (simp add: p3_poll_def Let_def p3_session_result_def)

theorem p3_poll_after_error_witness:
  "\<exists>w w'. worker_step (p3_run_session (Return (Err (lit ''x'')))) = Some w \<and>
     p3_poll w = Some (HWR_P3_ERROR, w') \<and> p3_poll w' = Some (HWR_P3_DONE, w')"
proof -
  let ?w = "the (worker_step (p3_run_session (Return (Err (lit ''x'')))))"
  have w: "worker_step (p3_run_session (Return (Err (lit ''x'')))) = Some ?w"
    "\<not> finished (session ?w)" "rx (session ?w) = Some (Done (Err (lit ''x'')) # [])"
    by (simp_all add: worker_step_def p3_run_session_def send_def)
  from p3_poll_after_error [OF w(2,3)] w(1) show ?thesis by blast
qed

end
