(* ===== verification/Wasi_Http_Types.thy ===== *)
theory Wasi_Http_Types
  imports Resource_Table Limits
begin

text \<open>
  The resource surface of \<open>src/wasi_http.rs\<close>: \<open>fields\<close>, \<open>request\<close>, \<open>response\<close> and
  \<open>request-options\<close> over one resource table each.  A handle is its \<open>rep\<close>.  Body streams and
  trailers futures belong to the engine: they are opaque values of type \<open>'s\<close> and \<open>'t\<close>, and the
  engine calls that mint them are the record \<open>minter\<close>, an argument of the methods that use it.
\<close>

section \<open>Backing data\<close>

datatype ErrorCode =
    InternalError "rstr option"
  | HttpRequestMethodInvalid
  | HttpRequestUriInvalid
  | OtherErrorCode rstr

datatype HeaderError = HdrInvalidSyntax | HdrForbidden | HdrImmutable

datatype RequestOptionsError = OptNotSupported | OptImmutable

type_synonym field_list = "(rstr \<times> bytes) list"

record FieldsData =
  entries :: field_list
  immutable :: bool

definition fields_default :: FieldsData where
  "fields_default = \<lparr>entries = [], immutable = False\<rparr>"

definition fd_matches :: "rstr \<Rightarrow> rstr \<Rightarrow> bool" where
  "fd_matches name candidate = eq_ignore_ascii_case name candidate"

definition fd_get :: "FieldsData \<Rightarrow> rstr \<Rightarrow> bytes list" where
  "fd_get f name = map snd (filter (\<lambda>e. fd_matches name (fst e)) (entries f))"

definition fd_has :: "FieldsData \<Rightarrow> rstr \<Rightarrow> bool" where
  "fd_has f name = list_ex (\<lambda>e. fd_matches name (fst e)) (entries f)"

definition fd_set :: "rstr \<Rightarrow> bytes list \<Rightarrow> FieldsData \<Rightarrow> FieldsData" where
  "fd_set name values f =
     f\<lparr>entries := filter (\<lambda>e. \<not> fd_matches name (fst e)) (entries f) @ map (\<lambda>v. (name, v)) values\<rparr>"

definition fd_delete :: "rstr \<Rightarrow> FieldsData \<Rightarrow> FieldsData" where
  "fd_delete name f = f\<lparr>entries := filter (\<lambda>e. \<not> fd_matches name (fst e)) (entries f)\<rparr>"

definition fd_get_and_delete :: "rstr \<Rightarrow> FieldsData \<Rightarrow> bytes list \<times> FieldsData" where
  "fd_get_and_delete name f = (fd_get f name, fd_delete name f)"

definition fd_append :: "rstr \<Rightarrow> bytes \<Rightarrow> FieldsData \<Rightarrow> FieldsData" where
  "fd_append name value f = f\<lparr>entries := entries f @ [(name, value)]\<rparr>"

text \<open>The generated \<open>method\<close> and \<open>scheme\<close>, and their stored mirrors.\<close>

datatype Method =
  MGet | MHead | MPost | MPut | MDelete | MConnect | MOptions | MTrace | MPatch | MOther rstr

datatype MethodOwned =
  OGet | OHead | OPost | OPut | ODelete | OConnect | OOptions | OTrace | OPatch | OOther rstr

fun method_owned :: "Method \<Rightarrow> MethodOwned" where
  "method_owned MGet = OGet"
| "method_owned MHead = OHead"
| "method_owned MPost = OPost"
| "method_owned MPut = OPut"
| "method_owned MDelete = ODelete"
| "method_owned MConnect = OConnect"
| "method_owned MOptions = OOptions"
| "method_owned MTrace = OTrace"
| "method_owned MPatch = OPatch"
| "method_owned (MOther s) = OOther s"

fun method_of :: "MethodOwned \<Rightarrow> Method" where
  "method_of OGet = MGet"
| "method_of OHead = MHead"
| "method_of OPost = MPost"
| "method_of OPut = MPut"
| "method_of ODelete = MDelete"
| "method_of OConnect = MConnect"
| "method_of OOptions = MOptions"
| "method_of OTrace = MTrace"
| "method_of OPatch = MPatch"
| "method_of (OOther s) = MOther s"

datatype Scheme = SHttp | SHttps | SOther rstr

datatype SchemeOwned = OHttp | OHttps | OSchemeOther rstr

fun scheme_owned :: "Scheme \<Rightarrow> SchemeOwned" where
  "scheme_owned SHttp = OHttp"
| "scheme_owned SHttps = OHttps"
| "scheme_owned (SOther s) = OSchemeOther s"

fun scheme_of :: "SchemeOwned \<Rightarrow> Scheme" where
  "scheme_of OHttp = SHttp"
| "scheme_of OHttps = SHttps"
| "scheme_of (OSchemeOther s) = SOther s"

record ('s, 't) RequestData =
  rq_method :: MethodOwned
  rq_path_with_query :: "rstr option"
  rq_scheme :: "SchemeOwned option"
  rq_authority :: "rstr option"
  rq_headers :: u32
  rq_options :: "u32 option"
  rq_body :: "'s option"
  rq_trailers :: "'t option"

definition request_data_default :: "('s, 't) RequestData" where
  "request_data_default =
     \<lparr>rq_method = OGet, rq_path_with_query = None, rq_scheme = None, rq_authority = None,
      rq_headers = 0, rq_options = None, rq_body = None, rq_trailers = None\<rparr>"

record ('s, 't) ResponseData =
  rs_status_code :: u16
  rs_headers :: u32
  rs_body :: "'s option"
  rs_trailers :: "'t option"

text \<open>A \<open>duration\<close> is a \<open>u64\<close> of nanoseconds.\<close>

record RequestOptionsData =
  connect_timeout :: "u64 option"
  first_byte_timeout :: "u64 option"
  between_bytes_timeout :: "u64 option"
  opt_immutable :: bool

definition options_default :: RequestOptionsData where
  "options_default =
     \<lparr>connect_timeout = None, first_byte_timeout = None, between_bytes_timeout = None,
      opt_immutable = False\<rparr>"

section \<open>Host state\<close>

text \<open>
  The P3 transport: the OUT events sent so far, and the frames the inbound receiver will deliver
  (\<open>None\<close> once it has been taken).
\<close>

datatype out_event = OutChunk bytes | OutEnd

record HttpTransport =
  tr_out :: "out_event list"
  tr_inbound :: "bytes list option"

record ('s, 't) WasiHttpHost =
  fields_tab :: "FieldsData Table"
  requests :: "('s, 't) RequestData Table"
  responses :: "('s, 't) ResponseData Table"
  options :: "RequestOptionsData Table"
  transport :: "HttpTransport option"
  host_limits :: StoreLimits

definition http_host_new :: "('s, 't) WasiHttpHost" where
  "http_host_new =
     \<lparr>fields_tab = table_default, requests = table_default, responses = table_default,
      options = table_default, transport = None, host_limits = store_limits\<rparr>"

definition http_host_with_transport ::
  "out_event list \<Rightarrow> bytes list \<Rightarrow> ('s, 't) WasiHttpHost" where
  "http_host_with_transport out inbound =
     http_host_new\<lparr>transport := Some \<lparr>tr_out = out, tr_inbound = Some inbound\<rparr>\<rparr>"

text \<open>
  The engine calls: a stream over a byte vector, a future that is ready with a trailers value, and
  the transmission future.  Each may fail, which the \<open>expect\<close>s turn into a panic.
\<close>

record ('s, 't, 'x) minter =
  mint_stream :: "bytes \<Rightarrow> ('s, rstr) result"
  mint_trailers :: "(u32 option, ErrorCode) result \<Rightarrow> ('t, rstr) result"
  mint_transmit :: "(unit, ErrorCode) result \<Rightarrow> ('x, rstr) result"

fun expect :: "('a, rstr) result \<Rightarrow> 'a outcome" where
  "expect (Inl e) = Panicked"
| "expect (Inr x) = Returned x"

section \<open>fields\<close>

definition fields_new :: "('s, 't) WasiHttpHost \<Rightarrow> u32 \<times> ('s, 't) WasiHttpHost" where
  "fields_new h = (case table_insert fields_default (fields_tab h) of (rep, t) \<Rightarrow> (rep, h\<lparr>fields_tab := t\<rparr>))"

definition fields_from_list ::
  "field_list \<Rightarrow> ('s, 't) WasiHttpHost \<Rightarrow> (u32, HeaderError) result \<times> ('s, 't) WasiHttpHost" where
  "fields_from_list es h =
     (case table_insert \<lparr>entries = es, immutable = False\<rparr> (fields_tab h) of
        (rep, t) \<Rightarrow> (Ok rep, h\<lparr>fields_tab := t\<rparr>))"

definition fields_get :: "('s, 't) WasiHttpHost \<Rightarrow> u32 \<Rightarrow> rstr \<Rightarrow> bytes list" where
  "fields_get h self name =
     (case table_get (fields_tab h) self of Some f \<Rightarrow> fd_get f name | None \<Rightarrow> [])"

definition fields_has :: "('s, 't) WasiHttpHost \<Rightarrow> u32 \<Rightarrow> rstr \<Rightarrow> bool" where
  "fields_has h self name =
     (case table_get (fields_tab h) self of Some f \<Rightarrow> fd_has f name | None \<Rightarrow> False)"

definition fields_set ::
  "u32 \<Rightarrow> rstr \<Rightarrow> bytes list \<Rightarrow> ('s, 't) WasiHttpHost \<Rightarrow> (unit, HeaderError) result \<times> ('s, 't) WasiHttpHost" where
  "fields_set self name value h =
     (case table_get (fields_tab h) self of
        None \<Rightarrow> (Err HdrImmutable, h)
      | Some f \<Rightarrow>
          if immutable f then (Err HdrImmutable, h)
          else (Ok (), h\<lparr>fields_tab := table_modify self (fd_set name value) (fields_tab h)\<rparr>))"

definition fields_delete ::
  "u32 \<Rightarrow> rstr \<Rightarrow> ('s, 't) WasiHttpHost \<Rightarrow> (unit, HeaderError) result \<times> ('s, 't) WasiHttpHost" where
  "fields_delete self name h =
     (case table_get (fields_tab h) self of
        None \<Rightarrow> (Err HdrImmutable, h)
      | Some f \<Rightarrow>
          if immutable f then (Err HdrImmutable, h)
          else (Ok (), h\<lparr>fields_tab := table_modify self (fd_delete name) (fields_tab h)\<rparr>))"

definition fields_get_and_delete ::
  "u32 \<Rightarrow> rstr \<Rightarrow> ('s, 't) WasiHttpHost \<Rightarrow> (bytes list, HeaderError) result \<times> ('s, 't) WasiHttpHost" where
  "fields_get_and_delete self name h =
     (case table_get (fields_tab h) self of
        None \<Rightarrow> (Err HdrImmutable, h)
      | Some f \<Rightarrow>
          if immutable f then (Err HdrImmutable, h)
          else (Ok (fst (fd_get_and_delete name f)),
                h\<lparr>fields_tab := table_modify self (\<lambda>f. snd (fd_get_and_delete name f)) (fields_tab h)\<rparr>))"

definition fields_append ::
  "u32 \<Rightarrow> rstr \<Rightarrow> bytes \<Rightarrow> ('s, 't) WasiHttpHost \<Rightarrow> (unit, HeaderError) result \<times> ('s, 't) WasiHttpHost" where
  "fields_append self name value h =
     (case table_get (fields_tab h) self of
        None \<Rightarrow> (Err HdrImmutable, h)
      | Some f \<Rightarrow>
          if immutable f then (Err HdrImmutable, h)
          else (Ok (), h\<lparr>fields_tab := table_modify self (fd_append name value) (fields_tab h)\<rparr>))"

definition fields_copy_all :: "('s, 't) WasiHttpHost \<Rightarrow> u32 \<Rightarrow> field_list" where
  "fields_copy_all h self =
     (case table_get (fields_tab h) self of Some f \<Rightarrow> entries f | None \<Rightarrow> [])"

definition fields_clone :: "u32 \<Rightarrow> ('s, 't) WasiHttpHost \<Rightarrow> u32 \<times> ('s, 't) WasiHttpHost" where
  "fields_clone self h =
     (let es = (case table_get (fields_tab h) self of Some f \<Rightarrow> entries f | None \<Rightarrow> [])
      in case table_insert \<lparr>entries = es, immutable = False\<rparr> (fields_tab h) of
           (rep, t) \<Rightarrow> (rep, h\<lparr>fields_tab := t\<rparr>))"

definition fields_drop :: "u32 \<Rightarrow> ('s, 't) WasiHttpHost \<Rightarrow> ('s, 't) WasiHttpHost" where
  "fields_drop rep h = h\<lparr>fields_tab := snd (table_remove rep (fields_tab h))\<rparr>"

section \<open>request\<close>

definition request_get_method :: "('s, 't) WasiHttpHost \<Rightarrow> u32 \<Rightarrow> Method" where
  "request_get_method h self =
     (case table_get (requests h) self of Some r \<Rightarrow> method_of (rq_method r) | None \<Rightarrow> MGet)"

text \<open>The four setters share \<open>match self.requests.get_mut(..)\<close>.\<close>

definition update_request ::
  "u32 \<Rightarrow> (('s, 't) RequestData \<Rightarrow> ('s, 't) RequestData) \<Rightarrow> ('s, 't) WasiHttpHost \<Rightarrow>
    (unit, unit) result \<times> ('s, 't) WasiHttpHost" where
  "update_request self f h =
     (case table_get (requests h) self of
        Some r \<Rightarrow> (Ok (), h\<lparr>requests := table_modify self f (requests h)\<rparr>)
      | None \<Rightarrow> (Err (), h))"

definition request_set_method ::
  "u32 \<Rightarrow> Method \<Rightarrow> ('s, 't) WasiHttpHost \<Rightarrow> (unit, unit) result \<times> ('s, 't) WasiHttpHost" where
  "request_set_method self m h = update_request self (\<lambda>r. r\<lparr>rq_method := method_owned m\<rparr>) h"

definition request_get_path_with_query :: "('s, 't) WasiHttpHost \<Rightarrow> u32 \<Rightarrow> rstr option" where
  "request_get_path_with_query h self =
     (case table_get (requests h) self of Some r \<Rightarrow> rq_path_with_query r | None \<Rightarrow> None)"

definition request_set_path_with_query ::
  "u32 \<Rightarrow> rstr option \<Rightarrow> ('s, 't) WasiHttpHost \<Rightarrow> (unit, unit) result \<times> ('s, 't) WasiHttpHost" where
  "request_set_path_with_query self p h = update_request self (\<lambda>r. r\<lparr>rq_path_with_query := p\<rparr>) h"

definition request_get_scheme :: "('s, 't) WasiHttpHost \<Rightarrow> u32 \<Rightarrow> Scheme option" where
  "request_get_scheme h self =
     (case table_get (requests h) self of Some r \<Rightarrow> map_option scheme_of (rq_scheme r) | None \<Rightarrow> None)"

definition request_set_scheme ::
  "u32 \<Rightarrow> Scheme option \<Rightarrow> ('s, 't) WasiHttpHost \<Rightarrow> (unit, unit) result \<times> ('s, 't) WasiHttpHost" where
  "request_set_scheme self s h =
     update_request self (\<lambda>r. r\<lparr>rq_scheme := map_option scheme_owned s\<rparr>) h"

definition request_get_authority :: "('s, 't) WasiHttpHost \<Rightarrow> u32 \<Rightarrow> rstr option" where
  "request_get_authority h self =
     (case table_get (requests h) self of Some r \<Rightarrow> rq_authority r | None \<Rightarrow> None)"

definition request_set_authority ::
  "u32 \<Rightarrow> rstr option \<Rightarrow> ('s, 't) WasiHttpHost \<Rightarrow> (unit, unit) result \<times> ('s, 't) WasiHttpHost" where
  "request_set_authority self a h = update_request self (\<lambda>r. r\<lparr>rq_authority := a\<rparr>) h"

definition request_get_options ::
  "u32 \<Rightarrow> ('s, 't) WasiHttpHost \<Rightarrow> u32 option \<times> ('s, 't) WasiHttpHost" where
  "request_get_options self h =
     (case (case table_get (requests h) self of Some r \<Rightarrow> rq_options r | None \<Rightarrow> None) of
        Some rep \<Rightarrow>
          (Some rep, h\<lparr>options := table_modify rep (\<lambda>o'. o'\<lparr>opt_immutable := True\<rparr>) (options h)\<rparr>)
      | None \<Rightarrow> (None, h))"

definition request_get_headers ::
  "u32 \<Rightarrow> ('s, 't) WasiHttpHost \<Rightarrow> u32 \<times> ('s, 't) WasiHttpHost" where
  "request_get_headers self h =
     (let hdr_rep = (case table_get (requests h) self of Some r \<Rightarrow> rq_headers r | None \<Rightarrow> 0)
      in (hdr_rep, h\<lparr>fields_tab := table_modify hdr_rep (\<lambda>f. f\<lparr>immutable := True\<rparr>) (fields_tab h)\<rparr>))"

definition request_drop :: "u32 \<Rightarrow> ('s, 't) WasiHttpHost \<Rightarrow> ('s, 't) WasiHttpHost" where
  "request_drop rep h = h\<lparr>requests := snd (table_remove rep (requests h))\<rparr>"

definition request_new ::
  "('s, 't, 'x) minter \<Rightarrow> u32 \<Rightarrow> 's option \<Rightarrow> 't \<Rightarrow> u32 option \<Rightarrow> ('s, 't) WasiHttpHost \<Rightarrow>
    (u32 \<times> 'x) outcome \<times> ('s, 't) WasiHttpHost" where
  "request_new m headers contents trailers opts h =
     (case expect (mint_transmit m (Ok ())) of
        Panicked \<Rightarrow> (Panicked, h)
      | Returned transmit \<Rightarrow>
          (let data = request_data_default\<lparr>rq_headers := headers, rq_options := opts,
                        rq_body := contents, rq_trailers := Some trailers\<rparr>
           in case table_insert data (requests h) of
                (rep, t) \<Rightarrow> (Returned (rep, transmit), h\<lparr>requests := t\<rparr>)))"

text \<open>Both \<open>consume_body\<close> methods end by minting what was not stashed.\<close>

definition consume_or_mint ::
  "('s, 't, 'x) minter \<Rightarrow> 's option \<Rightarrow> 't option \<Rightarrow> ('s \<times> 't) outcome" where
  "consume_or_mint m body trailers =
     (case (case body of Some s \<Rightarrow> Returned s | None \<Rightarrow> expect (mint_stream m [])) of
        Panicked \<Rightarrow> Panicked
      | Returned s \<Rightarrow>
          (case (case trailers of Some t \<Rightarrow> Returned t | None \<Rightarrow> expect (mint_trailers m (Ok None))) of
             Panicked \<Rightarrow> Panicked
           | Returned t \<Rightarrow> Returned (s, t)))"

definition request_consume_body ::
  "('s, 't, 'x) minter \<Rightarrow> u32 \<Rightarrow> ('s, 't) WasiHttpHost \<Rightarrow> ('s \<times> 't) outcome \<times> ('s, 't) WasiHttpHost" where
  "request_consume_body m this h =
     (case (case table_get (requests h) this of
              Some r \<Rightarrow> (rq_body r, rq_trailers r) | None \<Rightarrow> (None, None)) of
        (body, trailers) \<Rightarrow>
          (consume_or_mint m body trailers,
           h\<lparr>requests := table_modify this (\<lambda>r. r\<lparr>rq_body := None, rq_trailers := None\<rparr>) (requests h)\<rparr>))"

section \<open>response\<close>

definition response_get_status_code :: "('s, 't) WasiHttpHost \<Rightarrow> u32 \<Rightarrow> u16" where
  "response_get_status_code h self =
     (case table_get (responses h) self of Some r \<Rightarrow> rs_status_code r | None \<Rightarrow> 200)"

definition response_set_status_code ::
  "u32 \<Rightarrow> u16 \<Rightarrow> ('s, 't) WasiHttpHost \<Rightarrow> (unit, unit) result \<times> ('s, 't) WasiHttpHost" where
  "response_set_status_code self status h =
     (if \<not> (100 \<le> status \<and> status \<le> 599) then (Err (), h)
      else case table_get (responses h) self of
        Some r \<Rightarrow>
          (Ok (), h\<lparr>responses := table_modify self (\<lambda>r. r\<lparr>rs_status_code := status\<rparr>) (responses h)\<rparr>)
      | None \<Rightarrow> (Err (), h))"

definition response_get_headers ::
  "u32 \<Rightarrow> ('s, 't) WasiHttpHost \<Rightarrow> u32 \<times> ('s, 't) WasiHttpHost" where
  "response_get_headers self h =
     (let hdr_rep = (case table_get (responses h) self of Some r \<Rightarrow> rs_headers r | None \<Rightarrow> 0)
      in (hdr_rep, h\<lparr>fields_tab := table_modify hdr_rep (\<lambda>f. f\<lparr>immutable := True\<rparr>) (fields_tab h)\<rparr>))"

definition response_drop :: "u32 \<Rightarrow> ('s, 't) WasiHttpHost \<Rightarrow> ('s, 't) WasiHttpHost" where
  "response_drop rep h = h\<lparr>responses := snd (table_remove rep (responses h))\<rparr>"

definition response_new ::
  "('s, 't, 'x) minter \<Rightarrow> u32 \<Rightarrow> 's option \<Rightarrow> 't \<Rightarrow> ('s, 't) WasiHttpHost \<Rightarrow>
    (u32 \<times> 'x) outcome \<times> ('s, 't) WasiHttpHost" where
  "response_new m headers contents trailers h =
     (case expect (mint_transmit m (Ok ())) of
        Panicked \<Rightarrow> (Panicked, h)
      | Returned transmit \<Rightarrow>
          (let data = \<lparr>rs_status_code = 200, rs_headers = headers, rs_body = contents,
                       rs_trailers = Some trailers\<rparr>
           in case table_insert data (responses h) of
                (rep, t) \<Rightarrow> (Returned (rep, transmit), h\<lparr>responses := t\<rparr>)))"

definition response_consume_body ::
  "('s, 't, 'x) minter \<Rightarrow> u32 \<Rightarrow> ('s, 't) WasiHttpHost \<Rightarrow> ('s \<times> 't) outcome \<times> ('s, 't) WasiHttpHost" where
  "response_consume_body m this h =
     (case (case table_get (responses h) this of
              Some r \<Rightarrow> (rs_body r, rs_trailers r) | None \<Rightarrow> (None, None)) of
        (body, trailers) \<Rightarrow>
          (consume_or_mint m body trailers,
           h\<lparr>responses := table_modify this (\<lambda>r. r\<lparr>rs_body := None, rs_trailers := None\<rparr>) (responses h)\<rparr>))"

section \<open>request-options\<close>

definition options_new :: "('s, 't) WasiHttpHost \<Rightarrow> u32 \<times> ('s, 't) WasiHttpHost" where
  "options_new h = (case table_insert options_default (options h) of (rep, t) \<Rightarrow> (rep, h\<lparr>options := t\<rparr>))"

definition options_get_connect_timeout :: "('s, 't) WasiHttpHost \<Rightarrow> u32 \<Rightarrow> u64 option" where
  "options_get_connect_timeout h self =
     (case table_get (options h) self of Some o' \<Rightarrow> connect_timeout o' | None \<Rightarrow> None)"

definition options_get_first_byte_timeout :: "('s, 't) WasiHttpHost \<Rightarrow> u32 \<Rightarrow> u64 option" where
  "options_get_first_byte_timeout h self =
     (case table_get (options h) self of Some o' \<Rightarrow> first_byte_timeout o' | None \<Rightarrow> None)"

definition options_get_between_bytes_timeout :: "('s, 't) WasiHttpHost \<Rightarrow> u32 \<Rightarrow> u64 option" where
  "options_get_between_bytes_timeout h self =
     (case table_get (options h) self of Some o' \<Rightarrow> between_bytes_timeout o' | None \<Rightarrow> None)"

text \<open>The three setters differ only in the field they write.\<close>

definition update_options ::
  "u32 \<Rightarrow> (RequestOptionsData \<Rightarrow> RequestOptionsData) \<Rightarrow> ('s, 't) WasiHttpHost \<Rightarrow>
    (unit, RequestOptionsError) result \<times> ('s, 't) WasiHttpHost" where
  "update_options self f h =
     (case table_get (options h) self of
        None \<Rightarrow> (Err OptImmutable, h)
      | Some o' \<Rightarrow>
          if opt_immutable o' then (Err OptImmutable, h)
          else (Ok (), h\<lparr>options := table_modify self f (options h)\<rparr>))"

definition options_set_connect_timeout ::
  "u32 \<Rightarrow> u64 option \<Rightarrow> ('s, 't) WasiHttpHost \<Rightarrow> (unit, RequestOptionsError) result \<times> ('s, 't) WasiHttpHost" where
  "options_set_connect_timeout self d h = update_options self (\<lambda>o'. o'\<lparr>connect_timeout := d\<rparr>) h"

definition options_set_first_byte_timeout ::
  "u32 \<Rightarrow> u64 option \<Rightarrow> ('s, 't) WasiHttpHost \<Rightarrow> (unit, RequestOptionsError) result \<times> ('s, 't) WasiHttpHost" where
  "options_set_first_byte_timeout self d h = update_options self (\<lambda>o'. o'\<lparr>first_byte_timeout := d\<rparr>) h"

definition options_set_between_bytes_timeout ::
  "u32 \<Rightarrow> u64 option \<Rightarrow> ('s, 't) WasiHttpHost \<Rightarrow> (unit, RequestOptionsError) result \<times> ('s, 't) WasiHttpHost" where
  "options_set_between_bytes_timeout self d h =
     update_options self (\<lambda>o'. o'\<lparr>between_bytes_timeout := d\<rparr>) h"

definition options_clone :: "u32 \<Rightarrow> ('s, 't) WasiHttpHost \<Rightarrow> u32 \<times> ('s, 't) WasiHttpHost" where
  "options_clone self h =
     (let data = (case table_get (options h) self of Some o' \<Rightarrow> o' | None \<Rightarrow> options_default)
      in case table_insert (data\<lparr>opt_immutable := False\<rparr>) (options h) of
           (rep, t) \<Rightarrow> (rep, h\<lparr>options := t\<rparr>))"

definition options_drop :: "u32 \<Rightarrow> ('s, 't) WasiHttpHost \<Rightarrow> ('s, 't) WasiHttpHost" where
  "options_drop rep h = h\<lparr>options := snd (table_remove rep (options h))\<rparr>"

section \<open>Lemmas on field lists\<close>

lemma fd_matches_iff: "fd_matches a b \<longleftrightarrow> to_ascii_lowercase a = to_ascii_lowercase b"
  by (simp add: fd_matches_def eq_ignore_ascii_case_def)

lemma fd_matches_refl [simp]: "fd_matches a a"
  by (simp add: fd_matches_iff)

lemma fd_matches_trans: "fd_matches a b \<Longrightarrow> fd_matches a c = fd_matches b c"
  by (simp add: fd_matches_iff)

lemma fd_has_iff: "fd_has f n \<longleftrightarrow> fd_get f n \<noteq> []"
  by (induction "entries f") (auto simp: fd_has_def fd_get_def filter_empty_conv list_ex_iff)

lemma fd_get_set:
  "fd_get (fd_set n vs f) m = (if fd_matches n m then vs else fd_get f m)"
proof (cases "fd_matches n m")
  case True
  then have "filter (\<lambda>e. \<not> fd_matches n (fst e) \<and> fd_matches m (fst e)) (entries f) = []"
    by (auto simp: filter_empty_conv fd_matches_iff)
  with True show ?thesis
    by (simp add: fd_get_def fd_set_def fd_matches_iff [of m n] fd_matches_iff [of n m] comp_def)
next
  case False
  then have "filter (\<lambda>e. \<not> fd_matches n (fst e) \<and> fd_matches m (fst e)) (entries f) =
      filter (\<lambda>e. fd_matches m (fst e)) (entries f)"
    by (intro filter_cong) (auto simp: fd_matches_iff)
  with False show ?thesis
    by (simp add: fd_get_def fd_set_def fd_matches_iff [of m n] fd_matches_iff [of n m])
qed

lemma fd_delete_set: "fd_delete n f = fd_set n [] f"
  by (simp add: fd_delete_def fd_set_def)

lemma fd_get_append:
  "fd_get (fd_append n v f) m = (if fd_matches n m then fd_get f m @ [v] else fd_get f m)"
  by (auto simp: fd_get_def fd_append_def fd_matches_iff)

lemma fd_mutators_immutable [simp]:
  "immutable (fd_set n vs f) = immutable f" "immutable (fd_delete n f) = immutable f"
  "immutable (fd_append n v f) = immutable f"
  by (simp_all add: fd_set_def fd_delete_def fd_append_def)

lemma method_roundtrip [simp]: "method_of (method_owned m) = m" "method_owned (method_of m') = m'"
  by (cases m; simp) (cases m'; simp)

lemma scheme_roundtrip [simp]: "scheme_of (scheme_owned s) = s" "scheme_owned (scheme_of s') = s'"
  by (cases s; simp) (cases s'; simp)

section \<open>The host invariant\<close>

definition host_inv :: "('s, 't) WasiHttpHost \<Rightarrow> bool" where
  "host_inv h \<longleftrightarrow>
     table_inv (fields_tab h) \<and> table_inv (requests h) \<and> table_inv (responses h) \<and> table_inv (options h)"

text \<open>How many more insertions every allocator is good for.\<close>

definition host_room :: "('s, 't) WasiHttpHost \<Rightarrow> nat" where
  "host_room h =
     min (min (table_room (fields_tab h)) (table_room (requests h)))
         (min (table_room (responses h)) (table_room (options h)))"

lemma table_inv_default: "table_inv table_default"
  using tab.default_law by blast

lemma host_inv_new [inv_intros]: "host_inv http_host_new"
  by (simp add: host_inv_def http_host_new_def table_inv_default)

section \<open>Guest calls\<close>

text \<open>Every method of the four resources that can change the host, with its arguments.\<close>

datatype ('s, 't) http_call =
    FieldsNew
  | FieldsFromList field_list
  | FieldsSet u32 rstr "bytes list"
  | FieldsDelete u32 rstr
  | FieldsGetAndDelete u32 rstr
  | FieldsAppend u32 rstr bytes
  | FieldsClone u32
  | FieldsDrop u32
  | RequestSetMethod u32 Method
  | RequestSetPath u32 "rstr option"
  | RequestSetScheme u32 "Scheme option"
  | RequestSetAuthority u32 "rstr option"
  | RequestGetOptions u32
  | RequestGetHeaders u32
  | RequestDrop u32
  | RequestNew u32 "'s option" 't "u32 option"
  | RequestConsumeBody u32
  | ResponseSetStatus u32 u16
  | ResponseGetHeaders u32
  | ResponseDrop u32
  | ResponseNew u32 "'s option" 't
  | ResponseConsumeBody u32
  | OptionsNew
  | OptionsSetConnect u32 "u64 option"
  | OptionsSetFirstByte u32 "u64 option"
  | OptionsSetBetweenBytes u32 "u64 option"
  | OptionsClone u32
  | OptionsDrop u32

fun http_step ::
  "('s, 't, 'x) minter \<Rightarrow> ('s, 't) http_call \<Rightarrow> ('s, 't) WasiHttpHost \<Rightarrow> ('s, 't) WasiHttpHost" where
  "http_step m FieldsNew h = snd (fields_new h)"
| "http_step m (FieldsFromList es) h = snd (fields_from_list es h)"
| "http_step m (FieldsSet r n vs) h = snd (fields_set r n vs h)"
| "http_step m (FieldsDelete r n) h = snd (fields_delete r n h)"
| "http_step m (FieldsGetAndDelete r n) h = snd (fields_get_and_delete r n h)"
| "http_step m (FieldsAppend r n v) h = snd (fields_append r n v h)"
| "http_step m (FieldsClone r) h = snd (fields_clone r h)"
| "http_step m (FieldsDrop r) h = fields_drop r h"
| "http_step m (RequestSetMethod r x) h = snd (request_set_method r x h)"
| "http_step m (RequestSetPath r p) h = snd (request_set_path_with_query r p h)"
| "http_step m (RequestSetScheme r s) h = snd (request_set_scheme r s h)"
| "http_step m (RequestSetAuthority r a) h = snd (request_set_authority r a h)"
| "http_step m (RequestGetOptions r) h = snd (request_get_options r h)"
| "http_step m (RequestGetHeaders r) h = snd (request_get_headers r h)"
| "http_step m (RequestDrop r) h = request_drop r h"
| "http_step m (RequestNew fs b t o') h = snd (request_new m fs b t o' h)"
| "http_step m (RequestConsumeBody r) h = snd (request_consume_body m r h)"
| "http_step m (ResponseSetStatus r c) h = snd (response_set_status_code r c h)"
| "http_step m (ResponseGetHeaders r) h = snd (response_get_headers r h)"
| "http_step m (ResponseDrop r) h = response_drop r h"
| "http_step m (ResponseNew fs b t) h = snd (response_new m fs b t h)"
| "http_step m (ResponseConsumeBody r) h = snd (response_consume_body m r h)"
| "http_step m OptionsNew h = snd (options_new h)"
| "http_step m (OptionsSetConnect r d) h = snd (options_set_connect_timeout r d h)"
| "http_step m (OptionsSetFirstByte r d) h = snd (options_set_first_byte_timeout r d h)"
| "http_step m (OptionsSetBetweenBytes r d) h = snd (options_set_between_bytes_timeout r d h)"
| "http_step m (OptionsClone r) h = snd (options_clone r h)"
| "http_step m (OptionsDrop r) h = options_drop r h"

lemmas fields_defs [host_simps] = fields_new_def fields_from_list_def fields_set_def
  fields_delete_def fields_get_and_delete_def fields_append_def fields_clone_def fields_drop_def

lemmas request_defs [host_simps] = update_request_def request_set_method_def
  request_set_path_with_query_def request_set_scheme_def request_set_authority_def
  request_get_options_def request_get_headers_def request_drop_def request_new_def
  request_consume_body_def

lemmas response_defs [host_simps] = response_set_status_code_def response_get_headers_def
  response_drop_def response_new_def response_consume_body_def

lemmas options_defs [host_simps] = options_new_def update_options_def
  options_set_connect_timeout_def options_set_first_byte_timeout_def
  options_set_between_bytes_timeout_def options_clone_def options_drop_def

text \<open>What a call does to each table is a table operation, or nothing.\<close>

definition one_op :: "'a Table \<Rightarrow> 'a Table \<Rightarrow> bool" where
  "one_op t t' \<longleftrightarrow> t' = t \<or> (\<exists>x. t' = table_step x t)"

lemma one_opI:
  "one_op t t" "one_op t (snd (table_insert v t))" "one_op t (table_modify r f t)"
  "one_op t (snd (table_remove r t))"
  unfolding one_op_def by (blast, metis table_step.simps(1), metis table_step.simps(2),
      metis table_step.simps(3))

lemma one_op_insert: "table_insert v t = (r, t') \<Longrightarrow> one_op t t'"
  using one_opI(2) [of t v] by simp

lemma http_step_one_op:
  "one_op (fields_tab h) (fields_tab (http_step m c h)) \<and> one_op (requests h) (requests (http_step m c h)) \<and>
   one_op (responses h) (responses (http_step m c h)) \<and> one_op (options h) (options (http_step m c h))"
  by (cases c) (auto simp: host_simps Let_def one_opI one_op_insert
      split: option.split prod.split outcome.split)

lemma table_step_inv:
  assumes "table_inv t" and "0 < table_room t"
  shows "table_inv (table_step x t) \<and> table_room t \<le> Suc (table_room (table_step x t))"
proof (cases x)
  case (TInsert v)
  obtain r t' where ins: "table_insert v t = (r, t')" by (cases "table_insert v t")
  with TInsert tab.insert_law [OF assms ins] show ?thesis by simp
next
  case (TModify r f)
  with tab.modify_law [OF assms(1), of r f] show ?thesis by simp
next
  case (TRemove r)
  with tab.remove_law [OF assms(1), of r] show ?thesis by simp
qed

lemma one_op_inv:
  "one_op t t' \<Longrightarrow> table_inv t \<Longrightarrow> 0 < table_room t \<Longrightarrow> table_inv t' \<and> table_room t \<le> Suc (table_room t')"
  using table_step_inv [of t] by (auto simp: one_op_def)

lemma http_step_inv:
  assumes "host_inv h" and "0 < host_room h"
  shows "host_inv (http_step m c h) \<and> host_room h \<le> Suc (host_room (http_step m c h))"
  using http_step_one_op [of h m c] assms
    one_op_inv [of "fields_tab h" "fields_tab (http_step m c h)"]
    one_op_inv [of "requests h" "requests (http_step m c h)"]
    one_op_inv [of "responses h" "responses (http_step m c h)"]
    one_op_inv [of "options h" "options (http_step m c h)"]
  by (simp add: host_inv_def host_room_def) linarith

section \<open>Frozen fields\<close>

text \<open>
  The id was issued, and it is dead or still has these entries, immutable: a step keeps that.
\<close>

definition frozen :: "field_list \<Rightarrow> u32 \<Rightarrow> FieldsData Table \<Rightarrow> bool" where
  "frozen es r t \<longleftrightarrow>
     r \<in> table_issued t \<and>
     (table_get t r = None \<or> table_get t r = Some \<lparr>entries = es, immutable = True\<rparr>)"

lemma frozen_insert:
  assumes "table_inv t" "0 < table_room t" "frozen es r t" "table_insert v t = (s, t')"
  shows "frozen es r t'"
  using tab.insert_law [OF assms(1,2,4)] assms(3) by (auto simp: frozen_def)

lemma frozen_remove: "table_inv t \<Longrightarrow> frozen es r t \<Longrightarrow> frozen es r (snd (table_remove s t))"
  using tab.remove_law [of t s] by (auto simp: frozen_def)

lemma frozen_freeze:
  "table_inv t \<Longrightarrow> frozen es r t \<Longrightarrow> frozen es r (table_modify s (\<lambda>f. f\<lparr>immutable := True\<rparr>) t)"
  using tab.modify_law [of t s] by (auto simp: frozen_def)

lemma frozen_modify:
  assumes "table_inv t" "frozen es r t" "table_get t s = Some f" "\<not> immutable f"
  shows "frozen es r (table_modify s g t)"
  using tab.modify_law [OF assms(1), of s g] assms by (auto simp: frozen_def)

lemmas frozen_rules = frozen_insert frozen_remove frozen_freeze frozen_modify

lemma frozen_fields_step:
  assumes "table_inv (fields_tab h)" "0 < table_room (fields_tab h)" "frozen es r (fields_tab h)"
  shows "frozen es r (fields_tab (http_step m c h))"
  using assms
  by (cases c) (auto simp: host_simps Let_def intro: frozen_rules
      split: option.split prod.split outcome.split)

section \<open>Examples and further properties\<close>

text \<open>A host with one header list, one request on it and the trivial engine, for the examples.\<close>

definition demo_minter :: "(bytes, (u32 option, ErrorCode) result, unit) minter" where
  "demo_minter = \<lparr>mint_stream = Ok, mint_trailers = Ok, mint_transmit = (\<lambda>_. Ok ())\<rparr>"

definition demo_host :: "(bytes, (u32 option, ErrorCode) result) WasiHttpHost" where
  "demo_host =
     snd (request_new demo_minter 1 None (Ok None) None
       (snd (fields_from_list [(lit ''Accept'', [42])] http_host_new)))"

lemma demo_host_eq:
  "demo_host = http_host_new\<lparr>
     fields_tab := \<lparr>items = [(1, \<lparr>entries = [(lit ''Accept'', [42])], immutable = False\<rparr>)], next_rep = 2\<rparr>,
     requests := \<lparr>items = [(1, request_data_default\<lparr>rq_headers := 1, rq_trailers := Some (Ok None)\<rparr>)],
                  next_rep = 2\<rparr>\<rparr>"
  by (simp add: demo_host_def request_new_def fields_from_list_def demo_minter_def http_host_new_def
      table_insert_def table_default_def hm_new_def hm_insert_def request_data_default_def)

lemma demo_host_inv: "host_inv demo_host"
  by (simp add: demo_host_eq host_inv_def http_host_new_def table_inv_def hm_wf_def table_default_def
      hm_new_def)

lemma demo_host_get:
  "table_get (requests demo_host) 1 =
     Some (request_data_default\<lparr>rq_headers := 1, rq_trailers := Some (Ok None)\<rparr>)"
  "table_get (fields_tab demo_host) 1 = Some \<lparr>entries = [(lit ''Accept'', [42])], immutable = False\<rparr>"
  by (simp_all add: demo_host_eq table_get_def hm_get_def)

text \<open>
  The request's attributes are what was last set: on a live request each setter succeeds, the
  matching getter returns the value, also for methods and schemes outside the standard ones, and
  no other request changes; on a dead handle each setter fails and changes nothing.
\<close>

theorem request_set_get:
  assumes "host_inv h"
  shows "(table_get (requests h) r \<noteq> None \<longrightarrow>
      request_get_method (snd (request_set_method r mt h)) r = mt \<and>
      request_get_path_with_query (snd (request_set_path_with_query r p h)) r = p \<and>
      request_get_scheme (snd (request_set_scheme r sc h)) r = sc \<and>
      request_get_authority (snd (request_set_authority r a h)) r = a) \<and>
    (table_get (requests h) r = None \<longrightarrow>
      request_set_method r mt h = (Err (), h) \<and> request_set_path_with_query r p h = (Err (), h) \<and>
      request_set_scheme r sc h = (Err (), h) \<and> request_set_authority r a h = (Err (), h)) \<and>
    (s \<noteq> r \<longrightarrow> table_get (requests (snd (request_set_method r mt h))) s = table_get (requests h) s)"
proof -
  have inv: "table_inv (requests h)" using assms by (simp add: host_inv_def)
  have get: "table_get (table_modify r f (requests h)) =
      (table_get (requests h))(r := map_option f (table_get (requests h) r))" for f
    using tab.modify_law [OF inv] by simp
  show ?thesis
    by (auto simp: request_defs get request_get_method_def request_get_path_with_query_def
        request_get_scheme_def request_get_authority_def option.map_comp comp_def option.map_ident
        split: option.splits)
qed

theorem request_set_get_witness:
  "request_get_method (snd (request_set_method 1 (MOther (lit ''PURGE'')) demo_host)) 1 = MOther (lit ''PURGE'')"
  using request_set_get [OF demo_host_inv, of 1 "MOther (lit ''PURGE'')"]
  by (simp add: demo_host_get)

text \<open>
  Field lists are multi-maps on case-insensitive names: after a successful \<open>set\<close>, \<open>append\<close> or
  \<open>delete\<close> a lookup under any spelling gives the new values for that name and the old values for
  every other, \<open>get-and-delete\<close> returns what a lookup would have and leaves nothing, and no other
  list changes.
\<close>

theorem fields_multimap:
  assumes "host_inv h" and "table_get (fields_tab h) r = Some f" and "\<not> immutable f"
  shows "fields_get (snd (fields_set r n vs h)) r m = (if fd_matches n m then vs else fields_get h r m) \<and>
    fields_get (snd (fields_append r n v h)) r m =
      (if fd_matches n m then fields_get h r m @ [v] else fields_get h r m) \<and>
    fields_get (snd (fields_delete r n h)) r m = (if fd_matches n m then [] else fields_get h r m) \<and>
    fst (fields_get_and_delete r n h) = Ok (fields_get h r n) \<and>
    \<not> fields_has (snd (fields_get_and_delete r n h)) r n \<and>
    (s \<noteq> r \<longrightarrow> fields_copy_all (snd (fields_set r n vs h)) s = fields_copy_all h s)"
proof -
  have inv: "table_inv (fields_tab h)" using assms by (simp add: host_inv_def)
  have get: "table_get (table_modify r g (fields_tab h)) =
      (table_get (fields_tab h))(r := map_option g (table_get (fields_tab h) r))" for g
    using tab.modify_law [OF inv] by simp
  show ?thesis
    using assms(2,3)
    by (simp add: fields_defs get fields_get_def fields_has_def fields_copy_all_def fd_get_set
        fd_get_append fd_delete_set fd_get_and_delete_def fd_has_iff)
qed

theorem fields_multimap_witness:
  "fields_get (snd (fields_append 1 (lit ''ACCEPT'') [7] demo_host)) 1 (lit ''accept'') = [[42], [7]]"
proof -
  have m: "fd_matches (lit ''ACCEPT'') (lit ''accept'')" "fd_matches (lit ''accept'') (lit ''Accept'')"
    by (code_simp, code_simp)
  have "fields_get demo_host 1 (lit ''accept'') = [[42]]"
    using m(2) by (simp add: fields_get_def demo_host_get fd_get_def)
  then show ?thesis
    using fields_multimap [OF demo_host_inv demo_host_get(2),
        of "lit ''ACCEPT''" "[]" "lit ''accept''" "[7]"] m(1) by simp
qed

text \<open>
  A body is handed out once: the first \<open>consume-body\<close> of a request returns the stream and the
  trailers it was created with, the second an empty stream and no trailers, and the same holds
  after any change to the request's attributes in between.
\<close>

theorem request_body_once:
  assumes "host_inv h" and "table_get (requests h) r = Some d"
    and "rq_body d = Some s" and "rq_trailers d = Some t"
    and "mint_stream mi [] = Ok s0" and "mint_trailers mi (Ok None) = Ok t0"
  shows "fst (request_consume_body mi r h) = Returned (s, t) \<and>
    fst (request_consume_body mi r (snd (request_set_method r mt (snd (request_consume_body mi r h))))) =
      Returned (s0, t0)"
proof -
  have inv: "table_inv (requests h)" using assms(1) by (simp add: host_inv_def)
  let ?take = "\<lambda>d. d\<lparr>rq_body := None, rq_trailers := None\<rparr>"
  have inv1: "table_inv (table_modify r ?take (requests h))"
    and get1: "table_get (table_modify r ?take (requests h)) r = Some (?take d)"
    using tab.modify_law [OF inv, of r ?take] assms(2) by auto
  have "table_get (table_modify r (\<lambda>d. d\<lparr>rq_method := method_owned mt\<rparr>)
      (table_modify r ?take (requests h))) r = Some ((?take d)\<lparr>rq_method := method_owned mt\<rparr>)"
    using tab.modify_law [OF inv1, of r] get1 by simp
  then show ?thesis
    using assms get1
    by (simp add: request_consume_body_def consume_or_mint_def request_set_method_def update_request_def)
qed

theorem request_body_once_witness:
  "fst (request_consume_body demo_minter 2
     (snd (request_new demo_minter 1 (Some [5]) (Ok None) None demo_host))) = Returned ([5], Ok None)"
proof -
  let ?h = "snd (request_new demo_minter 1 (Some [5]) (Ok None) None demo_host)"
  have h: "?h = demo_host\<lparr>requests := \<lparr>items =
      [(1, request_data_default\<lparr>rq_headers := 1, rq_trailers := Some (Ok None)\<rparr>),
       (2, request_data_default\<lparr>rq_headers := 1, rq_body := Some [5], rq_trailers := Some (Ok None)\<rparr>)],
      next_rep = 3\<rparr>\<rparr>"
    by (simp add: request_new_def demo_minter_def table_insert_def hm_insert_def demo_host_eq
        request_data_default_def)
  have "host_inv ?h"
    unfolding h using demo_host_inv by (simp add: host_inv_def table_inv_def hm_wf_def)
  moreover have "table_get (requests ?h) 2 = Some (request_data_default\<lparr>rq_headers := 1,
      rq_body := Some [5], rq_trailers := Some (Ok None)\<rparr>)"
    unfolding h by (simp add: table_get_def hm_get_def)
  ultimately show ?thesis
    using request_body_once [of ?h 2 _ "[5]" "Ok None" demo_minter "[]" "Ok None"]
    by (simp add: demo_minter_def)
qed

end
