(* ===== verification/Http_Head.thy ===== *)
theory Http_Head
  imports Wasi_Http_Types
begin

text \<open>
  The line formats of the \<open>wasi:http\<close> transport in \<open>src/wasi_http.rs\<close>: the request head, the
  request-options line and the trailers line.  The head is shown to split back into exactly the
  lines that were written, at the byte level, whatever the guest put into the request.
\<close>

section \<open>Tokens\<close>

definition is_tchar :: "u8 \<Rightarrow> bool" where
  "is_tchar b \<longleftrightarrow>
     48 \<le> b \<and> b \<le> 57 \<or> 65 \<le> b \<and> b \<le> 90 \<or> 97 \<le> b \<and> b \<le> 122 \<or>
     List.member (blit ''!#$%&'' @ [39] @ blit ''*+-.^_'' @ [96] @ blit ''|~'') b"

definition is_http_token :: "rstr \<Rightarrow> bool" where
  "is_http_token s \<longleftrightarrow> s \<noteq> [] \<and> list_all is_tchar (as_bytes s)"

definition is_request_line_safe :: "rstr \<Rightarrow> bool" where
  "is_request_line_safe s \<longleftrightarrow> list_all (\<lambda>c. \<not> is_whitespace c \<and> \<not> is_control c) s"

fun method_str :: "MethodOwned \<Rightarrow> rstr" where
  "method_str OGet = lit ''GET''"
| "method_str OHead = lit ''HEAD''"
| "method_str OPost = lit ''POST''"
| "method_str OPut = lit ''PUT''"
| "method_str ODelete = lit ''DELETE''"
| "method_str OConnect = lit ''CONNECT''"
| "method_str OOptions = lit ''OPTIONS''"
| "method_str OTrace = lit ''TRACE''"
| "method_str OPatch = lit ''PATCH''"
| "method_str (OOther s) = s"

definition REQUEST_OPTIONS_HEAD_KEY :: rstr where
  "REQUEST_OPTIONS_HEAD_KEY = lit ''x-hellohq-request-options''"

definition TRAILERS_HEAD_KEY :: rstr where
  "TRAILERS_HEAD_KEY = lit ''x-hellohq-trailers''"

section \<open>The request head\<close>

definition skip_header :: "rstr \<times> bytes \<Rightarrow> bool" where
  "skip_header nv \<longleftrightarrow>
     \<not> is_http_token (fst nv) \<or> eq_ignore_ascii_case (fst nv) REQUEST_OPTIONS_HEAD_KEY \<or>
     list_ex (\<lambda>b. b = 13 \<or> b = 10 \<or> b = 0) (snd nv)"

text \<open>The loop over the headers, pushing onto \<open>head\<close>.\<close>

fun push_headers :: "rstr \<Rightarrow> (rstr \<times> bytes) list \<Rightarrow> rstr" where
  "push_headers head [] = head"
| "push_headers head ((name, value) # rest) =
     (if skip_header (name, value) then push_headers head rest
      else push_headers (head @ [10] @ name @ lit '': '' @ from_utf8_lossy value) rest)"

definition encode_request_head ::
  "rstr \<Rightarrow> rstr \<Rightarrow> rstr \<Rightarrow> rstr \<Rightarrow> (rstr \<times> bytes) list \<Rightarrow> rstr option \<Rightarrow> (bytes, ErrorCode) result" where
  "encode_request_head meth scheme authority path headers options_line =
     (if \<not> is_http_token meth then Err HttpRequestMethodInvalid
      else if \<not> is_request_line_safe scheme \<or> \<not> is_request_line_safe authority \<or>
              \<not> is_request_line_safe path
      then Err HttpRequestUriInvalid
      else
        let head = meth @ lit '' '' @ scheme @ lit ''://'' @ authority @ path;
            head = push_headers head headers;
            head = (case options_line of Some line \<Rightarrow> head @ [10] @ line | None \<Rightarrow> head)
        in Ok (as_bytes head))"

definition option_part :: "string \<Rightarrow> u64 option \<Rightarrow> rstr list" where
  "option_part key d =
     (case d of Some ns \<Rightarrow> [lit key @ lit ''='' @ dec_digits (unat ns)] | None \<Rightarrow> [])"

definition format_request_options_line :: "RequestOptionsData \<Rightarrow> rstr option" where
  "format_request_options_line opts =
     (let parts = option_part ''connect'' (connect_timeout opts) @
                  option_part ''first-byte'' (first_byte_timeout opts) @
                  option_part ''between-bytes'' (between_bytes_timeout opts)
      in if parts = [] then None
         else Some (REQUEST_OPTIONS_HEAD_KEY @ lit '': '' @ join (lit '';'') parts))"

section \<open>Trailers\<close>

definition hex_digit :: "nat \<Rightarrow> nat" where
  "hex_digit n = (if n < 10 then 48 + n else 87 + n)"

definition hex_encode :: "bytes \<Rightarrow> rstr" where
  "hex_encode bs = concat (map (\<lambda>b. [hex_digit (unat b div 16), hex_digit (unat b mod 16)]) bs)"

text \<open>The decoding loop, two bytes at a time; an odd length was refused before it.\<close>

fun hex_pairs :: "bytes \<Rightarrow> bytes option" where
  "hex_pairs (a # b # rest) =
     (case to_digit 16 (unat a) of None \<Rightarrow> None | Some hi \<Rightarrow>
       (case to_digit 16 (unat b) of None \<Rightarrow> None | Some lo \<Rightarrow>
         map_option (\<lambda>out. of_nat (hi * 16 + lo) # out) (hex_pairs rest)))"
| "hex_pairs _ = Some []"

definition hex_decode :: "rstr \<Rightarrow> bytes option" where
  "hex_decode s =
     (let b = as_bytes s in if length b mod 2 \<noteq> 0 then None else hex_pairs b)"

definition format_request_trailers_value :: "(rstr \<times> bytes) list \<Rightarrow> rstr option" where
  "format_request_trailers_value es =
     (let parts = map (\<lambda>nv. fst nv @ lit ''='' @ hex_encode (snd nv))
                    (filter (\<lambda>nv. is_http_token (fst nv)) es)
      in if parts = [] then None else Some (join (lit '';'') parts))"

definition parse_trailer_pair :: "rstr \<Rightarrow> (rstr \<times> bytes) list" where
  "parse_trailer_pair pair0 =
     (let pair = trim pair0 in
      if pair = [] then []
      else case split_once 61 pair of
        Some (name, hex) \<Rightarrow>
          (case hex_decode (trim hex) of Some bytes \<Rightarrow> [(trim name, bytes)] | None \<Rightarrow> [])
      | None \<Rightarrow> [])"

definition parse_trailers_line :: "rstr \<Rightarrow> (rstr \<times> bytes) list" where
  "parse_trailers_line value = concat (map parse_trailer_pair (split_char 59 value))"

section \<open>What the pieces contain\<close>

lemma token_no_sep:
  assumes "is_http_token s" and "n < 0x80" and "\<not> is_tchar (of_nat n)"
  shows "n \<notin> set s"
  using assms ascii_in_as_bytes [OF assms(2), of s] by (auto simp: is_http_token_def list_all_iff)

lemma tchar_ascii: "is_tchar b \<Longrightarrow> unat b < 0x80"
  by (auto simp: is_tchar_def blit_def word_le_nat_alt)

lemma not_tchar:
  "\<not> is_tchar 10" "\<not> is_tchar 32" "\<not> is_tchar 58" "\<not> is_tchar 59" "\<not> is_tchar 61"
  "\<not> is_tchar 9" "\<not> is_tchar 11" "\<not> is_tchar 12" "\<not> is_tchar 13"
  by (simp_all add: is_tchar_def blit_def)

lemma utf8_code_nonempty: "utf8_code c \<noteq> []"
  by (simp add: utf8_code_def)

lemma token_ascii:
  assumes "is_http_token s" and "c \<in> set s"
  shows "c < 0x80"
proof (rule ccontr)
  assume "\<not> c < 0x80"
  obtain b where b: "b \<in> set (utf8_code c)" using utf8_code_nonempty [of c] by (cases "utf8_code c") auto
  then have "0x80 \<le> b" using utf8_code_high [of c b] \<open>\<not> c < 0x80\<close> by simp
  moreover have "b \<in> set (map unat (utf8_char c))" using b by (simp add: unat_utf8_char)
  then obtain x where "x \<in> set (utf8_char c)" "b = unat x" by auto
  moreover from this assms have "is_tchar x"
    by (auto simp: is_http_token_def list_all_iff as_bytes_def)
  ultimately show False using tchar_ascii [of x] by simp
qed

lemma token_no_whitespace:
  assumes "is_http_token s" and "c \<in> set s"
  shows "\<not> is_whitespace c"
proof
  assume "is_whitespace c"
  with token_ascii [OF assms] have "c = 9 \<or> c = 10 \<or> c = 11 \<or> c = 12 \<or> c = 13 \<or> c = 32"
    by (auto simp: is_whitespace_def)
  then have "\<not> is_tchar (of_nat c)" by (elim disjE) (simp_all add: not_tchar)
  with assms(2) token_no_sep [OF assms(1) token_ascii [OF assms]] show False by blast
qed

lemma safe_no_lf_sp: "is_request_line_safe s \<Longrightarrow> 10 \<notin> set s \<and> 32 \<notin> set s"
proof -
  have "is_whitespace 10" "is_whitespace 32" by (simp_all add: is_whitespace_def)
  then show "is_request_line_safe s \<Longrightarrow> 10 \<notin> set s \<and> 32 \<notin> set s"
    unfolding is_request_line_safe_def list_all_iff by blast
qed

lemma lossy_no_lf: "\<not> skip_header (n, v) \<Longrightarrow> 10 \<notin> set (from_utf8_lossy v)"
  using from_utf8_lossy_ascii [of 10 v] by (auto simp: skip_header_def list_ex_iff)

lemma dec_digits_no: "c < 48 \<or> 57 < c \<Longrightarrow> c \<notin> set (dec_digits n)"
  using dec_digits_set by fastforce

section \<open>The head as lines\<close>

definition request_line :: "rstr \<Rightarrow> rstr \<Rightarrow> rstr \<Rightarrow> rstr \<Rightarrow> rstr" where
  "request_line meth scheme authority path = meth @ [32] @ scheme @ lit ''://'' @ authority @ path"

definition header_line :: "rstr \<times> bytes \<Rightarrow> rstr" where
  "header_line nv = fst nv @ [58, 32] @ from_utf8_lossy (snd nv)"

lemma lit_seps: "lit '': '' = [58, 32]" "lit '' '' = [32]" "lit ''='' = [61]" "lit '';'' = [59]"
  by (simp_all add: lit_def)

lemma push_headers_eq:
  "push_headers head hs =
     head @ concat (map (\<lambda>nv. 10 # header_line nv) (filter (\<lambda>nv. \<not> skip_header nv) hs))"
  by (induction head hs rule: push_headers.induct) (auto simp: header_line_def lit_seps)

lemma join_concat: "w @ concat (map (\<lambda>l. d # l) ls) = join [d] (w # ls)"
proof (induction ls arbitrary: w)
  case (Cons l ls)
  have "w @ concat (map (\<lambda>l. d # l) (l # ls)) = w @ [d] @ (l @ concat (map (\<lambda>l. d # l) ls))"
    by simp
  also have "\<dots> = w @ [d] @ join [d] (l # ls)" by (simp only: Cons)
  finally show ?case by simp
qed simp

lemma as_bytes_join: "n < 0x80 \<Longrightarrow> as_bytes (join [n] ls) = join [of_nat n] (map as_bytes ls)"
  by (induction ls rule: induct_list012)
    (auto simp: as_bytes_Cons utf8_char_def utf8_code_def)

lemma as_bytes_colon: "n < 0x80 \<Longrightarrow> as_bytes (n # s) = of_nat n # as_bytes s"
  by (simp add: as_bytes_Cons utf8_char_def utf8_code_def)

definition head_lines ::
  "rstr \<Rightarrow> rstr \<Rightarrow> rstr \<Rightarrow> rstr \<Rightarrow> (rstr \<times> bytes) list \<Rightarrow> rstr option \<Rightarrow> rstr list" where
  "head_lines meth scheme authority path headers options_line =
     request_line meth scheme authority path #
     map header_line (filter (\<lambda>nv. \<not> skip_header nv) headers) @
     (case options_line of Some l \<Rightarrow> [l] | None \<Rightarrow> [])"

lemma encode_request_head_join:
  assumes "encode_request_head meth scheme authority path headers options_line = Ok bs"
  shows "bs = as_bytes (join [10] (head_lines meth scheme authority path headers options_line))"
proof -
  let ?hs = "map header_line (filter (\<lambda>nv. \<not> skip_header nv) headers)"
  have "bs = as_bytes (push_headers (request_line meth scheme authority path) headers @
      concat (map (\<lambda>l. 10 # l) (case options_line of Some l \<Rightarrow> [l] | None \<Rightarrow> [])))"
    using assms by (auto simp: encode_request_head_def Let_def request_line_def lit_seps
        split: if_splits option.splits)
  also have "push_headers (request_line meth scheme authority path) headers @
      concat (map (\<lambda>l. 10 # l) (case options_line of Some l \<Rightarrow> [l] | None \<Rightarrow> [])) =
      request_line meth scheme authority path @
        concat (map (\<lambda>l. 10 # l) (?hs @ (case options_line of Some l \<Rightarrow> [l] | None \<Rightarrow> [])))"
    by (simp add: push_headers_eq comp_def)
  finally show ?thesis by (simp only: head_lines_def join_concat)
qed

lemma encode_request_head_Ok_iff:
  "(\<exists>bs. encode_request_head meth scheme authority path headers options_line = Ok bs) \<longleftrightarrow>
     is_http_token meth \<and> is_request_line_safe scheme \<and> is_request_line_safe authority \<and>
     is_request_line_safe path"
  by (auto simp: encode_request_head_def Let_def)

lemma join_set: "set (join sep ps) \<subseteq> set sep \<union> \<Union> (set ` set ps)"
  by (induction ps rule: induct_list012) auto

lemma option_part_set: "p \<in> set (option_part k d) \<Longrightarrow> set p \<subseteq> set (lit k) \<union> {61} \<union> {48..57}"
  using dec_digits_set by (fastforce simp: option_part_def lit_seps split: option.splits)

lemma options_line_no_lf:
  assumes "format_request_options_line o' = Some l"
  shows "10 \<notin> set l"
proof -
  let ?ps = "option_part ''connect'' (connect_timeout o') @
    option_part ''first-byte'' (first_byte_timeout o') @
    option_part ''between-bytes'' (between_bytes_timeout o')"
  have "10 \<notin> set p" if "p \<in> set ?ps" for p
  proof -
    from that consider "p \<in> set (option_part ''connect'' (connect_timeout o'))"
      | "p \<in> set (option_part ''first-byte'' (first_byte_timeout o'))"
      | "p \<in> set (option_part ''between-bytes'' (between_bytes_timeout o'))" by auto
    then show ?thesis by cases (auto simp: lit_def dest!: option_part_set)
  qed
  then have "10 \<notin> set (join [59] ?ps)" using join_set [of "[59]" ?ps] by auto
  moreover have "l = REQUEST_OPTIONS_HEAD_KEY @ [58, 32] @ join [59] ?ps"
    using assms by (simp add: format_request_options_line_def Let_def lit_seps split: if_splits)
  moreover have "10 \<notin> set REQUEST_OPTIONS_HEAD_KEY"
    by (simp add: REQUEST_OPTIONS_HEAD_KEY_def lit_def)
  ultimately show ?thesis by simp
qed

text \<open>No line of a head holds a line feed.\<close>

lemma head_lines_no_lf:
  assumes "is_http_token meth" "is_request_line_safe scheme" "is_request_line_safe authority"
    "is_request_line_safe path" "\<And>l. options_line = Some l \<Longrightarrow> 10 \<notin> set l"
    "l \<in> set (head_lines meth scheme authority path headers options_line)"
  shows "10 \<notin> set l"
proof -
  have "10 \<notin> set (request_line meth scheme authority path)"
    using assms safe_no_lf_sp token_no_sep [OF assms(1), of 10] not_tchar
    by (auto simp: request_line_def lit_def)
  moreover have "10 \<notin> set (header_line nv)" if "\<not> skip_header nv" for nv
  proof -
    have "10 \<notin> set (fst nv)"
      using that token_no_sep [of "fst nv" 10] not_tchar by (auto simp: skip_header_def)
    with lossy_no_lf [of "fst nv" "snd nv"] that show ?thesis by (simp add: header_line_def)
  qed
  ultimately show ?thesis
    using assms(5,6) by (auto simp: head_lines_def split: option.splits)
qed

lemma lf_bytes: "10 \<notin> set l \<Longrightarrow> (10 :: u8) \<notin> set (as_bytes l)"
  using ascii_in_as_bytes [of 10 l] by simp

lemma head_splits:
  assumes "encode_request_head meth scheme authority path headers options_line = Ok bs"
    and "\<And>l. options_line = Some l \<Longrightarrow> 10 \<notin> set l"
  shows "split_char 10 bs = map as_bytes (head_lines meth scheme authority path headers options_line)"
proof -
  let ?ls = "head_lines meth scheme authority path headers options_line"
  have ok: "is_http_token meth" "is_request_line_safe scheme" "is_request_line_safe authority"
    "is_request_line_safe path"
    using assms(1) encode_request_head_Ok_iff by blast+
  have "10 \<notin> set w" if w: "w \<in> set (map as_bytes ?ls)" for w :: bytes
  proof -
    from w obtain l where l: "l \<in> set ?ls" "w = as_bytes l" by auto
    have "10 \<notin> set l" by (rule head_lines_no_lf [OF ok _ l(1)]) (rule assms(2))
    with l(2) show ?thesis by (simp add: lf_bytes)
  qed
  then have "\<forall>w \<in> set (map as_bytes ?ls). (10::u8) \<notin> set w" by blast
  moreover have "map as_bytes ?ls \<noteq> []" by (simp add: head_lines_def)
  moreover have "bs = join [10] (map as_bytes ?ls)"
    using encode_request_head_join [OF assms(1)] as_bytes_join [of 10 ?ls] by simp
  ultimately show ?thesis using split_char_join [of "map as_bytes ?ls" 10] by simp
qed

lemma request_line_splits:
  assumes "is_http_token meth"
  shows "split_once 32 (as_bytes (request_line meth scheme authority path)) =
    Some (as_bytes meth, as_bytes (scheme @ lit ''://'' @ authority @ path))"
proof -
  have "(32 :: u8) \<notin> set (as_bytes meth)"
    using assms not_tchar by (auto simp: is_http_token_def list_all_iff)
  then show ?thesis
    by (simp add: split_once_Some_iff request_line_def as_bytes_colon)
qed

lemma header_line_splits:
  assumes "\<not> skip_header nv"
  shows "split_once 58 (as_bytes (header_line nv)) =
    Some (as_bytes (fst nv), 32 # as_bytes (from_utf8_lossy (snd nv)))"
proof -
  have "(58 :: u8) \<notin> set (as_bytes (fst nv))"
    using assms not_tchar by (auto simp: skip_header_def is_http_token_def list_all_iff)
  then show ?thesis
    by (simp add: split_once_Some_iff header_line_def as_bytes_colon)
qed

section \<open>Hex and the trailers line\<close>

lemma hex_digit_props:
  assumes "n < 16"
  shows "to_digit 16 (hex_digit n) = Some n" "hex_digit n < 0x80" "\<not> is_whitespace (hex_digit n)"
    "hex_digit n \<noteq> 59"
  using assms by (auto simp: hex_digit_def to_digit_def is_whitespace_def)

lemma byte_nibbles: "unat (b :: u8) div 16 < 16" "unat b mod 16 < 16"
  using unsigned_less [of b, where ?'a = nat] by auto

lemma hex_encode_Cons:
  "hex_encode (b # bs) = hex_digit (unat b div 16) # hex_digit (unat b mod 16) # hex_encode bs"
  by (simp add: hex_encode_def)

lemma as_bytes_hex:
  "as_bytes (hex_encode (b # bs)) =
     of_nat (hex_digit (unat b div 16)) # of_nat (hex_digit (unat b mod 16)) # as_bytes (hex_encode bs)"
  by (simp add: hex_encode_Cons as_bytes_colon hex_digit_props byte_nibbles)

lemma hex_pairs_encode: "hex_pairs (as_bytes (hex_encode bs)) = Some bs \<and>
    length (as_bytes (hex_encode bs)) = 2 * length bs"
proof (induction bs)
  case Nil
  then show ?case by (simp add: hex_encode_def)
next
  case (Cons b bs)
  have "unat (of_nat (hex_digit n) :: u8) = hex_digit n" if "n < 16" for n
    using hex_digit_props(2) [OF that] by (simp add: unat_of_nat_u8)
  moreover have "(of_nat (unat b div 16 * 16 + unat b mod 16) :: u8) = b"
    by (simp only: div_mult_mod_eq) simp
  ultimately show ?case
    using Cons byte_nibbles [of b] by (simp add: as_bytes_hex hex_digit_props)
qed

lemma hex_roundtrip: "hex_decode (hex_encode bs) = Some bs"
  using hex_pairs_encode [of bs] by (simp add: hex_decode_def Let_def)

interpretation hex_codec: codec hex_encode hex_decode
  by unfold_locales (rule hex_roundtrip)

lemma hex_encode_set: "c \<in> set (hex_encode bs) \<Longrightarrow> \<not> is_whitespace c \<and> c \<noteq> 59"
  using hex_digit_props byte_nibbles by (auto simp: hex_encode_def)

lemma trailer_pair_roundtrip:
  assumes "is_http_token n"
  shows "parse_trailer_pair (n @ [61] @ hex_encode v) = [(n, v)]"
proof -
  have "\<not> is_whitespace 61" by (simp add: is_whitespace_def)
  then have "\<forall>c \<in> set (n @ [61] @ hex_encode v). \<not> is_whitespace c"
    using token_no_whitespace [OF assms] hex_encode_set [of _ v] by auto
  then have "trim (n @ [61] @ hex_encode v) = n @ [61] @ hex_encode v"
    by (rule trim_no_whitespace)
  moreover have "trim n = n" "trim (hex_encode v) = hex_encode v"
    using token_no_whitespace [OF assms] hex_encode_set [of _ v]
    by (auto intro!: trim_no_whitespace)
  moreover have "61 \<notin> set n" using token_no_sep [OF assms, of 61] not_tchar by simp
  then have "split_once 61 (n @ [61] @ hex_encode v) = Some (n, hex_encode v)"
    by (simp add: split_once_Some_iff)
  ultimately show ?thesis by (simp add: parse_trailer_pair_def Let_def hex_roundtrip)
qed

lemma trailers_value_cases:
  "case format_request_trailers_value es of
     Some value \<Rightarrow> parse_trailers_line value = filter (\<lambda>nv. is_http_token (fst nv)) es
   | None \<Rightarrow> filter (\<lambda>nv. is_http_token (fst nv)) es = []"
proof -
  let ?ks = "filter (\<lambda>nv. is_http_token (fst nv)) es"
  let ?part = "\<lambda>nv. fst nv @ [61] @ hex_encode (snd nv)"
  show ?thesis
  proof (cases "?ks = []")
    case True
    then show ?thesis by (simp add: format_request_trailers_value_def)
  next
    case False
    have no: "59 \<notin> set (?part nv)" if "is_http_token (fst nv)" for nv
      using token_no_sep [OF that, of 59] not_tchar hex_encode_set [of 59 "snd nv"] by auto
    have "split_char 59 (join [59] (map ?part ?ks)) = map ?part ?ks"
      using False no by (intro split_char_join) auto
    moreover have "concat (map (parse_trailer_pair \<circ> ?part) ?ks) = ?ks"
    proof -
      have "map (parse_trailer_pair \<circ> ?part) ?ks = map (\<lambda>nv. [nv]) ?ks"
        using trailer_pair_roundtrip by (auto simp: comp_def)
      then show ?thesis by (simp only: concat_map_singleton) simp
    qed
    moreover have "format_request_trailers_value es = Some (join [59] (map ?part ?ks))"
      using False by (simp add: format_request_trailers_value_def Let_def lit_seps)
    ultimately show ?thesis by (simp add: parse_trailers_line_def del: map_map add: map_map)
  qed
qed

lemma trailers_value_parse:
  "format_request_trailers_value es = Some value \<Longrightarrow>
     parse_trailers_line value = filter (\<lambda>nv. is_http_token (fst nv)) es"
  using trailers_value_cases [of es] by simp

section \<open>Properties\<close>

text \<open>
  C6. A head cannot be forged: when a request is encoded, splitting the frame's bytes at line
  feeds gives back exactly the request line, one line per header that was let through, in order,
  and the options line, if any; the request line splits at its first space into the method and the
  URL, each header line at its first colon into the name and the value.  So no method, authority,
  path, header name or value can add a line, and a line with the reserved options key is the
  runtime's own.
\<close>

theorem encode_request_head_unambiguous:
  assumes "encode_request_head meth scheme authority path headers options_line = Ok bs"
    and "options_line = Option.bind opts format_request_options_line"
  shows "split_char 10 bs =
      as_bytes (request_line meth scheme authority path) #
      map (\<lambda>nv. as_bytes (header_line nv)) (filter (\<lambda>nv. \<not> skip_header nv) headers) @
      (case options_line of Some l \<Rightarrow> [as_bytes l] | None \<Rightarrow> []) \<and>
    split_once 32 (as_bytes (request_line meth scheme authority path)) =
      Some (as_bytes meth, as_bytes (scheme @ lit ''://'' @ authority @ path)) \<and>
    list_all (\<lambda>nv. split_once 58 (as_bytes (header_line nv)) =
        Some (as_bytes (fst nv), 32 # as_bytes (from_utf8_lossy (snd nv))) \<and>
        \<not> eq_ignore_ascii_case (fst nv) REQUEST_OPTIONS_HEAD_KEY)
      (filter (\<lambda>nv. \<not> skip_header nv) headers)"
proof -
  have tok: "is_http_token meth" using assms(1) encode_request_head_Ok_iff by blast
  have "10 \<notin> set l" if "options_line = Some l" for l
    using that assms(2) options_line_no_lf by (auto simp: bind_eq_Some_conv)
  from head_splits [OF assms(1) this] have
    "split_char 10 bs = map as_bytes (head_lines meth scheme authority path headers options_line)" .
  then have "split_char 10 bs =
      as_bytes (request_line meth scheme authority path) #
      map (\<lambda>nv. as_bytes (header_line nv)) (filter (\<lambda>nv. \<not> skip_header nv) headers) @
      (case options_line of Some l \<Rightarrow> [as_bytes l] | None \<Rightarrow> [])"
    by (simp add: head_lines_def split: option.splits)
  then show ?thesis
    using request_line_splits [OF tok] header_line_splits by (auto simp: list_all_iff skip_header_def)
qed

theorem encode_request_head_unambiguous_witness:
  "\<exists>bs. encode_request_head (lit ''GET'') (lit ''https'') (lit ''a.b'') (lit ''/x'')
       [(lit ''accept'', blit ''*''), (lit ''evil'', blit ''a'' @ [10])] None = Ok bs \<and>
     length (split_char 10 bs) = 2"
proof -
  let ?hs = "[(lit ''accept'', blit ''*''), (lit ''evil'', blit ''a'' @ [10])]"
  have tok: "is_http_token (lit ''GET'')" "is_http_token (lit ''accept'')"
    by (simp_all add: is_http_token_def as_bytes_def utf8_char_def utf8_code_def lit_def is_tchar_def)
  have "is_request_line_safe (lit ''https'')" "is_request_line_safe (lit ''a.b'')"
    "is_request_line_safe (lit ''/x'')"
    by (simp_all add: is_request_line_safe_def lit_def is_whitespace_def is_control_def)
  then obtain bs where bs: "encode_request_head (lit ''GET'') (lit ''https'') (lit ''a.b'') (lit ''/x'') ?hs None = Ok bs"
    using tok(1) encode_request_head_Ok_iff by blast
  have "filter (\<lambda>nv. \<not> skip_header nv) ?hs = [(lit ''accept'', blit ''*'')]"
    using tok(2) by (simp add: skip_header_def eq_ignore_ascii_case_def to_ascii_lowercase_def lit_def
        blit_def REQUEST_OPTIONS_HEAD_KEY_def ascii_lower_def is_ascii_uppercase_def)
  with encode_request_head_unambiguous [OF bs, of None] bs show ?thesis by auto
qed

text \<open>
  The head encoder's errors: it refuses exactly the requests whose method is not a token, and
  then those whose scheme, authority or path holds whitespace or a control character; a bad header
  never fails the request.
\<close>

theorem encode_request_head_errors:
  "encode_request_head meth scheme authority path headers options_line = Err e \<longleftrightarrow>
     (if \<not> is_http_token meth then e = HttpRequestMethodInvalid
      else (\<exists>c. c \<in> set (scheme @ authority @ path) \<and> (is_whitespace c \<or> is_control c)) \<and>
           e = HttpRequestUriInvalid)"
  by (auto simp: encode_request_head_def Let_def is_request_line_safe_def list_all_iff)

text \<open>
  Trailers survive the line format: parsing the value written for a trailer list gives back
  its entries with token names, in order and with arbitrary bytes as values; nothing is written
  exactly when there is no such entry.
\<close>

theorem trailers_roundtrip:
  "case format_request_trailers_value es of
     Some value \<Rightarrow> parse_trailers_line value = filter (\<lambda>nv. is_http_token (fst nv)) es
   | None \<Rightarrow> filter (\<lambda>nv. is_http_token (fst nv)) es = []"
  by (rule trailers_value_cases)

end
