(* ===== verification/Wasi_Http_Handle.thy ===== *)
theory Wasi_Http_Handle
  imports Http_Head Frames
begin

text \<open>
  \<open>handler::handle\<close> of \<open>src/wasi_http.rs\<close>: the in-process echo and the P3 transport path.  The
  transport path frames the request OUT, then builds the response from the caller's frames.  The
  engine's part (minting streams and futures, and polling the consumers that read the guest's
  body and trailers) is the record \<open>http_env\<close>; the consumers themselves are modelled.
\<close>

section \<open>Reading the guest's body\<close>

datatype StreamResult = SCompleted | SDropped | SCancelled

text \<open>One \<open>poll_consume\<close>: whether it must finish, how many items are available, and the read.\<close>

record 'i source_poll =
  poll_finish :: bool
  poll_available :: nat
  poll_read :: "('i list, rstr) result"

text \<open>\<open>RequestBodyConsumer\<close>: the poll's answer and the batch it sends to the driver.\<close>

definition body_poll_consume :: "u8 source_poll \<Rightarrow> (StreamResult, rstr) result \<times> bytes option" where
  "body_poll_consume p =
     (if poll_finish p then (Ok SCancelled, None)
      else if poll_available p = 0 then (Ok SDropped, None)
      else case poll_read p of
        Inl e \<Rightarrow> (Err (lit ''request body read failed: '' @ e), None)
      | Inr buffer \<Rightarrow> (Ok SCompleted, Some buffer))"

text \<open>The batches the driver receives: the consumer is polled until it is done, then dropped.\<close>

fun body_batches :: "u8 source_poll list \<Rightarrow> bytes list" where
  "body_batches [] = []"
| "body_batches (p # ps) =
     (case body_poll_consume p of
        (Inr SCompleted, Some batch) \<Rightarrow> batch # body_batches ps
      | _ \<Rightarrow> [])"

section \<open>Reading the guest's trailers\<close>

type_synonym trailers_value = "(u32 option, ErrorCode) result"

text \<open>\<open>RequestTrailersConsumer\<close>: the poll's answer and the value it sends, if any.\<close>

definition trailers_poll_consume ::
  "trailers_value source_poll \<Rightarrow> (unit, rstr) result \<times> trailers_value option" where
  "trailers_poll_consume p =
     (if poll_finish p then (Ok (), None)
      else if poll_available p = 0 then (Ok (), None)
      else case poll_read p of
        Inl e \<Rightarrow> (Err (lit ''request trailers read failed: '' @ e), None)
      | Inr buffer \<Rightarrow> (Ok (), case buffer of [] \<Rightarrow> None | value # _ \<Rightarrow> Some value))"

text \<open>
  The oneshot as the driver sees it at executor round \<open>r\<close>: pending until the consumer's poll, then
  the value, or cancelled (\<open>Err ()\<close>) when the consumer went away without sending.
\<close>

definition trailers_rx ::
  "(nat \<times> trailers_value source_poll) option \<Rightarrow> nat \<Rightarrow> (trailers_value, unit) result option" where
  "trailers_rx poll r =
     (case poll of
        None \<Rightarrow> None
      | Some (k, p) \<Rightarrow>
          if r < k then None
          else Some (case snd (trailers_poll_consume p) of Some v \<Rightarrow> Ok v | None \<Rightarrow> Err ()))"

definition YIELD_BUDGET :: nat where "YIELD_BUDGET = 64"

text \<open>\<open>select(rx, budget)\<close>: each round polls \<open>rx\<close> first, then the countdown.\<close>

fun select_rounds :: "(nat \<Rightarrow> 'v option) \<Rightarrow> nat \<Rightarrow> nat \<Rightarrow> 'v option" where
  "select_rounds rx r remaining =
     (case rx r of
        Some v \<Rightarrow> Some v
      | None \<Rightarrow> (case remaining of 0 \<Rightarrow> None | Suc n \<Rightarrow> select_rounds rx (Suc r) n))"

definition await_trailers_bounded ::
  "(nat \<Rightarrow> (trailers_value, unit) result option) \<Rightarrow> (trailers_value, unit) result option" where
  "await_trailers_bounded rx = select_rounds rx 0 YIELD_BUDGET"

declare select_rounds.simps [simp del]

section \<open>The engine\<close>

record ('s, 't, 'x) http_env =
  env_minter :: "('s, 't, 'x) minter"
  pipe_body :: "'s \<Rightarrow> (u8 source_poll list, rstr) result"
  pipe_trailers :: "'t \<Rightarrow> ((nat \<times> trailers_value source_poll) option, rstr) result"
  mint_producer :: "bytes list \<Rightarrow> ('s, rstr) result"
  debug_fmt :: "rstr \<Rightarrow> rstr"

section \<open>The response body\<close>

text \<open>\<open>ResponseBodyProducer::poll_produce\<close> on the frames left and whether the caller has closed.\<close>

datatype produce_poll = ProduceReady StreamResult "bytes option" | ProducePending

fun poll_produce :: "bytes list \<Rightarrow> bool \<Rightarrow> produce_poll \<times> bytes list" where
  "poll_produce (chunk # rest) closed = (ProduceReady SCompleted (Some chunk), rest)"
| "poll_produce [] True = (ProduceReady SDropped None, [])"
| "poll_produce [] False = (ProducePending, [])"

section \<open>The transport path\<close>

abbreviation internal :: "string \<Rightarrow> ErrorCode" where
  "internal s \<equiv> InternalError (Some (lit s))"

definition scheme_str :: "SchemeOwned option \<Rightarrow> rstr" where
  "scheme_str s =
     (case s of
        Some OHttp \<Rightarrow> lit ''http''
      | Some OHttps \<Rightarrow> lit ''https''
      | Some (OSchemeOther x) \<Rightarrow> x
      | None \<Rightarrow> lit ''https'')"

definition emit :: "out_event \<Rightarrow> ('s, 't) WasiHttpHost \<Rightarrow> ('s, 't) WasiHttpHost" where
  "emit ev h = h\<lparr>transport := map_option (\<lambda>tr. tr\<lparr>tr_out := tr_out tr @ [ev]\<rparr>) (transport h)\<rparr>"

text \<open>The HEAD payload for a stored request: its metadata, header entries and options line.\<close>

definition request_head ::
  "('s, 't) WasiHttpHost \<Rightarrow> ('s, 't) RequestData \<Rightarrow> (bytes, ErrorCode) result" where
  "request_head h req =
     encode_request_head (method_str (rq_method req)) (scheme_str (rq_scheme req))
       (unwrap_or [] (rq_authority req)) (unwrap_or (lit ''/'') (rq_path_with_query req))
       (case table_get (fields_tab h) (rq_headers req) of Some f \<Rightarrow> entries f | None \<Rightarrow> [])
       (Option.bind (Option.bind (rq_options req) (table_get (options h))) format_request_options_line)"

text \<open>Step (1): emit the head, take the stashed body and trailers and the inbound receiver.\<close>

definition send_head ::
  "u32 \<Rightarrow> ('s, 't) WasiHttpHost \<Rightarrow>
    (bytes list option \<times> 's option \<times> 't option, ErrorCode) result \<times> ('s, 't) WasiHttpHost" where
  "send_head request h =
     (case table_get (requests h) request of
        None \<Rightarrow> (Err (internal ''wasi:http handler: unknown request resource''), h)
      | Some req \<Rightarrow>
          (case request_head h req of
             Inl e \<Rightarrow> (Err e, h)
           | Inr head \<Rightarrow>
               (let h1 = h\<lparr>requests := table_modify request
                             (\<lambda>r. r\<lparr>rq_body := None, rq_trailers := None\<rparr>) (requests h)\<rparr>
                in case transport h1 of
                     None \<Rightarrow> (Err (internal ''wasi:http handler: transport missing''), h1)
                   | Some tr \<Rightarrow>
                       (let h2 = emit (OutChunk (encode Head head)) h1
                        in (Ok (tr_inbound tr, rq_body req, rq_trailers req),
                            h2\<lparr>transport := map_option (\<lambda>tr. tr\<lparr>tr_inbound := None\<rparr>) (transport h2)\<rparr>)))))"

text \<open>Step (1b): one BODY frame per non-empty batch.\<close>

fun send_batches :: "bytes list \<Rightarrow> ('s, 't) WasiHttpHost \<Rightarrow> ('s, 't) WasiHttpHost" where
  "send_batches [] h = h"
| "send_batches (chunk # rest) h =
     (if chunk = [] then send_batches rest h
      else send_batches rest (emit (OutChunk (encode Body chunk)) h))"

definition send_body ::
  "('s, 't, 'x) http_env \<Rightarrow> 's option \<Rightarrow> ('s, 't) WasiHttpHost \<Rightarrow>
    (unit, ErrorCode) result \<times> ('s, 't) WasiHttpHost" where
  "send_body env body h =
     (case body of
        None \<Rightarrow> (Ok (), h)
      | Some s \<Rightarrow>
          (case pipe_body env s of
             Inl e \<Rightarrow> (Err (InternalError (Some e)), h)
           | Inr polls \<Rightarrow> (Ok (), send_batches (body_batches polls) h)))"

text \<open>Step (1c): the TRAILERS frame, if the guest's trailers resolve in time and hold a token name.\<close>

definition send_trailers ::
  "('s, 't, 'x) http_env \<Rightarrow> 't option \<Rightarrow> ('s, 't) WasiHttpHost \<Rightarrow>
    (unit, ErrorCode) result \<times> ('s, 't) WasiHttpHost" where
  "send_trailers env future h =
     (case future of
        None \<Rightarrow> (Ok (), h)
      | Some t \<Rightarrow>
          (case pipe_trailers env t of
             Inl e \<Rightarrow> (Err (InternalError (Some e)), h)
           | Inr poll \<Rightarrow>
               (case await_trailers_bounded (trailers_rx poll) of
                  Some (Inr (Inr (Some fields_rep))) \<Rightarrow>
                    (case Option.bind (table_get (fields_tab h) fields_rep)
                            (\<lambda>f. format_request_trailers_value (entries f)) of
                       Some value \<Rightarrow> (Ok (), emit (OutChunk (encode Trailers (as_bytes value))) h)
                     | None \<Rightarrow> (Ok (), h))
                | _ \<Rightarrow> (Ok (), h))))"

section \<open>The response head\<close>

record response_head =
  rh_status :: nat
  rh_headers :: "(rstr \<times> bytes) list"
  rh_trailers :: "(rstr \<times> bytes) list option"

definition parse_response_line :: "response_head \<Rightarrow> rstr \<Rightarrow> response_head" where
  "parse_response_line rh line =
     (if line = [] then rh
      else case split_once 58 line of
        None \<Rightarrow> rh
      | Some (name0, value0) \<Rightarrow>
          (let name = trim name0; value = trim_start value0 in
           if eq_ignore_ascii_case name TRAILERS_HEAD_KEY
           then rh\<lparr>rh_trailers := Some (parse_trailers_line value)\<rparr>
           else rh\<lparr>rh_headers := rh_headers rh @ [(name, as_bytes value)]\<rparr>))"

definition parse_response_head ::
  "(rstr \<Rightarrow> rstr) \<Rightarrow> bytes \<Rightarrow> (response_head, ErrorCode) result" where
  "parse_response_head dbg head_frame =
     (case split_char 10 (from_utf8_lossy head_frame) of
        [] \<Rightarrow> Err (InternalError None)
      | status_line # lines \<Rightarrow>
          (case parse_unsigned 65535 (trim status_line) of
             None \<Rightarrow> Err (InternalError (Some
               (lit ''wasi:http handler: malformed response status line '' @ dbg status_line)))
           | Some status \<Rightarrow>
               Ok (foldl parse_response_line
                     \<lparr>rh_status = status, rh_headers = [], rh_trailers = None\<rparr> lines)))"

text \<open>Step (3): the response resource over its headers, trailers and the frames still to come.\<close>

definition build_response ::
  "('s, 't, 'x) http_env \<Rightarrow> response_head \<Rightarrow> bytes list \<Rightarrow> ('s, 't) WasiHttpHost \<Rightarrow>
    (u32, ErrorCode) result \<times> ('s, 't) WasiHttpHost" where
  "build_response env rh rest h =
     (case table_insert \<lparr>entries = rh_headers rh, immutable = False\<rparr> (fields_tab h) of
        (headers_rep, ft) \<Rightarrow>
          (case (case rh_trailers rh of
                   None \<Rightarrow> (None, ft)
                 | Some es \<Rightarrow>
                     (case table_insert \<lparr>entries = es, immutable = True\<rparr> ft of
                        (rep, ft') \<Rightarrow> (Some rep, ft'))) of
             (trailers_rep, ft2) \<Rightarrow>
               (let h = h\<lparr>fields_tab := ft2\<rparr> in
                case mint_producer env rest of
                  Inl e \<Rightarrow> (Err (InternalError (Some e)), h)
                | Inr body \<Rightarrow>
                    (case mint_trailers (env_minter env) (Ok trailers_rep) of
                       Inl e \<Rightarrow> (Err (InternalError (Some e)), h)
                     | Inr trailers \<Rightarrow>
                         (case table_insert \<lparr>rs_status_code = of_nat (rh_status rh),
                                 rs_headers = headers_rep, rs_body = Some body,
                                 rs_trailers = Some trailers\<rparr> (responses h) of
                            (rep, rt) \<Rightarrow> (Ok rep, h\<lparr>responses := rt\<rparr>))))))"

definition read_response ::
  "('s, 't, 'x) http_env \<Rightarrow> bytes list option \<Rightarrow> ('s, 't) WasiHttpHost \<Rightarrow>
    (u32, ErrorCode) result \<times> ('s, 't) WasiHttpHost" where
  "read_response env inbound h =
     (case inbound of
        None \<Rightarrow> (Err (internal ''wasi:http handler: inbound stream already consumed''), h)
      | Some [] \<Rightarrow>
          (Err (internal ''wasi:http handler: caller closed inbound before sending a head''), h)
      | Some (head_frame # rest) \<Rightarrow>
          (case parse_response_head (debug_fmt env) head_frame of
             Inl e \<Rightarrow> (Err e, h)
           | Inr rh \<Rightarrow> build_response env rh rest h))"

definition handle_via_transport ::
  "('s, 't, 'x) http_env \<Rightarrow> u32 \<Rightarrow> ('s, 't) WasiHttpHost \<Rightarrow>
    (u32, ErrorCode) result \<times> ('s, 't) WasiHttpHost" where
  "handle_via_transport env request h =
     (case send_head request h of
        (Inl e, h) \<Rightarrow> (Err e, h)
      | (Inr (inbound, body, trailers), h) \<Rightarrow>
          (case send_body env body h of
             (Inl e, h) \<Rightarrow> (Err e, h)
           | (Inr _, h) \<Rightarrow>
               (case send_trailers env trailers h of
                  (Inl e, h) \<Rightarrow> (Err e, h)
                | (Inr _, h) \<Rightarrow> read_response env inbound (emit OutEnd h))))"

text \<open>The same up to the end mark: what is sent, and the receiver the response will be read from.\<close>

definition transport_request ::
  "('s, 't, 'x) http_env \<Rightarrow> u32 \<Rightarrow> ('s, 't) WasiHttpHost \<Rightarrow>
    (bytes list option, ErrorCode) result \<times> ('s, 't) WasiHttpHost" where
  "transport_request env request h =
     (case send_head request h of
        (Inl e, h) \<Rightarrow> (Err e, h)
      | (Inr (inbound, body, trailers), h) \<Rightarrow>
          (case send_body env body h of
             (Inl e, h) \<Rightarrow> (Err e, h)
           | (Inr _, h) \<Rightarrow>
               (case send_trailers env trailers h of
                  (Inl e, h) \<Rightarrow> (Err e, h)
                | (Inr _, h) \<Rightarrow> (Ok inbound, emit OutEnd h))))"

lemma transport_request_then_read:
  "handle_via_transport env request h =
     (case transport_request env request h of
        (Inl e, h) \<Rightarrow> (Err e, h)
      | (Inr inbound, h) \<Rightarrow> read_response env inbound h)"
  by (simp add: handle_via_transport_def transport_request_def split: sum.split prod.split)

section \<open>handle\<close>

definition handle_echo ::
  "('s, 't, 'x) http_env \<Rightarrow> u32 \<Rightarrow> ('s, 't) WasiHttpHost \<Rightarrow>
    (u32, ErrorCode) result \<times> ('s, 't) WasiHttpHost" where
  "handle_echo env request h =
     (case table_get (requests h) request of
        None \<Rightarrow> (Err (internal ''wasi:http handler: unknown request resource''), h)
      | Some req \<Rightarrow>
          (let summary = method_str (rq_method req) @ lit '' '' @ unwrap_or [] (rq_authority req) @
                         unwrap_or (lit ''/'') (rq_path_with_query req) in
           case table_insert \<lparr>entries = [(lit ''x-hellohq'', blit ''ok'')], immutable = False\<rparr>
                  (fields_tab h) of
             (headers_rep, ft) \<Rightarrow>
               (let h = h\<lparr>fields_tab := ft\<rparr> in
                case mint_stream (env_minter env) (as_bytes summary) of
                  Inl e \<Rightarrow> (Err (InternalError (Some e)), h)
                | Inr body \<Rightarrow>
                    (case mint_trailers (env_minter env) (Ok None) of
                       Inl e \<Rightarrow> (Err (InternalError (Some e)), h)
                     | Inr trailers \<Rightarrow>
                         (case table_insert \<lparr>rs_status_code = 200, rs_headers = headers_rep,
                                 rs_body = Some body, rs_trailers = Some trailers\<rparr> (responses h) of
                            (rep, rt) \<Rightarrow> (Ok rep, h\<lparr>responses := rt\<rparr>))))))"

definition handle ::
  "('s, 't, 'x) http_env \<Rightarrow> u32 \<Rightarrow> ('s, 't) WasiHttpHost \<Rightarrow>
    (u32, ErrorCode) result \<times> ('s, 't) WasiHttpHost" where
  "handle env request h =
     (if transport h \<noteq> None then handle_via_transport env request h
      else handle_echo env request h)"

section \<open>What is sent\<close>

definition sent :: "('s, 't) WasiHttpHost \<Rightarrow> out_event list" where
  "sent h = (case transport h of Some tr \<Rightarrow> tr_out tr | None \<Rightarrow> [])"

text \<open>The guest's body and trailers as the transport sees them.\<close>

definition guest_batches :: "('s, 't, 'x) http_env \<Rightarrow> 's option \<Rightarrow> (bytes list, rstr) result" where
  "guest_batches env body =
     (case body of None \<Rightarrow> Ok [] | Some s \<Rightarrow> map_ok body_batches (pipe_body env s))"

definition resolved_trailers ::
  "('s, 't) WasiHttpHost \<Rightarrow> (trailers_value, unit) result option \<Rightarrow> rstr option" where
  "resolved_trailers h v =
     (case v of
        Some (Inr (Inr (Some rep))) \<Rightarrow>
          Option.bind (table_get (fields_tab h) rep) (\<lambda>f. format_request_trailers_value (entries f))
      | _ \<Rightarrow> None)"

definition guest_trailers ::
  "('s, 't, 'x) http_env \<Rightarrow> ('s, 't) WasiHttpHost \<Rightarrow> 't option \<Rightarrow> (rstr option, rstr) result" where
  "guest_trailers env h future =
     (case future of
        None \<Rightarrow> Ok None
      | Some t \<Rightarrow>
          map_ok (\<lambda>poll. resolved_trailers h (await_trailers_bounded (trailers_rx poll)))
            (pipe_trailers env t))"

lemma emit_transport [simp]: "transport (emit ev h) = None \<longleftrightarrow> transport h = None"
  by (cases "transport h") (simp_all add: emit_def)

lemma emit_fields [simp]: "fields_tab (emit ev h) = fields_tab h"
  by (simp add: emit_def)

lemma sent_emit: "transport h \<noteq> None \<Longrightarrow> sent (emit ev h) = sent h @ [ev]"
  by (auto simp: emit_def sent_def)

lemma send_batches_effect:
  "transport h \<noteq> None \<Longrightarrow>
     transport (send_batches bs h) \<noteq> None \<and> fields_tab (send_batches bs h) = fields_tab h \<and>
     sent (send_batches bs h) = sent h @ map OutChunk (map (encode Body) (filter (\<lambda>b. b \<noteq> []) bs))"
proof (induction bs arbitrary: h)
  case (Cons b bs)
  show ?case
    using Cons.IH [of h] Cons.IH [of "emit (OutChunk (encode Body b)) h"] Cons.prems
    by (simp add: sent_emit del: not_None_eq)
qed simp

lemma send_body_eq:
  "send_body env b h =
     (case guest_batches env b of
        Inl e \<Rightarrow> (Err (InternalError (Some e)), h)
      | Inr bs \<Rightarrow> (Ok (), send_batches bs h))"
  by (auto simp: send_body_def guest_batches_def split: option.splits sum.splits)

lemma send_trailers_eq:
  "send_trailers env t h =
     (case guest_trailers env h t of
        Inl e \<Rightarrow> (Err (InternalError (Some e)), h)
      | Inr None \<Rightarrow> (Ok (), h)
      | Inr (Some value) \<Rightarrow> (Ok (), emit (OutChunk (encode Trailers (as_bytes value))) h))"
proof (cases t)
  case (Some f)
  show ?thesis
  proof (cases "pipe_trailers env f")
    case (Inr poll)
    let ?v = "await_trailers_bounded (trailers_rx poll)"
    consider rep where "?v = Some (Inr (Inr (Some rep)))" | "\<nexists>rep. ?v = Some (Inr (Inr (Some rep)))"
      by blast
    then show ?thesis
    proof cases
      case (1 rep)
      with Some Inr show ?thesis
        by (simp add: send_trailers_def guest_trailers_def resolved_trailers_def split: option.split)
    next
      case 2
      then have "resolved_trailers h ?v = None"
        by (auto simp: resolved_trailers_def split: option.splits sum.splits)
      moreover have "send_trailers env t h = (Ok (), h)"
        using 2 Some Inr by (auto simp: send_trailers_def split: option.split sum.split)
      ultimately show ?thesis using Some Inr by (simp add: guest_trailers_def)
    qed
  qed (use Some in \<open>simp add: send_trailers_def guest_trailers_def\<close>)
qed (simp add: send_trailers_def guest_trailers_def)

lemma build_response_sent: "transport (snd (build_response env rh rest h)) = transport h"
  by (auto simp: build_response_def Let_def split: prod.splits option.splits sum.splits)

lemma read_response_sent: "sent (snd (read_response env inbound h)) = sent h"
  by (auto simp: read_response_def sent_def build_response_sent split: option.splits list.splits sum.splits)

lemma send_head_Ok:
  assumes "send_head r h = (Inr (inbound, body, trailers), h1)"
  shows "\<exists>req tr head. table_get (requests h) r = Some req \<and> request_head h req = Ok head \<and>
    transport h = Some tr \<and> inbound = tr_inbound tr \<and> body = rq_body req \<and> trailers = rq_trailers req \<and>
    transport h1 \<noteq> None \<and> sent h1 = sent h @ [OutChunk (encode Head head)] \<and> fields_tab h1 = fields_tab h"
  using assms
  by (auto simp: send_head_def Let_def emit_def sent_def split: option.splits sum.splits)

lemma send_head_Err: "send_head r h = (Inl e, h1) \<Longrightarrow> sent h1 = sent h"
  by (auto simp: send_head_def Let_def sent_def split: option.splits sum.splits)

lemma send_head_ready:
  assumes "table_get (requests h) r = Some req" "request_head h req = Ok head" "transport h = Some tr"
  obtains h1 where "send_head r h = (Inr (tr_inbound tr, rq_body req, rq_trailers req), h1)"
  using assms by (simp add: send_head_def Let_def)

definition chunks_of :: "out_event list \<Rightarrow> bytes list" where
  "chunks_of evs = concat (map (\<lambda>e. case e of OutChunk c \<Rightarrow> [c] | OutEnd \<Rightarrow> []) evs)"

lemma chunks_of_simps [simp]:
  "chunks_of [] = []" "chunks_of (OutChunk c # es) = c # chunks_of es"
  "chunks_of (OutEnd # es) = chunks_of es" "chunks_of (es @ fs) = chunks_of es @ chunks_of fs"
  "chunks_of (map OutChunk cs) = cs"
  by (simp_all add: chunks_of_def) (induction cs, simp_all)

lemma concat_nonempty: "concat (filter (\<lambda>b. b \<noteq> []) bs) = concat bs"
  by (induction bs) auto

lemma transport_sends:
  assumes head: "send_head r h = (Inr (inbound, body, trailers), h1)"
    and bs: "guest_batches env body = Ok bs"
  obtains req hd where "table_get (requests h) r = Some req" "request_head h req = Ok hd"
    "body = rq_body req" "trailers = rq_trailers req" "inbound = Option.bind (transport h) tr_inbound"
    "transport (send_batches bs h1) \<noteq> None" "fields_tab (send_batches bs h1) = fields_tab h"
    "sent (send_batches bs h1) = sent h @ map OutChunk (request_frames hd (filter (\<lambda>b. b \<noteq> []) bs) None)"
proof -
  from send_head_Ok [OF head] obtain req tr hd where
    "table_get (requests h) r = Some req" "request_head h req = Ok hd" "transport h = Some tr"
    "inbound = tr_inbound tr" "body = rq_body req" "trailers = rq_trailers req"
    "transport h1 \<noteq> None" "sent h1 = sent h @ [OutChunk (encode Head hd)]" "fields_tab h1 = fields_tab h"
    by blast
  with send_batches_effect [of h1 bs] show ?thesis
    by (intro that [of req hd]) (simp_all add: request_frames_def)
qed

lemma request_frames_trailers: "request_frames h bs (Some t) = request_frames h bs None @ [encode Trailers t]"
  by (simp add: request_frames_def)

text \<open>Every outcome of the transport path, by how far it got.\<close>

lemma handle_via_transport_sent:
  "\<exists>evs. sent (snd (handle_via_transport env r h)) = sent h @ evs \<and>
     (evs = [] \<or> (\<exists>hd bs t. chunks_of evs = request_frames hd bs t))"
proof (cases "send_head r h")
  case (Pair res h1)
  show ?thesis
  proof (cases res)
    case (Inl e)
    with Pair send_head_Err [of r h e h1] show ?thesis by (simp add: handle_via_transport_def)
  next
    case (Inr x)
    obtain inbound body trailers where x: "x = (inbound, body, trailers)" by (cases x)
    note head = Pair [unfolded Inr x]
    show ?thesis
    proof (cases "guest_batches env body")
      case (Inl e)
      from send_head_Ok [OF head] obtain hd where "sent h1 = sent h @ [OutChunk (encode Head hd)]"
        by blast
      then show ?thesis
        using head Inl
        by (intro exI [of _ "[OutChunk (encode Head hd)]"] conjI disjI2 exI [of _ hd] exI [of _ "[]"]
            exI [of _ None])
          (simp_all add: handle_via_transport_def send_body_eq request_frames_def)
    next
      case (Inr bs)
      from transport_sends [OF head Inr] obtain hd where
        up: "transport (send_batches bs h1) \<noteq> None" and out: "sent (send_batches bs h1) =
          sent h @ map OutChunk (request_frames hd (filter (\<lambda>b. b \<noteq> []) bs) None)" by metis
      let ?h2 = "send_batches bs h1" and ?fs = "filter (\<lambda>b. b \<noteq> []) bs"
      show ?thesis
      proof (cases "guest_trailers env ?h2 trailers")
        case (Inl e)
        then show ?thesis
          using head Inr out
          by (intro exI [of _ "map OutChunk (request_frames hd ?fs None)"])
            (auto simp: handle_via_transport_def send_body_eq send_trailers_eq)
      next
        case (Inr tv)
        let ?evs = "map OutChunk (request_frames hd ?fs (map_option as_bytes tv)) @ [OutEnd]"
        have "sent (snd (handle_via_transport env r h)) = sent h @ ?evs"
          using head \<open>guest_batches env body = Inr bs\<close> Inr out up
          by (cases tv) (simp_all add: handle_via_transport_def send_body_eq send_trailers_eq
              read_response_sent sent_emit request_frames_trailers)
        then show ?thesis by (intro exI [of _ ?evs]) auto
      qed
    qed
  qed
qed

section \<open>Response heads a caller writes\<close>

definition response_head_text ::
  "nat \<Rightarrow> (rstr \<times> rstr) list \<Rightarrow> (rstr \<times> bytes) list option \<Rightarrow> rstr" where
  "response_head_text status hs trailers =
     join [10] (dec_digits status # map (\<lambda>nv. fst nv @ [58, 32] @ snd nv) hs @
       (case Option.bind trailers format_request_trailers_value of
          Some value \<Rightarrow> [TRAILERS_HEAD_KEY @ [58, 32] @ value] | None \<Rightarrow> []))"

text \<open>A header the line format can carry.\<close>

definition carried_header :: "rstr \<times> rstr \<Rightarrow> bool" where
  "carried_header nv \<longleftrightarrow>
     valid_str (fst nv) \<and> valid_str (snd nv) \<and> 58 \<notin> set (fst nv) \<and> 10 \<notin> set (fst nv) \<and>
     10 \<notin> set (snd nv) \<and> trim (fst nv) = fst nv \<and> trim_start (snd nv) = snd nv \<and>
     \<not> eq_ignore_ascii_case (fst nv) TRAILERS_HEAD_KEY"

lemma valid_str_append [simp]: "valid_str (s @ t) \<longleftrightarrow> valid_str s \<and> valid_str t"
  by (auto simp: valid_str_def)

lemma valid_str_ascii: "is_ascii s \<Longrightarrow> valid_str s"
  by (auto simp: is_ascii_def valid_str_def valid_char_def)

lemma valid_str_join: "valid_str sep \<Longrightarrow> list_all valid_str ws \<Longrightarrow> valid_str (join sep ws)"
proof (induction ws rule: induct_list012)
  case 1
  then show ?case by (simp add: valid_str_def)
qed simp_all

lemma trim_start_space: "trim_start (32 # v) = trim_start v"
  by (simp add: trim_start_def is_whitespace_def)

lemma parse_carried_line:
  "carried_header nv \<Longrightarrow> parse_response_line rh (fst nv @ [58, 32] @ snd nv) =
     rh\<lparr>rh_headers := rh_headers rh @ [(fst nv, as_bytes (snd nv))]\<rparr>"
proof -
  assume c: "carried_header nv"
  then have "split_once 58 (fst nv @ [58, 32] @ snd nv) = Some (fst nv, 32 # snd nv)"
    by (simp add: split_once_Some_iff carried_header_def)
  with c show ?thesis
    by (simp add: parse_response_line_def carried_header_def trim_start_space)
qed

lemma parse_carried_lines:
  "list_all carried_header hs \<Longrightarrow>
     foldl parse_response_line rh (map (\<lambda>nv. fst nv @ [58, 32] @ snd nv) hs) =
     rh\<lparr>rh_headers := rh_headers rh @ map (\<lambda>nv. (fst nv, as_bytes (snd nv))) hs\<rparr>"
  by (induction hs arbitrary: rh) (simp_all add: parse_carried_line [simplified])

lemma hex_encode_ascii: "c \<in> set (hex_encode bs) \<Longrightarrow> c < 0x80"
  using hex_digit_props(2) byte_nibbles by (auto simp: hex_encode_def)

lemma trailers_value_chars:
  assumes "format_request_trailers_value es = Some value" and "c \<in> set value"
  shows "c < 0x80 \<and> \<not> is_whitespace c"
proof -
  let ?ks = "filter (\<lambda>nv. is_http_token (fst nv)) es"
  let ?parts = "map (\<lambda>nv. fst nv @ [61] @ hex_encode (snd nv)) ?ks"
  have payload: "value = join [59] ?parts"
    using assms(1) by (simp add: format_request_trailers_value_def Let_def lit_seps split: if_splits)
  have ws: "\<not> is_whitespace 59" "\<not> is_whitespace 61" by (simp_all add: is_whitespace_def)
  have "c = 59 \<or> (\<exists>p \<in> set ?parts. c \<in> set p)"
    using assms(2) subsetD [OF join_set [of "[59]" ?parts], of c] unfolding payload
    by (simp only: list.set Un_iff) blast
  then consider "c = 59" | "c = 61" | n where "is_http_token n" "c \<in> set n"
    | v where "c \<in> set (hex_encode v)" by auto
  then show ?thesis
  proof cases
    case (3 n)
    then show ?thesis using token_ascii token_no_whitespace by blast
  next
    case (4 v)
    then show ?thesis using hex_encode_ascii hex_encode_set by blast
  qed (simp_all add: ws)
qed

lemma trailers_line_parse:
  assumes "format_request_trailers_value es = Some value"
  shows "parse_response_line rh (TRAILERS_HEAD_KEY @ [58, 32] @ value) =
    rh\<lparr>rh_trailers := Some (filter (\<lambda>nv. is_http_token (fst nv)) es)\<rparr>"
proof -
  have "\<forall>c \<in> set value. \<not> is_whitespace c" using trailers_value_chars [OF assms] by blast
  then have start: "trim_start value = value"
    unfolding trim_start_def by (cases "value") auto
  have key: "58 \<notin> set TRAILERS_HEAD_KEY" "trim TRAILERS_HEAD_KEY = TRAILERS_HEAD_KEY"
    by (simp_all add: TRAILERS_HEAD_KEY_def lit_def trim_def trim_start_def trim_end_def is_whitespace_def)
  then have "split_once 58 (TRAILERS_HEAD_KEY @ [58, 32] @ value) = Some (TRAILERS_HEAD_KEY, 32 # value)"
    by (simp add: split_once_Some_iff)
  moreover have "parse_trailers_line value = filter (\<lambda>nv. is_http_token (fst nv)) es"
    using trailers_value_parse assms by blast
  ultimately show ?thesis using key start by (simp add: parse_response_line_def trim_start_space)
qed

lemma dec_digits_line: "10 \<notin> set (dec_digits n)" "trim (dec_digits n) = dec_digits n" "valid_str (dec_digits n)"
proof -
  have "\<not> is_whitespace c" if "c \<in> set (dec_digits n)" for c
    using dec_digits_set [OF that] by (simp add: is_whitespace_def)
  then show "trim (dec_digits n) = dec_digits n" by (intro trim_no_whitespace) blast
  show "10 \<notin> set (dec_digits n)" by (simp add: dec_digits_no)
  show "valid_str (dec_digits n)" using dec_digits_set by (fastforce simp: valid_str_def valid_char_def)
qed

lemma response_text_lines:
  assumes "list_all carried_header hs"
    and "l \<in> set (dec_digits status # map (\<lambda>nv. fst nv @ [58, 32] @ snd nv) hs @
       (case Option.bind trailers format_request_trailers_value of
          Some v \<Rightarrow> [TRAILERS_HEAD_KEY @ [58, 32] @ v] | None \<Rightarrow> []))"
  shows "10 \<notin> set l \<and> valid_str l"
proof -
  have sep: "valid_str (58 # 32 # v) \<longleftrightarrow> valid_str v" for v by (simp add: valid_str_def valid_char_def)
  have ws: "is_whitespace 10" by (simp add: is_whitespace_def)
  consider "l = dec_digits status" | nv where "carried_header nv" "l = fst nv @ [58, 32] @ snd nv"
    | es v where "format_request_trailers_value es = Some v" "l = TRAILERS_HEAD_KEY @ [58, 32] @ v"
  proof (cases "Option.bind trailers format_request_trailers_value")
    case None
    then show ?thesis using assms that by (auto simp: list_all_iff)
  next
    case (Some v)
    then obtain es where "format_request_trailers_value es = Some v" by (auto simp: bind_eq_Some_conv)
    with Some show ?thesis using assms that by (auto simp: list_all_iff)
  qed
  then show ?thesis
  proof cases
    case 1
    then show ?thesis by (simp add: dec_digits_line)
  next
    case (2 nv)
    then show ?thesis using sep by (simp add: carried_header_def)
  next
    case (3 es v)
    have "valid_str v"
      using trailers_value_chars [OF 3(1)] by (intro valid_str_ascii) (simp add: is_ascii_def)
    moreover have "10 \<notin> set v" using trailers_value_chars [OF 3(1), of 10] ws by blast
    moreover have "10 \<notin> set TRAILERS_HEAD_KEY" "valid_str TRAILERS_HEAD_KEY"
      by (simp_all add: TRAILERS_HEAD_KEY_def lit_def valid_str_def valid_char_def)
    ultimately show ?thesis using 3 sep by simp
  qed
qed

lemma response_text_split:
  assumes "list_all carried_header hs"
  shows "split_char 10 (from_utf8_lossy (as_bytes (response_head_text status hs trailers))) =
    dec_digits status # map (\<lambda>nv. fst nv @ [58, 32] @ snd nv) hs @
       (case Option.bind trailers format_request_trailers_value of
          Some v \<Rightarrow> [TRAILERS_HEAD_KEY @ [58, 32] @ v] | None \<Rightarrow> [])"
    (is "_ = ?ls")
proof -
  have "valid_str (join [10] ?ls)"
    using response_text_lines [OF assms, of _ status trailers]
    by (intro valid_str_join) (auto simp: valid_str_def valid_char_def list_all_iff)
  then have "from_utf8_lossy (as_bytes (response_head_text status hs trailers)) = join [10] ?ls"
    unfolding response_head_text_def by (rule from_utf8_lossy_as_bytes)
  moreover have "split_char 10 (join [10] ?ls) = ?ls"
    using response_text_lines [OF assms, of _ status trailers] by (intro split_char_join) blast+
  ultimately show ?thesis by simp
qed

section \<open>Building the response\<close>

lemma build_response_Ok:
  assumes inv: "table_inv (fields_tab h)" "table_inv (responses h)" and room: "1 < table_room (fields_tab h)" "0 < table_room (responses h)"
    and mint: "mint_producer env rest = Ok body"
      "\<And>t. mint_trailers (env_minter env) (Ok t) = Ok (fut t)"
  shows "\<exists>rep hdr trep h'. build_response env rh rest h = (Ok rep, h') \<and>
    table_get (responses h') rep = Some \<lparr>rs_status_code = of_nat (rh_status rh), rs_headers = hdr,
      rs_body = Some body, rs_trailers = Some (fut trep)\<rparr> \<and>
    table_get (fields_tab h') hdr = Some \<lparr>entries = rh_headers rh, immutable = False\<rparr> \<and>
    Option.bind trep (table_get (fields_tab h')) =
      map_option (\<lambda>es. \<lparr>entries = es, immutable = True\<rparr>) (rh_trailers rh) \<and>
    (trep = None \<longleftrightarrow> rh_trailers rh = None)"
proof -
  note finv = inv(1) and rinv = inv(2)
  obtain hdr ft where ins1: "table_insert \<lparr>entries = rh_headers rh, immutable = False\<rparr> (fields_tab h) = (hdr, ft)"
    by fastforce
  note law1 = tab.insert_law [OF finv _ ins1]
  have get1: "table_inv ft" "0 < table_room ft"
    "table_get ft hdr = Some \<lparr>entries = rh_headers rh, immutable = False\<rparr>"
    using law1 room(1) by auto
  obtain trep ft2 where ins2: "(case rh_trailers rh of None \<Rightarrow> (None, ft) | Some es \<Rightarrow>
      (case table_insert \<lparr>entries = es, immutable = True\<rparr> ft of (rep, ft') \<Rightarrow> (Some rep, ft'))) = (trep, ft2)"
    by fastforce
  have get2: "table_get ft2 hdr = Some \<lparr>entries = rh_headers rh, immutable = False\<rparr> \<and>
      Option.bind trep (table_get ft2) = map_option (\<lambda>es. \<lparr>entries = es, immutable = True\<rparr>) (rh_trailers rh) \<and>
      (trep = None \<longleftrightarrow> rh_trailers rh = None)"
  proof (cases "rh_trailers rh")
    case None
    with ins2 get1 show ?thesis by auto
  next
    case (Some es)
    obtain r where r: "table_insert \<lparr>entries = es, immutable = True\<rparr> ft = (r, ft2)" "trep = Some r"
      using ins2 Some by (auto split: prod.splits)
    with Some tab.insert_lookup [OF get1(1,2) r(1)] tab.insert_keeps [OF get1(1,2) r(1) get1(3)]
    show ?thesis by simp
  qed
  obtain rep rt where ins3: "table_insert \<lparr>rs_status_code = of_nat (rh_status rh), rs_headers = hdr,
      rs_body = Some body, rs_trailers = Some (fut trep)\<rparr> (responses h) = (rep, rt)" by fastforce
  have "build_response env rh rest h = (Ok rep, h\<lparr>fields_tab := ft2, responses := rt\<rparr>)"
    using ins1 ins2 ins3 mint by (simp add: build_response_def Let_def)
  with get2 tab.insert_lookup [OF rinv room(2) ins3] show ?thesis
    by (intro exI [of _ rep] exI [of _ hdr] exI [of _ trep]
        exI [of _ "h\<lparr>fields_tab := ft2, responses := rt\<rparr>"]) simp
qed

section \<open>The bounded wait\<close>

lemma select_rounds_None: "select_rounds rx r n = None \<longleftrightarrow> (\<forall>k \<le> n. rx (r + k) = None)"
proof (induction n arbitrary: r)
  case 0
  then show ?case by (subst select_rounds.simps) (auto split: option.splits)
next
  case (Suc n)
  have "(\<forall>k \<le> Suc n. rx (r + k) = None) \<longleftrightarrow> rx r = None \<and> (\<forall>k \<le> n. rx (Suc r + k) = None)"
    by (auto simp: All_less_Suc2 simp flip: less_Suc_eq_le)
  then show ?case using Suc by (subst select_rounds.simps) (auto split: option.splits)
qed

lemma select_rounds_Some:
  "select_rounds rx r n = Some v \<Longrightarrow> \<exists>k \<le> n. rx (r + k) = Some v \<and> (\<forall>j < k. rx (r + j) = None)"
proof (induction n arbitrary: r)
  case 0
  then show ?case by (subst (asm) select_rounds.simps) (auto split: option.splits)
next
  case (Suc n)
  show ?case
  proof (cases "rx r")
    case None
    with Suc.prems have "select_rounds rx (Suc r) n = Some v"
      by (subst (asm) select_rounds.simps) simp
    from Suc.IH [OF this] obtain k where k: "k \<le> n" "rx (Suc r + k) = Some v"
      "\<forall>j < k. rx (Suc r + j) = None" by blast
    with None show ?thesis by (intro exI [of _ "Suc k"]) (auto simp: All_less_Suc2)
  next
    case (Some w)
    with Suc.prems show ?thesis by (subst (asm) select_rounds.simps) (auto intro: exI [of _ 0])
  qed
qed

lemma select_rounds_find:
  "select_rounds rx r n = Option.bind (find (\<lambda>k. rx k \<noteq> None) [r..<r + Suc n]) rx"
proof (induction n arbitrary: r)
  case 0
  then show ?case by (subst select_rounds.simps) (auto split: option.splits)
next
  case (Suc n)
  have "[r..<r + Suc (Suc n)] = r # [Suc r..<Suc r + Suc n]" by (simp add: upt_rec)
  then show ?case using Suc [of "Suc r"] by (subst select_rounds.simps) (auto split: option.splits)
qed

lemma select_rounds_step:
  "select_rounds (\<lambda>r. if r < k then None else Some v) r n = (if k \<le> r + n then Some v else None)"
proof (induction n arbitrary: r)
  case 0
  then show ?case by (subst select_rounds.simps) auto
next
  case (Suc n)
  then show ?case by (subst select_rounds.simps) auto
qed

section \<open>The whole exchange\<close>

text \<open>
  When everything before the response works, \<open>handle\<close> reads the response on a host that differs
  from the one it started on only in what was sent and in the request's stashed parts.
\<close>

lemma responses_kept:
  "responses (emit ev h) = responses h" "responses (send_batches bs h) = responses h"
  by (simp_all add: emit_def) (induction bs arbitrary: h; simp add: emit_def)

lemma send_head_responses: "send_head r h = (x, h1) \<Longrightarrow> responses h1 = responses h"
  by (auto simp: send_head_def Let_def responses_kept split: option.splits sum.splits)

lemma handle_reads:
  assumes "table_get (requests h) r = Some req" and "request_head h req = Ok head"
    and "transport h = Some tr" and "guest_batches env (rq_body req) = Ok bs"
    and "guest_trailers env h (rq_trailers req) = Ok tv"
  obtains h' where "handle env r h = read_response env (tr_inbound tr) h'"
    "transport_request env r h = (Ok (tr_inbound tr), h')"
    "sent h' = sent h @
       map OutChunk (request_frames head (filter (\<lambda>b. b \<noteq> []) bs) (map_option as_bytes tv)) @ [OutEnd]"
    "fields_tab h' = fields_tab h" "responses h' = responses h"
proof -
  obtain h1 where sh: "send_head r h = (Inr (tr_inbound tr, rq_body req, rq_trailers req), h1)"
    using send_head_ready [OF assms(1-3)] .
  let ?h2 = "send_batches bs h1"
  from transport_sends [OF sh assms(4)] assms(1,2) have up: "transport ?h2 \<noteq> None"
    and fields: "fields_tab ?h2 = fields_tab h" and out: "sent ?h2 =
      sent h @ map OutChunk (request_frames head (filter (\<lambda>b. b \<noteq> []) bs) None)"
    by (metis option.inject sum.inject(2))+
  have tv: "guest_trailers env ?h2 (rq_trailers req) = Ok tv"
  proof -
    have "resolved_trailers ?h2 = resolved_trailers h"
      by (rule ext) (simp only: resolved_trailers_def fields)
    then show ?thesis using assms(5) by (simp only: guest_trailers_def)
  qed
  let ?h3 = "emit OutEnd (case tv of None \<Rightarrow> ?h2 | Some v \<Rightarrow> emit (OutChunk (encode Trailers (as_bytes v))) ?h2)"
  show ?thesis
  proof (rule that [of ?h3])
    show request: "transport_request env r h = (Ok (tr_inbound tr), ?h3)"
      using sh assms(4) tv
      by (cases tv) (simp_all add: transport_request_def send_body_eq send_trailers_eq)
    then show "handle env r h = read_response env (tr_inbound tr) ?h3"
      using assms(3) by (simp add: handle_def transport_request_then_read)
    show "sent ?h3 = sent h @
        map OutChunk (request_frames head (filter (\<lambda>b. b \<noteq> []) bs) (map_option as_bytes tv)) @ [OutEnd]"
      using out up by (cases tv) (simp_all add: sent_emit request_frames_trailers)
    show "fields_tab ?h3 = fields_tab h" "responses ?h3 = responses h"
      using fields send_head_responses [OF sh] by (cases tv; simp add: responses_kept)+
  qed
qed

section \<open>A concrete call\<close>

text \<open>
  An engine whose streams are byte lists read in one batch and whose trailers resolve in round 3,
  and a host with one POST-like request (body \<open>[5, 6]\<close>) and a caller that answers 201 and two frames.
\<close>

definition demo_env :: "(bytes, (u32 option, ErrorCode) result, unit) http_env" where
  "demo_env =
     \<lparr>env_minter = demo_minter,
      pipe_body = (\<lambda>s. Ok [\<lparr>poll_finish = False, poll_available = length s, poll_read = Ok s\<rparr>]),
      pipe_trailers = (\<lambda>t. Ok (Some (3, \<lparr>poll_finish = False, poll_available = 1, poll_read = Ok [t]\<rparr>))),
      mint_producer = (\<lambda>fs. Ok (concat fs)), debug_fmt = id\<rparr>"

definition demo_wired :: "(bytes, (u32 option, ErrorCode) result) WasiHttpHost" where
  "demo_wired = demo_host\<lparr>
     requests := \<lparr>items = [(1, request_data_default\<lparr>rq_headers := 1, rq_body := Some [5, 6],
                                rq_trailers := Some (Ok None)\<rparr>)], next_rep = 2\<rparr>,
     transport := Some \<lparr>tr_out = [], tr_inbound = Some [blit ''201'', [7], [8]]\<rparr>\<rparr>"

lemma demo_wired_get:
  "table_get (requests demo_wired) 1 = Some (request_data_default\<lparr>rq_headers := 1,
     rq_body := Some [5, 6], rq_trailers := Some (Ok None)\<rparr>)"
  "table_get (fields_tab demo_wired) 1 = Some \<lparr>entries = [(lit ''Accept'', [42])], immutable = False\<rparr>"
  by (simp_all add: demo_wired_def table_get_def hm_get_def demo_host_eq)

lemma demo_wired_inv: "host_inv demo_wired"
  using demo_host_inv by (simp add: demo_wired_def host_inv_def table_inv_def hm_wf_def)

lemma demo_wired_head:
  obtains head where "request_head demo_wired (request_data_default\<lparr>rq_headers := 1,
     rq_body := Some [5, 6], rq_trailers := Some (Ok None)\<rparr>) = Ok head"
proof -
  have "is_http_token (lit ''GET'')" "is_request_line_safe (lit ''https'')"
    "is_request_line_safe (lit ''/'')" "is_request_line_safe []"
    by (simp_all add: is_http_token_def as_bytes_def utf8_char_def utf8_code_def lit_def is_tchar_def
        is_request_line_safe_def is_whitespace_def is_control_def)
  then obtain bs where "encode_request_head (lit ''GET'') (lit ''https'') [] (lit ''/'')
      [(lit ''Accept'', [42])] None = Ok bs"
    using encode_request_head_Ok_iff by blast
  then show ?thesis
    using that by (simp add: request_head_def request_data_default_def scheme_str_def
        demo_wired_get)
qed

section \<open>Properties\<close>

text \<open>
  C4. The request reaches the caller whole: when the head encodes and the body and trailers can be
  read, the OUT stream is extended by exactly HEAD, one BODY per non-empty batch, at most one
  TRAILERS, and the end mark; and the reference parser, run on those frames, gives back that head,
  the guest's body bytes in order, and the trailers payload.
\<close>

theorem handle_sends_request:
  assumes "table_get (requests h) r = Some req" and "request_head h req = Ok head"
    and "transport h = Some tr" and "guest_batches env (rq_body req) = Ok bs"
    and "guest_trailers env h (rq_trailers req) = Ok tv"
  shows "\<exists>frames. sent (snd (handle env r h)) = sent h @ map OutChunk frames @ [OutEnd] \<and>
    parse_request_frames frames =
      Ok \<lparr>rf_head = head, rf_body = concat bs, rf_trailers = map_option as_bytes tv\<rparr>"
proof -
  let ?frames = "request_frames head (filter (\<lambda>b. b \<noteq> []) bs) (map_option as_bytes tv)"
  obtain h' where "handle env r h = read_response env (tr_inbound tr) h'"
    "sent h' = sent h @ map OutChunk ?frames @ [OutEnd]"
    using handle_reads [OF assms] by metis
  then have "sent (snd (handle env r h)) = sent h @ map OutChunk ?frames @ [OutEnd]"
    by (simp add: read_response_sent)
  moreover have "parse_request_frames ?frames =
      Ok \<lparr>rf_head = head, rf_body = concat bs, rf_trailers = map_option as_bytes tv\<rparr>"
    unfolding parse_accepts_iff using concat_nonempty [of bs] by metis
  ultimately show ?thesis by blast
qed

theorem handle_sends_request_witness:
  "\<exists>frames head. sent (snd (handle demo_env 1 demo_wired)) = map OutChunk frames @ [OutEnd] \<and>
     parse_request_frames frames = Ok \<lparr>rf_head = head, rf_body = [5, 6], rf_trailers = None\<rparr>"
proof -
  let ?req = "request_data_default\<lparr>rq_headers := 1, rq_body := Some [5, 6],
      rq_trailers := Some (Ok None)\<rparr> :: (bytes, (u32 option, ErrorCode) result) RequestData"
  obtain head where head: "request_head demo_wired ?req = Ok head" using demo_wired_head .
  have tr: "transport demo_wired = Some \<lparr>tr_out = [], tr_inbound = Some [blit ''201'', [7], [8]]\<rparr>"
    by (simp add: demo_wired_def)
  have bs: "guest_batches demo_env (rq_body ?req) = Ok [[5, 6]]"
    by (simp add: guest_batches_def demo_env_def body_poll_consume_def)
  have "trailers_rx (Some (3, \<lparr>poll_finish = False, poll_available = 1, poll_read = Ok [Ok None]\<rparr>)) r =
      (if r < 3 then None else Some (Ok (Ok None)))" for r
    by (simp add: trailers_rx_def trailers_poll_consume_def)
  then have tv: "guest_trailers demo_env demo_wired (rq_trailers ?req) = Ok None"
    by (simp add: guest_trailers_def demo_env_def await_trailers_bounded_def YIELD_BUDGET_def
        select_rounds.simps resolved_trailers_def)
  have "sent demo_wired = []" by (simp add: sent_def tr)
  then show ?thesis
    using handle_sends_request [OF demo_wired_get(1) head tr bs tv] by auto
qed

text \<open>
  C22. Whatever goes wrong, the caller never sees a malformed request: for every request handle,
  guest behaviour and engine failure, the frames one \<open>handle\<close> adds to the OUT stream are none at
  all or a sequence the reference parser accepts.
\<close>

theorem handle_frames_wellformed:
  "\<exists>evs. sent (snd (handle_via_transport env r h)) = sent h @ evs \<and>
     (evs = [] \<or> (\<exists>req. parse_request_frames (chunks_of evs) = Ok req))"
  using handle_via_transport_sent [of env r h] parse_accepts_iff by metis

text \<open>
  C24. What a caller writes as a response head is what the guest reads: status, headers in order,
  and trailers with arbitrary bytes, for every header the line format can carry.
\<close>

theorem response_head_roundtrip:
  assumes "status \<le> 65535" and "list_all carried_header hs"
  shows "parse_response_head dbg (as_bytes (response_head_text status hs trailers)) =
    Ok \<lparr>rh_status = status, rh_headers = map (\<lambda>nv. (fst nv, as_bytes (snd nv))) hs,
        rh_trailers = (case trailers of
          Some es \<Rightarrow> (if filter (\<lambda>nv. is_http_token (fst nv)) es = [] then None
                      else Some (filter (\<lambda>nv. is_http_token (fst nv)) es))
        | None \<Rightarrow> None)\<rparr>"
proof -
  have status: "parse_unsigned 65535 (trim (dec_digits status)) = Some status"
    using parse_unsigned_dec [OF assms(1)] by (simp add: dec_digits_line)
  show ?thesis
  proof (cases "Option.bind trailers format_request_trailers_value")
    case None
    then have "trailers = None \<or> (\<exists>es. trailers = Some es \<and> filter (\<lambda>nv. is_http_token (fst nv)) es = [])"
    proof (cases trailers)
      case (Some es)
      with None have "format_request_trailers_value es = None" by simp
      with Some trailers_value_cases [of es] show ?thesis by simp
    qed simp
    then show ?thesis
      using None status parse_carried_lines [OF assms(2)]
      by (auto simp: parse_response_head_def response_text_split [OF assms(2)])
  next
    case (Some v)
    then obtain es where es: "trailers = Some es" "format_request_trailers_value es = Some v"
      by (auto simp: bind_eq_Some_conv)
    then have "filter (\<lambda>nv. is_http_token (fst nv)) es \<noteq> []"
      by (auto simp: format_request_trailers_value_def)
    then show ?thesis
      using Some es status parse_carried_lines [OF assms(2)] trailers_line_parse [OF es(2)]
      by (simp add: parse_response_head_def response_text_split [OF assms(2)])
  qed
qed

theorem response_head_roundtrip_witness:
  "parse_response_head id (as_bytes (response_head_text 204 [(lit ''etag'', lit ''x y'')] None)) =
     Ok \<lparr>rh_status = 204, rh_headers = [(lit ''etag'', as_bytes (lit ''x y''))], rh_trailers = None\<rparr>"
proof -
  have "carried_header (lit ''etag'', lit ''x y'')"
    by (simp add: carried_header_def lit_def TRAILERS_HEAD_KEY_def valid_str_def valid_char_def
        trim_def trim_start_def trim_end_def is_whitespace_def eq_ignore_ascii_case_def
        to_ascii_lowercase_def)
  then show ?thesis
    using response_head_roundtrip [of 204 "[(lit ''etag'', lit ''x y'')]" id None] by simp
qed

text \<open>
  C23. The response the guest gets is the caller's: on a well-formed head frame, and when the engine
  mints the streams, reading the response succeeds, and the new response has the parsed status,
  header list and trailers and streams exactly the frames after the head.
\<close>

theorem read_response_visible:
  assumes "host_inv h" and "1 < table_room (fields_tab h)" and "0 < table_room (responses h)"
    and "parse_response_head (debug_fmt env) head_frame = Ok rh"
    and "mint_producer env rest = Ok body" and "\<And>t. mint_trailers (env_minter env) (Ok t) = Ok (fut t)"
  shows "\<exists>rep h'. read_response env (Some (head_frame # rest)) h = (Ok rep, h') \<and>
    response_get_status_code h' rep = of_nat (rh_status rh) \<and>
    fields_copy_all h' (fst (response_get_headers rep h')) = rh_headers rh \<and>
    (\<exists>trep. fst (response_consume_body (env_minter env) rep h') = Returned (body, fut trep) \<and>
       map_option (fields_copy_all h') trep = rh_trailers rh)"
proof -
  have inv: "table_inv (fields_tab h)" "table_inv (responses h)"
    using assms(1) by (simp_all add: host_inv_def)
  from build_response_Ok [OF inv assms(2,3,5,6), of rh] obtain rep hdr trep h' where
    ok: "build_response env rh rest h = (Ok rep, h')"
    and resp: "table_get (responses h') rep = Some \<lparr>rs_status_code = of_nat (rh_status rh),
      rs_headers = hdr, rs_body = Some body, rs_trailers = Some (fut trep)\<rparr>"
    and hdr: "table_get (fields_tab h') hdr = Some \<lparr>entries = rh_headers rh, immutable = False\<rparr>"
    and tr: "Option.bind trep (table_get (fields_tab h')) =
      map_option (\<lambda>es. \<lparr>entries = es, immutable = True\<rparr>) (rh_trailers rh)"
      "trep = None \<longleftrightarrow> rh_trailers rh = None"
    by metis
  have "map_option (fields_copy_all h') trep = rh_trailers rh"
    using tr by (cases trep; cases "rh_trailers rh") (auto simp: fields_copy_all_def)
  moreover have "fst (response_consume_body (env_minter env) rep h') = Returned (body, fut trep)"
    by (simp add: response_consume_body_def resp consume_or_mint_def)
  moreover have "fields_copy_all h' (fst (response_get_headers rep h')) = rh_headers rh"
    by (simp add: response_get_headers_def Let_def resp fields_copy_all_def hdr)
  moreover have "response_get_status_code h' rep = of_nat (rh_status rh)"
    by (simp add: response_get_status_code_def resp)
  ultimately show ?thesis
    using ok assms(4) by (intro exI [of _ rep] exI [of _ h'] conjI exI [of _ trep])
      (simp_all add: read_response_def)
qed

theorem read_response_visible_witness:
  "\<exists>rep h'. read_response demo_env (Some [blit ''201'', [7], [8]]) demo_wired = (Ok rep, h') \<and>
     response_get_status_code h' rep = 201 \<and>
     fst (response_consume_body demo_minter rep h') = Returned ([7, 8], Ok None)"
proof -
  have head: "parse_response_head (debug_fmt demo_env) (blit ''201'') =
      Ok \<lparr>rh_status = 201, rh_headers = [], rh_trailers = None\<rparr>"
  proof -
    have "blit ''201'' = as_bytes (response_head_text 201 [] None)"
      by (simp add: response_head_text_def dec_digits.simps lit_def blit_def as_bytes_def utf8_char_def
          utf8_code_def)
    then show ?thesis
      using response_text_split [of "[]" 201 None] parse_unsigned_dec [of 201 65535]
      by (simp add: parse_response_head_def dec_digits_line)
  qed
  have room: "1 < table_room (fields_tab demo_wired)" "0 < table_room (responses demo_wired)"
    by (simp_all add: table_room_def demo_wired_def demo_host_eq http_host_new_def table_default_def)
  have mint: "mint_producer demo_env [[7], [8]] = Ok [7, 8]"
    "\<And>t. mint_trailers (env_minter demo_env) (Ok t) = Ok (Ok t)"
    by (simp_all add: demo_env_def demo_minter_def)
  have env: "env_minter demo_env = demo_minter" by (simp add: demo_env_def)
  show ?thesis
    using read_response_visible [OF demo_wired_inv room head mint] unfolding env by fastforce
qed

text \<open>
  The wait for request trailers ends: the driver takes the first answer the channel has in
  rounds 0 to 64 and otherwise gives up, so trailers resolved by round 64 are used and a guest that
  never writes the future only loses its trailers.
\<close>

theorem await_trailers_first_answer:
  "await_trailers_bounded rx = Option.bind (find (\<lambda>k. rx k \<noteq> None) [0..<65]) rx \<and>
   await_trailers_bounded (trailers_rx (Some (k, p))) =
     (if k \<le> 64 then Some (case snd (trailers_poll_consume p) of Some v \<Rightarrow> Ok v | None \<Rightarrow> Err ())
      else None) \<and>
   await_trailers_bounded (trailers_rx None) = None"
proof (intro conjI)
  have first: "await_trailers_bounded rx = Option.bind (find (\<lambda>k. rx k \<noteq> None) [0..<65]) rx" for rx
    unfolding await_trailers_bounded_def YIELD_BUDGET_def by (simp add: select_rounds_find)
  then show "await_trailers_bounded rx = Option.bind (find (\<lambda>k. rx k \<noteq> None) [0..<65]) rx" .
  show "await_trailers_bounded (trailers_rx (Some (k, p))) =
     (if k \<le> 64 then Some (case snd (trailers_poll_consume p) of Some v \<Rightarrow> Ok v | None \<Rightarrow> Err ())
      else None)"
    unfolding await_trailers_bounded_def YIELD_BUDGET_def
    by (simp add: trailers_rx_def [abs_def] select_rounds_step)
  show "await_trailers_bounded (trailers_rx None) = None"
    by (simp add: await_trailers_bounded_def select_rounds_None trailers_rx_def)
qed

section \<open>What a guest can do to a header list\<close>

text \<open>
  Every call of the two interfaces that changes the host.  \<open>handle\<close> awaits the caller between its
  request and its answer, and other tasks of the guest may make calls there, so the two halves are
  steps of their own beside the whole.
\<close>

datatype ('s, 't) guest_call =
    Types "('s, 't) http_call"
  | Handle u32
  | HandleRequest u32
  | HandleAnswer "bytes list option"

fun guest_step ::
  "('s, 't, 'x) http_env \<Rightarrow> ('s, 't) guest_call \<Rightarrow> ('s, 't) WasiHttpHost \<Rightarrow> ('s, 't) WasiHttpHost" where
  "guest_step env (Types c) h = http_step (env_minter env) c h"
| "guest_step env (Handle r) h = snd (handle env r h)"
| "guest_step env (HandleRequest r) h = snd (transport_request env r h)"
| "guest_step env (HandleAnswer inbound) h = snd (read_response env inbound h)"

fun guest_run ::
  "('s, 't, 'x) http_env \<Rightarrow> ('s, 't) guest_call list \<Rightarrow> ('s, 't) WasiHttpHost \<Rightarrow> ('s, 't) WasiHttpHost" where
  "guest_run env [] h = h"
| "guest_run env (c # cs) h = guest_run env cs (guest_step env c h)"

text \<open>
  Sending touches the stashed parts of the request only; answering inserts a response and at most
  two header lists.
\<close>

definition adds :: "'a Table \<Rightarrow> 'a Table \<Rightarrow> bool" where
  "adds t t' \<longleftrightarrow> t' = t \<or> (\<exists>v. t' = snd (table_insert v t))"

lemma addsI: "adds t t" "table_insert v t = (r, t') \<Longrightarrow> adds t t'"
  unfolding adds_def by (blast, metis snd_conv)

lemma adds_one_op: "adds t t' \<Longrightarrow> one_op t t'"
  by (auto simp: adds_def one_opI)

lemma frozen_adds:
  "adds t t' \<Longrightarrow> table_inv t \<Longrightarrow> 0 < table_room t \<Longrightarrow> frozen es r t \<Longrightarrow> frozen es r t'"
  unfolding adds_def by (metis frozen_insert prod.collapse)

definition answers_on :: "('s, 't) WasiHttpHost \<Rightarrow> ('s, 't) WasiHttpHost \<Rightarrow> bool" where
  "answers_on h h' \<longleftrightarrow>
     (\<exists>t. adds (fields_tab h) t \<and> adds t (fields_tab h')) \<and> one_op (requests h) (requests h') \<and>
     adds (responses h) (responses h') \<and> options h' = options h"

lemma emit_tables:
  "requests (emit ev h) = requests h" "options (emit ev h) = options h"
  "requests (send_batches bs h) = requests h" "options (send_batches bs h) = options h"
  "fields_tab (send_batches bs h) = fields_tab h" "responses (send_batches bs h) = responses h"
  by (simp_all add: emit_def) (induction bs arbitrary: h; simp add: emit_def)+

lemmas send_tables = emit_tables emit_fields responses_kept(1)

lemma send_body_tables:
  assumes "send_body env b h = (x, h1)"
  shows "fields_tab h1 = fields_tab h \<and> requests h1 = requests h \<and> responses h1 = responses h \<and> options h1 = options h"
  using assms by (auto simp: send_body_def send_tables split: option.splits sum.splits)

lemma send_trailers_tables:
  assumes "send_trailers env f h = (x, h1)"
  shows "fields_tab h1 = fields_tab h \<and> requests h1 = requests h \<and> responses h1 = responses h \<and> options h1 = options h"
  using assms
  by (auto simp: send_trailers_def send_tables split: option.splits sum.splits)

lemma send_head_tables:
  assumes "send_head r h = (x, h1)"
  shows "fields_tab h1 = fields_tab h \<and> one_op (requests h) (requests h1) \<and> responses h1 = responses h \<and> options h1 = options h"
  using assms by (auto simp: send_head_def Let_def send_tables one_opI split: option.splits sum.splits)

lemma transport_request_tables:
  assumes "transport_request env r h = (x, h1)"
  shows "fields_tab h1 = fields_tab h \<and> one_op (requests h) (requests h1) \<and> responses h1 = responses h \<and> options h1 = options h"
  using assms
  by (auto simp: transport_request_def send_tables split: sum.splits prod.splits
      dest!: send_head_tables send_body_tables send_trailers_tables)

lemma build_response_tables:
  assumes "build_response env rh rest h = (x, h')"
  shows "answers_on h h' \<and> requests h' = requests h"
proof -
  obtain hdr ft where ins: "table_insert \<lparr>entries = rh_headers rh, immutable = False\<rparr> (fields_tab h) = (hdr, ft)"
    by fastforce
  obtain trep ft2 where two: "(case rh_trailers rh of None \<Rightarrow> (None, ft) | Some es \<Rightarrow>
      (case table_insert \<lparr>entries = es, immutable = True\<rparr> ft of (rep, ft') \<Rightarrow> (Some rep, ft'))) = (trep, ft2)"
    by fastforce
  have adds: "adds (fields_tab h) ft" "adds ft ft2"
    using ins two by (auto intro: addsI split: option.splits prod.splits)
  have "fields_tab h' = ft2 \<and> requests h' = requests h \<and> options h' = options h \<and> adds (responses h) (responses h')"
    using assms ins two
    by (auto simp: build_response_def Let_def intro: addsI split: sum.splits prod.splits)
  then show ?thesis using adds by (auto simp: answers_on_def one_opI(1))
qed

lemma answers_on_refl: "answers_on h h"
  by (auto simp: answers_on_def addsI(1) one_opI(1) intro: exI [of _ "fields_tab h"])

lemma read_response_tables:
  assumes "read_response env ib h = (x, h')"
  shows "answers_on h h' \<and> requests h' = requests h"
  using assms build_response_tables [of env _ _ h x h']
  by (auto simp: read_response_def answers_on_refl split: option.splits list.splits sum.splits)

lemma handle_echo_tables:
  assumes "handle_echo env r h = (x, h')"
  shows "answers_on h h'"
proof (cases "table_get (requests h) r")
  case None
  with assms show ?thesis by (simp add: handle_echo_def answers_on_refl)
next
  case (Some req)
  obtain hdr ft where ins: "table_insert \<lparr>entries = [(lit ''x-hellohq'', blit ''ok'')], immutable = False\<rparr> (fields_tab h) = (hdr, ft)"
    by fastforce
  have "fields_tab h' = ft \<and> requests h' = requests h \<and> options h' = options h \<and> adds (responses h) (responses h')"
    using assms Some ins
    by (auto simp: handle_echo_def Let_def intro: addsI split: sum.splits prod.splits)
  moreover have "adds (fields_tab h) ft" using ins by (rule addsI)
  ultimately show ?thesis using addsI(1) one_opI(1) unfolding answers_on_def by metis
qed

lemma handle_tables: "answers_on h (snd (handle env r h))"
proof (cases "transport h = None")
  case True
  then show ?thesis
    using handle_echo_tables [of env r h "fst (handle_echo env r h)" "snd (handle_echo env r h)"]
    by (simp add: handle_def)
next
  case False
  obtain x h1 where req: "transport_request env r h = (x, h1)" by fastforce
  note sent = transport_request_tables [OF req]
  show ?thesis
  proof (cases x)
    case (Inl e)
    with False req sent show ?thesis
      by (auto simp: handle_def transport_request_then_read answers_on_def intro: addsI)
  next
    case (Inr ib)
    obtain y h2 where "read_response env ib h1 = (y, h2)" by fastforce
    with False req sent Inr read_response_tables [OF this] show ?thesis
      by (auto simp: handle_def transport_request_then_read answers_on_def)
  qed
qed

text \<open>So a call keeps the invariant, what is frozen, and all but two of the ids that are left.\<close>

lemma guest_step_tables:
  "(\<exists>c'. c = Types c') \<or> answers_on h (guest_step env c h)"
proof (cases c)
  case (HandleRequest r)
  with transport_request_tables [of env r h "fst (transport_request env r h)" "snd (transport_request env r h)"]
  show ?thesis by (auto simp: answers_on_def intro: addsI)
next
  case (HandleAnswer ib)
  with read_response_tables [of env ib h "fst (read_response env ib h)" "snd (read_response env ib h)"]
  show ?thesis by simp
qed (simp_all add: handle_tables)

lemma answers_on_keeps:
  assumes "answers_on h h'" and "host_inv h" and "1 < host_room h" and "frozen es r (fields_tab h)"
  shows "host_inv h' \<and> host_room h \<le> host_room h' + 2 \<and> frozen es r (fields_tab h')"
proof -
  obtain t where t: "adds (fields_tab h) t" "adds t (fields_tab h')"
    using assms(1) by (auto simp: answers_on_def)
  have f: "table_inv t" "table_room (fields_tab h) \<le> Suc (table_room t)" "0 < table_room t"
    using one_op_inv [OF adds_one_op [OF t(1)]] assms(2,3) by (auto simp: host_inv_def host_room_def)
  note f' = one_op_inv [OF adds_one_op [OF t(2)] f(1,3)]
  have "frozen es r t" using frozen_adds [OF t(1)] assms(2-4) by (simp add: host_inv_def host_room_def)
  with frozen_adds [OF t(2) f(1,3)] have "frozen es r (fields_tab h')" .
  moreover have "table_inv (requests h') \<and> table_room (requests h) \<le> Suc (table_room (requests h'))"
    by (rule one_op_inv) (use assms(1-3) in \<open>simp_all add: answers_on_def host_inv_def host_room_def\<close>)
  moreover have "table_inv (responses h') \<and> table_room (responses h) \<le> Suc (table_room (responses h'))"
    by (rule one_op_inv) (use assms(1-3) in \<open>simp_all add: answers_on_def adds_one_op host_inv_def host_room_def\<close>)
  ultimately show ?thesis
    using f f' assms(1,2) by (simp add: host_inv_def host_room_def answers_on_def) linarith
qed

lemma guest_step_keeps:
  assumes "host_inv h" and "1 < host_room h" and "frozen es r (fields_tab h)"
  shows "host_inv (guest_step env c h) \<and> host_room h \<le> host_room (guest_step env c h) + 2 \<and>
    frozen es r (fields_tab (guest_step env c h))"
proof (cases "\<exists>c'. c = Types c'")
  case True
  then obtain c' where c: "c = Types c'" by blast
  have room: "0 < host_room h" "0 < table_room (fields_tab h)" using assms(2) by (simp_all add: host_room_def)
  show ?thesis
    using http_step_inv [OF assms(1) room(1), of "env_minter env" c'] assms(1,3)
      frozen_fields_step [OF _ room(2) assms(3), of "env_minter env" c']
    by (simp add: c host_inv_def)
next
  case False
  with guest_step_tables [of c h env] answers_on_keeps [OF _ assms] show ?thesis by blast
qed

lemma frozen_run:
  assumes "host_inv h" and "2 * length cs \<le> host_room h" and "frozen es r (fields_tab h)"
  shows "frozen es r (fields_tab (guest_run env cs h))"
  using assms
proof (induction cs arbitrary: h)
  case (Cons c cs)
  then have "1 < host_room h" by simp
  from guest_step_keeps [OF Cons.prems(1) this Cons.prems(3), of env c] Cons.prems(2) show ?case
    by (auto intro!: Cons.IH)
qed simp

text \<open>
  C25. Headers handed out by \<open>get-headers\<close> never change again: whatever the guest calls next, of the
  types interface or the handler, and wherever other calls run between the request and the answer of
  a \<open>handle\<close> (as long as the tables have two ids left for each call), the header list has the entries
  it had then, or its handle has been dropped, and every mutating call on it is refused with
  \<open>immutable\<close> and leaves the host as it is.
\<close>

theorem headers_frozen:
  assumes "host_inv h" and "request_get_headers self h = (rep, h')"
    and "table_get (fields_tab h) rep = Some f" and "2 * length cs \<le> host_room h'"
  shows "let k = guest_run env cs h' in
    (table_get (fields_tab k) rep = None \<or> fields_copy_all k rep = entries f) \<and>
    fields_set rep n vs k = (Err HdrImmutable, k) \<and> fields_append rep n v k = (Err HdrImmutable, k) \<and>
    fields_delete rep n k = (Err HdrImmutable, k) \<and>
    fields_get_and_delete rep n k = (Err HdrImmutable, k)"
proof -
  have h': "h' = h\<lparr>fields_tab := table_modify rep (\<lambda>f. f\<lparr>immutable := True\<rparr>) (fields_tab h)\<rparr>"
    using assms(2) by (auto simp: request_get_headers_def Let_def)
  have inv: "table_inv (fields_tab h)" using assms(1) by (simp add: host_inv_def)
  note mod = tab.modify_law [OF inv, of rep "\<lambda>f. f\<lparr>immutable := True\<rparr>"]
  have "host_inv h'" using assms(1) mod by (simp add: h' host_inv_def)
  moreover have "frozen (entries f) rep (fields_tab h')"
    using mod assms(3) tab.live_issued [OF inv, of rep] by (simp add: h' frozen_def)
  ultimately have "frozen (entries f) rep (fields_tab (guest_run env cs h'))"
    using frozen_run assms(4) by blast
  then show ?thesis
    by (auto simp: frozen_def Let_def fields_copy_all_def fields_set_def fields_append_def
        fields_delete_def fields_get_and_delete_def)
qed

theorem headers_frozen_witness:
  "fields_set 1 (lit ''a'') [] (guest_run demo_env [Types (FieldsClone 1), Handle 1] (snd (request_get_headers 1 demo_host)))
     = (Err HdrImmutable, guest_run demo_env [Types (FieldsClone 1), Handle 1] (snd (request_get_headers 1 demo_host)))"
proof -
  have rep: "fst (request_get_headers 1 demo_host) = 1"
    by (simp add: request_get_headers_def Let_def demo_host_get)
  have "request_get_headers 1 demo_host = (1, snd (request_get_headers 1 demo_host))"
    by (metis rep prod.collapse)
  moreover have "2 * length [Types (FieldsClone 1), Handle 1] \<le> host_room (snd (request_get_headers 1 demo_host))"
    by (simp add: request_get_headers_def Let_def demo_host_get host_room_def table_room_def
        demo_host_eq table_modify_def hm_get_def http_host_new_def table_default_def)
  ultimately show ?thesis
    using headers_frozen [OF demo_host_inv _ demo_host_get(2), of 1 _ "[Types (FieldsClone 1), Handle 1]" demo_env
        "lit ''a''" "[]"] by (auto simp: Let_def)
qed

text \<open>
  C40. \<open>get-headers\<close> hands out an owned handle to the request's own field list, so a guest that
  reads its headers and drops that handle sends the request without them: the head that goes out
  afterwards is the head of a request with no headers.
\<close>

theorem get_headers_drop_loses_headers:
  assumes "host_inv h" and "table_get (requests h) r = Some req"
    and "request_get_headers r h = (rep, h1)"
  shows "table_get (requests (fields_drop rep h1)) r = Some req \<and>
    fields_copy_all (fields_drop rep h1) (rq_headers req) = [] \<and>
    request_head (fields_drop rep h1) req =
      encode_request_head (method_str (rq_method req)) (scheme_str (rq_scheme req))
        (unwrap_or [] (rq_authority req)) (unwrap_or (lit ''/'') (rq_path_with_query req)) []
        (Option.bind (Option.bind (rq_options req) (table_get (options h))) format_request_options_line)"
proof -
  have inv: "table_inv (fields_tab h)" using assms(1) by (simp add: host_inv_def)
  have h1: "rep = rq_headers req"
    "h1 = h\<lparr>fields_tab := table_modify rep (\<lambda>f. f\<lparr>immutable := True\<rparr>) (fields_tab h)\<rparr>"
    using assms(2,3) by (auto simp: request_get_headers_def Let_def)
  have "table_inv (fields_tab h1)" using tab.modify_law [OF inv] h1(2) by simp
  from tab.remove_law [OF this, of rep] have "table_get (fields_tab (fields_drop rep h1)) rep = None"
    by (simp add: fields_drop_def)
  then show ?thesis
    using assms(2) h1 by (simp add: request_head_def fields_copy_all_def fields_drop_def)
qed

theorem get_headers_drop_loses_headers_witness:
  "fields_copy_all demo_wired 1 = [(lit ''Accept'', [42])] \<and>
   fields_copy_all (fields_drop 1 (snd (request_get_headers 1 demo_wired))) 1 = []"
proof -
  have "request_get_headers 1 demo_wired = (1, snd (request_get_headers 1 demo_wired))"
    by (simp add: request_get_headers_def Let_def demo_wired_get)
  from get_headers_drop_loses_headers [OF demo_wired_inv demo_wired_get(1) this] show ?thesis
    by (simp add: fields_copy_all_def demo_wired_get)
qed

end
