(* ===== verification/P3_Stream.thy ===== *)
theory P3_Stream
  imports P3_Session "HOL-Library.Sublist"
begin

text \<open>
  The streaming P3 bridge of \<open>src/lib.rs\<close> (\<open>P3sOut\<close>, \<open>P3sIn\<close>, \<open>HwrP3Stream\<close>): a worker thread runs
  a driver that emits outbound events and awaits inbound frames; the caller polls the events and
  pushes the frames.  Both channels are explicit, so the two threads interleave freely.
\<close>

section \<open>Drivers\<close>

text \<open>
  A driver future, seen from the bridge: it returns, dies by a panic, emits a chunk or the end mark
  through \<open>P3sOut\<close>, or awaits the next inbound frame (\<open>None\<close> once the inbound stream is closed).
  Drivers run metered guests (\<open>Store::set_fuel\<close>), so a driver has no endless branch; the frames it
  reads depend on the frames it got, and their number has no bound common to all inputs.
\<close>

datatype driver =
    DReturn "(bytes, rstr) result"
  | DPanic
  | DChunk bytes driver
  | DEnd driver
  | DNext "bytes option \<Rightarrow> driver"

definition HWR_P3S_OUT :: i32 where "HWR_P3S_OUT = 0"
definition HWR_P3S_OUT_END :: i32 where "HWR_P3S_OUT_END = 1"
definition HWR_P3S_DONE :: i32 where "HWR_P3S_DONE = 2"
definition HWR_P3S_ERROR :: i32 where "HWR_P3S_ERROR = 3"

lemmas p3s_status = HWR_P3S_OUT_def HWR_P3S_OUT_END_def HWR_P3S_DONE_def HWR_P3S_ERROR_def

datatype P3sEvent = POut bytes | POutEnd | PDone "(bytes, rstr) result"

section \<open>The session\<close>

text \<open>
  \<open>s_rx\<close> holds the buffered events while the receiver lives, \<open>s_in_tx\<close> is whether the inbound
  sender is still held, and \<open>in_queue\<close> the frames pushed and not yet received.
\<close>

record HwrP3Stream =
  s_rx :: "P3sEvent list option"
  s_in_tx :: bool
  s_thread_joined :: bool
  current_out :: bytes
  s_result :: bytes
  s_finished :: bool

datatype driver_state = DRunning driver | DExited

record p3s_world =
  stream :: HwrP3Stream
  driver_st :: driver_state
  in_queue :: "bytes list"

definition p3s_run_session :: "driver \<Rightarrow> p3s_world" where
  "p3s_run_session d =
     \<lparr>stream = \<lparr>s_rx = Some [], s_in_tx = True, s_thread_joined = False, current_out = [],
                s_result = [], s_finished = False\<rparr>,
      driver_st = DRunning d, in_queue = []\<rparr>"

text \<open>\<open>let _ = tx.send(ev)\<close>: queued while the receiver lives, discarded otherwise.\<close>

definition p3s_send :: "P3sEvent \<Rightarrow> p3s_world \<Rightarrow> p3s_world" where
  "p3s_send ev w =
     (case s_rx (stream w) of
        Some q \<Rightarrow> w\<lparr>stream := (stream w)\<lparr>s_rx := Some (q @ [ev])\<rparr>\<rparr>
      | None \<Rightarrow> w)"

definition p3s_chunk :: "bytes \<Rightarrow> p3s_world \<Rightarrow> p3s_world" where
  "p3s_chunk bs w = p3s_send (POut bs) w"

definition p3s_end :: "p3s_world \<Rightarrow> p3s_world" where
  "p3s_end w = p3s_send POutEnd w"

text \<open>One step of the worker thread; \<open>None\<close> when it is blocked on the inbound channel or gone.\<close>

definition driver_step :: "p3s_world \<Rightarrow> p3s_world option" where
  "driver_step w =
     (case driver_st w of
        DRunning (DReturn r) \<Rightarrow> Some ((p3s_send (PDone r) w)\<lparr>driver_st := DExited\<rparr>)
      | DRunning DPanic \<Rightarrow> Some (w\<lparr>driver_st := DExited\<rparr>)
      | DRunning (DChunk bs d) \<Rightarrow> Some ((p3s_chunk bs w)\<lparr>driver_st := DRunning d\<rparr>)
      | DRunning (DEnd d) \<Rightarrow> Some ((p3s_end w)\<lparr>driver_st := DRunning d\<rparr>)
      | DRunning (DNext k) \<Rightarrow>
          (case in_queue w of
             c # cs \<Rightarrow> Some (w\<lparr>in_queue := cs, driver_st := DRunning (k (Some c))\<rparr>)
           | [] \<Rightarrow> if s_in_tx (stream w) then None else Some (w\<lparr>driver_st := DRunning (k None)\<rparr>))
      | DExited \<Rightarrow> None)"

section \<open>Caller operations\<close>

text \<open>\<open>poll\<close> blocks (\<open>None\<close>) on an empty queue while the worker, which holds the senders, lives.\<close>

definition p3s_poll :: "p3s_world \<Rightarrow> (i32 \<times> p3s_world) option" where
  "p3s_poll w =
     (let s = stream w in
      if s_finished s then Some (HWR_P3S_DONE, w)
      else case s_rx s of
        Some (POut chunk # q) \<Rightarrow>
          Some (HWR_P3S_OUT, w\<lparr>stream := s\<lparr>s_rx := Some q, current_out := chunk\<rparr>\<rparr>)
      | Some (POutEnd # q) \<Rightarrow> Some (HWR_P3S_OUT_END, w\<lparr>stream := s\<lparr>s_rx := Some q\<rparr>\<rparr>)
      | Some (PDone (Inr out) # q) \<Rightarrow>
          Some (HWR_P3S_DONE, w\<lparr>stream := s\<lparr>s_rx := Some q, s_result := out, s_finished := True\<rparr>\<rparr>)
      | Some (PDone (Inl msg) # q) \<Rightarrow>
          Some (HWR_P3S_ERROR,
            w\<lparr>stream := s\<lparr>s_rx := Some q, s_result := as_bytes msg, s_finished := True\<rparr>\<rparr>)
      | Some [] \<Rightarrow>
          (if driver_st w = DExited
           then Some (HWR_P3S_ERROR, w\<lparr>stream := s\<lparr>s_finished := True\<rparr>\<rparr>)
           else None)
      | None \<Rightarrow> Some (HWR_P3S_ERROR, w\<lparr>stream := s\<lparr>s_finished := True\<rparr>\<rparr>))"

definition p3s_out_chunk :: "p3s_world \<Rightarrow> bytes" where
  "p3s_out_chunk w = current_out (stream w)"

text \<open>\<open>unbounded_send\<close> fails, and the frame is lost, once the driver has dropped its receiver.\<close>

definition p3s_push :: "bytes \<Rightarrow> p3s_world \<Rightarrow> p3s_world" where
  "p3s_push chunk w =
     (if s_in_tx (stream w) \<and> driver_st w \<noteq> DExited then w\<lparr>in_queue := in_queue w @ [chunk]\<rparr> else w)"

definition p3s_push_end :: "p3s_world \<Rightarrow> p3s_world" where
  "p3s_push_end w = w\<lparr>stream := (stream w)\<lparr>s_in_tx := False\<rparr>\<rparr>"

definition p3s_session_result :: "p3s_world \<Rightarrow> bytes" where
  "p3s_session_result w = s_result (stream w)"

text \<open>\<open>Drop\<close> up to the join, and the join, which returns once the worker has exited.\<close>

definition p3s_drop :: "p3s_world \<Rightarrow> p3s_world" where
  "p3s_drop w = w\<lparr>stream := (stream w)\<lparr>s_in_tx := False, s_rx := None\<rparr>\<rparr>"

definition p3s_join :: "p3s_world \<Rightarrow> p3s_world option" where
  "p3s_join w =
     (if driver_st w = DExited then Some (w\<lparr>stream := (stream w)\<lparr>s_thread_joined := True\<rparr>\<rparr>) else None)"

section \<open>A driver without threads\<close>

text \<open>The events a driver emits and how it ends, when the caller's frames are \<open>ins\<close>.\<close>

datatype out_item = OChunk bytes | OEnd

primrec deliver :: "driver \<Rightarrow> bytes list \<Rightarrow> out_item list \<times> run_result" where
  "deliver (DReturn r) ins = ([], Completed r)"
| "deliver DPanic ins = ([], Died)"
| "deliver (DChunk bs d) ins = (case deliver d ins of (outs, r) \<Rightarrow> (OChunk bs # outs, r))"
| "deliver (DEnd d) ins = (case deliver d ins of (outs, r) \<Rightarrow> (OEnd # outs, r))"
| "deliver (DNext k) ins =
     (case ins of [] \<Rightarrow> deliver (k None) [] | c # cs \<Rightarrow> deliver (k (Some c)) cs)"

text \<open>The worker steps it takes.\<close>

primrec work :: "driver \<Rightarrow> bytes list \<Rightarrow> nat" where
  "work (DReturn r) ins = 1"
| "work DPanic ins = 1"
| "work (DChunk bs d) ins = Suc (work d ins)"
| "work (DEnd d) ins = Suc (work d ins)"
| "work (DNext k) ins =
     Suc (case ins of [] \<Rightarrow> work (k None) [] | c # cs \<Rightarrow> work (k (Some c)) cs)"

section \<open>Interleavings\<close>

text \<open>
  A session with its caller: the frames still to be pushed, and what the caller has read.  The
  caller pushes its frames in order, closes the inbound stream after the last, and polls whenever
  it likes; the worker steps in between.
\<close>

record p3s_config =
  world :: p3s_world
  todo :: "bytes list"
  seen :: "out_item list"

definition read_item :: "i32 \<Rightarrow> p3s_world \<Rightarrow> out_item list" where
  "read_item status w =
     (if status = HWR_P3S_OUT then [OChunk (p3s_out_chunk w)]
      else if status = HWR_P3S_OUT_END then [OEnd] else [])"

inductive p3s_step :: "p3s_config \<Rightarrow> p3s_config \<Rightarrow> bool" where
  s_worker: "driver_step (world c) = Some w \<Longrightarrow> p3s_step c (c\<lparr>world := w\<rparr>)"
| s_poll: "\<not> s_finished (stream (world c)) \<Longrightarrow> p3s_poll (world c) = Some (status, w) \<Longrightarrow>
    p3s_step c (c\<lparr>world := w, seen := seen c @ read_item status w\<rparr>)"
| s_push: "todo c = chunk # rest \<Longrightarrow>
    p3s_step c (c\<lparr>world := p3s_push chunk (world c), todo := rest\<rparr>)"
| s_push_end: "todo c = [] \<Longrightarrow> s_in_tx (stream (world c)) \<Longrightarrow>
    p3s_step c (c\<lparr>world := p3s_push_end (world c)\<rparr>)"

definition p3s_start :: "driver \<Rightarrow> bytes list \<Rightarrow> p3s_config" where
  "p3s_start d ins = \<lparr>world = p3s_run_session d, todo = ins, seen = []\<rparr>"

section \<open>What a session will deliver\<close>

text \<open>
  The abstraction: everything the caller has read, has waiting in the event queue, or will be sent
  by the rest of the driver on the frames already queued or still to come, and how the run ends.
\<close>

fun queued_items :: "P3sEvent list \<Rightarrow> out_item list" where
  "queued_items [] = []"
| "queued_items (POut bs # q) = OChunk bs # queued_items q"
| "queued_items (POutEnd # q) = OEnd # queued_items q"
| "queued_items (PDone r # q) = queued_items q"

fun queued_result :: "P3sEvent list \<Rightarrow> run_result" where
  "queued_result [] = Died"
| "queued_result (PDone r # q) = Completed r"
| "queued_result (_ # q) = queued_result q"

lemma queued_append [simp]: "queued_items (p @ q) = queued_items p @ queued_items q"
  by (induction p rule: queued_items.induct) simp_all

fun emitted :: "P3sEvent \<Rightarrow> bool" where
  "emitted (PDone r) = False"
| "emitted _ = True"

lemma queued_result_emitted: "list_all emitted q \<Longrightarrow> queued_result (q @ q') = queued_result q'"
proof (induction q)
  case (Cons ev q)
  then show ?case by (cases ev) simp_all
qed simp

text \<open>
  The session's state relative to the whole delivery \<open>D\<close>: what has been read, what is queued and
  what the driver will still emit make up \<open>D\<close>.
\<close>

definition p3s_inv :: "out_item list \<times> run_result \<Rightarrow> p3s_config \<Rightarrow> bool" where
  "p3s_inv D c \<longleftrightarrow>
     (s_in_tx (stream (world c)) \<or> todo c = []) \<and>
     (if s_finished (stream (world c))
      then driver_st (world c) = DExited \<and> fst D = seen c \<and> reported (snd D) (s_result (stream (world c)))
      else s_result (stream (world c)) = [] \<and>
        (\<exists>q. s_rx (stream (world c)) = Some q \<and>
           (case driver_st (world c) of
              DRunning d \<Rightarrow> list_all emitted q \<and>
                D = (seen c @ queued_items q @ fst (deliver d (in_queue (world c) @ todo c)),
                     snd (deliver d (in_queue (world c) @ todo c)))
            | DExited \<Rightarrow> (\<exists>p. list_all emitted p \<and> (q = p \<or> (\<exists>r. q = p @ [PDone r]))) \<and>
                D = (seen c @ queued_items q, queued_result q))))"

text \<open>The steps it has left, at most.\<close>

definition p3s_left :: "p3s_config \<Rightarrow> nat" where
  "p3s_left c =
     (case driver_st (world c) of DRunning d \<Rightarrow> 2 * work d (in_queue (world c) @ todo c) | DExited \<Rightarrow> 0) +
     (case s_rx (stream (world c)) of Some q \<Rightarrow> length q | None \<Rightarrow> 0) + length (todo c) +
     (if s_in_tx (stream (world c)) then 1 else 0) + (if s_finished (stream (world c)) then 0 else 1)"

lemmas p3s_ops = p3s_send_def p3s_chunk_def p3s_end_def p3s_push_def p3s_push_end_def

lemma p3s_start_inv: "p3s_inv (deliver d ins) (p3s_start d ins)"
  by (simp add: p3s_inv_def p3s_start_def p3s_run_session_def)

lemma p3s_start_left: "p3s_left (p3s_start d ins) = 2 * work d ins + length ins + 2"
  by (simp add: p3s_left_def p3s_start_def p3s_run_session_def)

lemma worker_keeps:
  assumes "p3s_inv D c" and "driver_step (world c) = Some w"
  shows "p3s_inv D (c\<lparr>world := w\<rparr>) \<and> p3s_left (c\<lparr>world := w\<rparr>) < p3s_left c"
proof -
  obtain d where d: "driver_st (world c) = DRunning d"
    using assms(2) by (cases "driver_st (world c)") (auto simp: driver_step_def)
  with assms(1) have open_rx: "\<not> s_finished (stream (world c))" "s_result (stream (world c)) = []"
    by (auto simp: p3s_inv_def split: if_splits)
  with assms(1) d obtain q where q: "s_rx (stream (world c)) = Some q" "list_all emitted q"
      "D = (seen c @ queued_items q @ fst (deliver d (in_queue (world c) @ todo c)),
            snd (deliver d (in_queue (world c) @ todo c)))"
      "s_in_tx (stream (world c)) \<or> todo c = []"
    by (auto simp: p3s_inv_def)
  note facts = d q(1,2,4) open_rx
  show ?thesis
  proof (cases d)
    case (DReturn r)
    with assms(2) facts have "w = (world c)\<lparr>stream := (stream (world c))\<lparr>s_rx := Some (q @ [PDone r])\<rparr>,
        driver_st := DExited\<rparr>"
      by (simp add: driver_step_def p3s_ops)
    with facts q(3) DReturn show ?thesis
      by (auto simp: p3s_inv_def p3s_left_def queued_result_emitted)
  next
    case DPanic
    with assms(2) facts have "w = (world c)\<lparr>driver_st := DExited\<rparr>" by (simp add: driver_step_def)
    with facts q(3) DPanic queued_result_emitted [OF q(2), of "[]"] show ?thesis
      by (auto simp: p3s_inv_def p3s_left_def)
  next
    case (DChunk bs d')
    with assms(2) facts have "w = (world c)\<lparr>stream := (stream (world c))\<lparr>s_rx := Some (q @ [POut bs])\<rparr>,
        driver_st := DRunning d'\<rparr>"
      by (simp add: driver_step_def p3s_ops)
    with facts q(3) DChunk show ?thesis
      by (auto simp: p3s_inv_def p3s_left_def split: prod.split)
  next
    case (DEnd d')
    with assms(2) facts have "w = (world c)\<lparr>stream := (stream (world c))\<lparr>s_rx := Some (q @ [POutEnd])\<rparr>,
        driver_st := DRunning d'\<rparr>"
      by (simp add: driver_step_def p3s_ops)
    with facts q(3) DEnd show ?thesis
      by (auto simp: p3s_inv_def p3s_left_def split: prod.split)
  next
    case (DNext k)
    with assms(2) facts q(3) show ?thesis
      by (auto simp: driver_step_def p3s_inv_def p3s_left_def split: list.splits if_splits)
  qed
qed

text \<open>Reading an emitted event moves it from the queue to what the caller has read.\<close>

lemma read_keeps:
  assumes inv: "p3s_inv D c" and live: "\<not> s_finished (stream (world c))"
    and q: "s_rx (stream (world c)) = Some (ev # q)" and ev: "emitted ev"
    and s': "s_rx s' = Some q" "s_result s' = s_result (stream (world c))" "\<not> s_finished s'"
      "s_in_tx s' = s_in_tx (stream (world c))"
  shows "p3s_inv D (c\<lparr>world := (world c)\<lparr>stream := s'\<rparr>, seen := seen c @ queued_items [ev]\<rparr>) \<and>
    p3s_left (c\<lparr>world := (world c)\<lparr>stream := s'\<rparr>, seen := seen c @ queued_items [ev]\<rparr>) < p3s_left c"
proof -
  have items: "queued_items (ev # q) = queued_items [ev] @ queued_items q"
    using queued_append [of "[ev]" q] by simp
  have res: "queued_result (ev # q) = queued_result q"
    using ev queued_result_emitted [of "[ev]" q] by simp
  have tail: "\<exists>p'. list_all emitted p' \<and> (q = p' \<or> (\<exists>r. q = p' @ [PDone r]))"
    if "list_all emitted p" "ev # q = p \<or> (\<exists>r. ev # q = p @ [PDone r])" for p
    using that ev by (cases p) auto
  show ?thesis
  proof (cases "driver_st (world c)")
    case (DRunning d)
    with inv live q s' ev show ?thesis by (simp add: p3s_inv_def p3s_left_def items del: queued_items.simps)
  next
    case DExited
    with inv live q have D: "D = (seen c @ queued_items (ev # q), queued_result (ev # q))"
      and "\<exists>p. list_all emitted p \<and> (ev # q = p \<or> (\<exists>r. ev # q = p @ [PDone r]))"
      by (simp_all add: p3s_inv_def del: queued_items.simps)
    with tail have "\<exists>p'. list_all emitted p' \<and> (q = p' \<or> (\<exists>r. q = p' @ [PDone r]))" by blast
    with DExited inv live q s' D show ?thesis
      by (simp add: p3s_inv_def p3s_left_def items res del: queued_items.simps queued_result.simps)
  qed
qed

lemma poll_keeps:
  assumes inv: "p3s_inv D c" and live: "\<not> s_finished (stream (world c))"
    and poll: "p3s_poll (world c) = Some (status, w)"
  shows "p3s_inv D (c\<lparr>world := w, seen := seen c @ read_item status w\<rparr>) \<and>
    p3s_left (c\<lparr>world := w, seen := seen c @ read_item status w\<rparr>) < p3s_left c"
proof -
  obtain q where q: "s_rx (stream (world c)) = Some q" using assms by (auto simp: p3s_inv_def)
  note defs = p3s_poll_def Let_def p3s_inv_def p3s_left_def read_item_def p3s_status p3s_out_chunk_def
  show ?thesis
  proof (cases q)
    case Nil
    with assms q show ?thesis by (auto simp: defs split: if_splits)
  next
    case (Cons ev q')
    show ?thesis
    proof (cases ev)
      case (POut bs)
      let ?s = "(stream (world c))\<lparr>s_rx := Some q', current_out := bs\<rparr>"
      have "status = HWR_P3S_OUT" "w = (world c)\<lparr>stream := ?s\<rparr>"
        using poll live q Cons POut by (simp_all add: p3s_poll_def Let_def)
      then show ?thesis
        using read_keeps [of D c ev q' ?s] inv live q Cons POut
        by (simp add: read_item_def p3s_out_chunk_def)
    next
      case POutEnd
      let ?s = "(stream (world c))\<lparr>s_rx := Some q'\<rparr>"
      have "status = HWR_P3S_OUT_END" "w = (world c)\<lparr>stream := ?s\<rparr>"
        using poll live q Cons POutEnd by (simp_all add: p3s_poll_def Let_def)
      then show ?thesis
        using read_keeps [of D c ev q' ?s] inv live q Cons POutEnd
        by (simp add: read_item_def p3s_status)
    next
      case (PDone r)
      then have exited: "driver_st (world c) = DExited" and last: "q' = []"
        using assms(1,2) q Cons
        by (auto simp: p3s_inv_def Cons_eq_append_conv split: driver_state.splits)
      with assms q Cons PDone show ?thesis by (cases r) (auto simp: defs)
    qed
  qed
qed

lemma push_keeps:
  assumes "p3s_inv D c" and "todo c = chunk # rest"
  shows "p3s_inv D (c\<lparr>world := p3s_push chunk (world c), todo := rest\<rparr>) \<and>
    p3s_left (c\<lparr>world := p3s_push chunk (world c), todo := rest\<rparr>) < p3s_left c"
  using assms
  by (auto simp: p3s_inv_def p3s_left_def p3s_push_def split: driver_state.splits)

lemma push_end_keeps:
  assumes "p3s_inv D c" and "todo c = []" and "s_in_tx (stream (world c))"
  shows "p3s_inv D (c\<lparr>world := p3s_push_end (world c)\<rparr>) \<and>
    p3s_left (c\<lparr>world := p3s_push_end (world c)\<rparr>) < p3s_left c"
  using assms
  by (auto simp: p3s_inv_def p3s_left_def p3s_push_end_def split: driver_state.splits)

lemma p3s_step_keeps: "p3s_step c c' \<Longrightarrow> p3s_inv D c \<Longrightarrow> p3s_inv D c' \<and> p3s_left c' < p3s_left c"
  by (induction rule: p3s_step.induct) (blast dest: worker_keeps poll_keeps push_keeps push_end_keeps)+

lemma p3s_reachable:
  "(p3s_step ^^ n) (p3s_start d ins) c \<Longrightarrow>
     p3s_inv (deliver d ins) c \<and> p3s_left c + n \<le> 2 * work d ins + length ins + 2"
proof (induction n arbitrary: c)
  case 0
  then show ?case using p3s_start_inv [of d ins] p3s_start_left [of d ins] by auto
next
  case (Suc n)
  then obtain c0 where "(p3s_step ^^ n) (p3s_start d ins) c0" "p3s_step c0 c" by auto
  with Suc.IH p3s_step_keeps [of c0 c "deliver d ins"] show ?case by fastforce
qed

lemma p3s_progress:
  assumes "p3s_inv D c" and "\<not> s_finished (stream (world c))"
  shows "\<exists>c'. p3s_step c c'"
proof (cases "driver_st (world c)")
  case (DRunning d)
  consider w where "driver_step (world c) = Some w" | k where "d = DNext k" "in_queue (world c) = []"
      "s_in_tx (stream (world c))"
    using DRunning
    by (cases d; cases "in_queue (world c)"; cases "s_in_tx (stream (world c))")
      (auto simp: driver_step_def)
  then show ?thesis
  proof cases
    case 1
    then show ?thesis by (blast intro: s_worker)
  next
    case 2
    then show ?thesis by (cases "todo c") (blast intro: s_push s_push_end)+
  qed
next
  case DExited
  with assms have "p3s_poll (world c) \<noteq> None"
    by (auto simp: p3s_poll_def Let_def p3s_inv_def split: list.splits P3sEvent.splits sum.splits)
  then show ?thesis using assms(2) by (auto intro: s_poll)
qed

lemma p3s_seen_prefix: "p3s_inv D c \<Longrightarrow> prefix (seen c) (fst D)"
  by (cases "driver_st (world c)") (auto simp: p3s_inv_def split: if_splits)

section \<open>Dropping a stream\<close>

text \<open>Whatever the caller does: poll, push or close at any time.\<close>

inductive p3s_any_step :: "p3s_world \<Rightarrow> p3s_world \<Rightarrow> bool" where
  sa_worker: "driver_step w = Some w' \<Longrightarrow> p3s_any_step w w'"
| sa_poll: "p3s_poll w = Some (status, w') \<Longrightarrow> p3s_any_step w w'"
| sa_push: "p3s_any_step w (p3s_push chunk w)"
| sa_push_end: "p3s_any_step w (p3s_push_end w)"

abbreviation driver_moves :: "p3s_world \<Rightarrow> p3s_world \<Rightarrow> bool" where
  "driver_moves w w' \<equiv> driver_step w = Some w'"

lemma closed_runs_out:
  "driver_st w = DRunning d \<Longrightarrow> \<not> s_in_tx (stream w) \<Longrightarrow>
     \<exists>w'. driver_moves\<^sup>*\<^sup>* w w' \<and> driver_st w' = DExited"
proof (induction d arbitrary: w)
  case (DReturn r)
  then show ?case
    by (intro exI [of _ "(p3s_send (PDone r) w)\<lparr>driver_st := DExited\<rparr>"] conjI r_into_rtranclp)
      (simp_all add: driver_step_def)
next
  case DPanic
  then show ?case
    by (intro exI [of _ "w\<lparr>driver_st := DExited\<rparr>"] conjI r_into_rtranclp) (simp_all add: driver_step_def)
next
  case (DChunk bs d)
  let ?v = "(p3s_chunk bs w)\<lparr>driver_st := DRunning d\<rparr>"
  have "driver_moves w ?v" "\<not> s_in_tx (stream ?v)"
    using DChunk.prems by (simp_all add: driver_step_def p3s_ops split: option.split)
  with DChunk.IH [of ?v] show ?case by (auto intro: converse_rtranclp_into_rtranclp)
next
  case (DEnd d)
  let ?v = "(p3s_end w)\<lparr>driver_st := DRunning d\<rparr>"
  have "driver_moves w ?v" "\<not> s_in_tx (stream ?v)"
    using DEnd.prems by (simp_all add: driver_step_def p3s_ops split: option.split)
  with DEnd.IH [of ?v] show ?case by (auto intro: converse_rtranclp_into_rtranclp)
next
  case (DNext k)
  obtain v x where v: "driver_moves w v" "driver_st v = DRunning (k x)" "\<not> s_in_tx (stream v)"
    using DNext.prems by (cases "in_queue w") (auto simp: driver_step_def)
  with DNext.IH [OF rangeI, of v x] show ?case by (auto intro: converse_rtranclp_into_rtranclp)
qed

lemma p3s_poll_after_error:
  assumes "\<not> s_finished (stream w)" and "s_rx (stream w) = Some (PDone (Err msg) # q)"
  shows "\<exists>w'. p3s_poll w = Some (HWR_P3S_ERROR, w') \<and> p3s_session_result w' = as_bytes msg \<and>
    p3s_poll w' = Some (HWR_P3S_DONE, w')"
  using assms by (simp add: p3s_poll_def Let_def p3s_session_result_def)

lemma p3s_run_refines:
  assumes "(p3s_step ^^ n) (p3s_start d ins) c"
  shows "prefix (seen c) (fst (deliver d ins)) \<and> n \<le> 2 * work d ins + length ins + 2 \<and>
    (s_finished (stream (world c)) \<or> (\<exists>c'. p3s_step c c')) \<and>
    (s_finished (stream (world c)) \<longrightarrow>
       seen c = fst (deliver d ins) \<and> reported (snd (deliver d ins)) (p3s_session_result (world c)))"
proof -
  from p3s_reachable [OF assms] have inv: "p3s_inv (deliver d ins) c"
    and bound: "n \<le> 2 * work d ins + length ins + 2" by simp_all
  moreover have "seen c = fst (deliver d ins) \<and> reported (snd (deliver d ins)) (p3s_session_result (world c))"
    if "s_finished (stream (world c))"
    using inv that by (simp add: p3s_inv_def p3s_session_result_def)
  ultimately show ?thesis using p3s_seen_prefix [OF inv] p3s_progress [OF inv] by blast
qed

section \<open>Properties\<close>

text \<open>
  C8. The streaming bridge loses, duplicates and reorders nothing, whatever the schedule of the two
  threads: after any \<open>n\<close> steps the caller has read a prefix of what the driver emits when run
  directly on the caller's frames; the session is never stuck before it is finished, it takes at
  most two steps per driver step plus two plus one per frame, and when it is finished the caller has
  read every chunk and end mark, in order, and holds the driver's result.
\<close>

theorem p3s_session_refines:
  assumes "(p3s_step ^^ n) (p3s_start d ins) c"
  shows "prefix (seen c) (fst (deliver d ins)) \<and> n \<le> 2 * work d ins + length ins + 2 \<and>
    (s_finished (stream (world c)) \<or> (\<exists>c'. p3s_step c c')) \<and>
    (s_finished (stream (world c)) \<longrightarrow>
       seen c = fst (deliver d ins) \<and> reported (snd (deliver d ins)) (p3s_session_result (world c)))"
  using assms by (rule p3s_run_refines)

text \<open>An echo driver: one chunk out, the end mark, one frame in, which becomes the result.\<close>

definition demo_driver :: driver where
  "demo_driver = DChunk [1] (DEnd (DNext (\<lambda>f. DReturn (Ok (unwrap_or [] f)))))"

lemma p3s_runs_to_end: "\<exists>n c. (p3s_step ^^ n) (p3s_start d ins) c \<and> s_finished (stream (world c))"
proof (rule ccontr)
  assume unfinished: "\<nexists>n c. (p3s_step ^^ n) (p3s_start d ins) c \<and> s_finished (stream (world c))"
  have "\<exists>c. (p3s_step ^^ n) (p3s_start d ins) c" for n
  proof (induction n)
    case (Suc n)
    then obtain c where "(p3s_step ^^ n) (p3s_start d ins) c" by blast
    with p3s_progress unfinished p3s_reachable show ?case by (metis relpowp_Suc_I)
  qed auto
  then obtain c where "(p3s_step ^^ (2 * work d ins + length ins + 3)) (p3s_start d ins) c" by blast
  from p3s_reachable [OF this] show False by simp
qed

theorem p3s_session_refines_witness:
  "\<exists>n c. (p3s_step ^^ n) (p3s_start demo_driver [[7, 8]]) c \<and> s_finished (stream (world c)) \<and>
     seen c = [OChunk [1], OEnd] \<and> p3s_session_result (world c) = [7, 8]"
proof -
  obtain n c where c: "(p3s_step ^^ n) (p3s_start demo_driver [[7, 8]]) c" "s_finished (stream (world c))"
    using p3s_runs_to_end by blast
  from p3s_session_refines [OF c(1)] c show ?thesis by (auto simp: demo_driver_def)
qed

text \<open>
  C9. Freeing a stream never hangs: in every state the two threads can reach, dropping it closes
  the inbound stream, so a driver that awaits a frame goes on, the worker exits and the join returns.
\<close>

theorem p3s_drop_joins:
  assumes "p3s_any_step\<^sup>*\<^sup>* (p3s_run_session d) w"
  shows "\<exists>w' w''. driver_moves\<^sup>*\<^sup>* (p3s_drop w) w' \<and> p3s_join w' = Some w'' \<and> s_thread_joined (stream w'')"
proof -
  have "\<exists>w'. driver_moves\<^sup>*\<^sup>* (p3s_drop w) w' \<and> driver_st w' = DExited"
  proof (cases "driver_st w")
    case (DRunning d')
    then show ?thesis using closed_runs_out [of "p3s_drop w" d'] by (simp add: p3s_drop_def)
  next
    case DExited
    then show ?thesis by (intro exI [of _ "p3s_drop w"]) (simp add: p3s_drop_def)
  qed
  then show ?thesis by (auto simp: p3s_join_def)
qed

theorem p3s_drop_joins_witness:
  "\<exists>w w' w''. p3s_any_step\<^sup>*\<^sup>* (p3s_run_session (DNext (\<lambda>f. DReturn (Ok [])))) w \<and>
     driver_step w = None \<and> driver_moves\<^sup>*\<^sup>* (p3s_drop w) w' \<and> p3s_join w' = Some w''"
proof -
  let ?w = "p3s_run_session (DNext (\<lambda>f. DReturn (Ok [])))"
  have "p3s_any_step\<^sup>*\<^sup>* ?w ?w" by simp
  moreover have "driver_step ?w = None" by (simp add: driver_step_def p3s_run_session_def)
  ultimately show ?thesis using p3s_drop_joins [of "DNext (\<lambda>f. DReturn (Ok []))" ?w] by blast
qed

end
