(* ===== verification/Jit_Memory.thy ===== *)
theory Jit_Memory
  imports Limits "HOL-Library.Multiset"
begin

text \<open>
  \<open>src/jit_memory.rs\<close>: executable code memory on macOS.  Artifacts are copied into \<open>MAP_JIT\<close>
  mappings that wait in \<open>PENDING\<close> until the engine's code-memory hook claims them.  The operating
  system (page size, \<open>mmap\<close>, \<open>mprotect\<close>) and the engine's loader, which calls the hook while it
  runs, are parameters; the mappings, the pending list, the hooks' owned regions, the thread's
  write window and the publish counters are the state.
\<close>

section \<open>State\<close>

record Region =
  reg_base :: nat
  reg_len :: nat

record mapping =
  map_region :: Region
  map_bytes :: bytes
  map_flushed :: bool

text \<open>\<open>owned\<close> lists every region a hook has claimed, with the number of the hook.\<close>

record jit_state =
  pending :: "Region list"
  owned :: "(nat \<times> Region) list"
  mapped :: "mapping list"
  jit_write :: bool
  MAP_JIT_TOTAL :: nat
  FALLBACK_TOTAL :: nat

definition jit_init :: jit_state where
  "jit_init = \<lparr>pending = [], owned = [], mapped = [], jit_write = False,
               MAP_JIT_TOTAL = 0, FALLBACK_TOTAL = 0\<rparr>"

datatype prot = PROT_RX | PROT_RW

text \<open>
  The platform: \<open>sysconf(_SC_PAGESIZE)\<close>, whether it is Apple Silicon, \<open>mmap\<close> given the mappings
  that exist (the base address, or the error text), \<open>mprotect\<close> (the error text, if it fails), and
  the engine library's error constructors.
\<close>

record os =
  sysconf_page :: int
  aarch64 :: bool
  mmap_jit :: "Region list \<Rightarrow> nat \<Rightarrow> (nat, rstr) result"
  mprotect :: "nat \<Rightarrow> nat \<Rightarrow> prot \<Rightarrow> rstr option"
  err_msg :: "rstr \<Rightarrow> wasm_error"
  err_context :: "rstr \<Rightarrow> wasm_error \<Rightarrow> wasm_error"

definition publish_counts :: "bool \<Rightarrow> jit_state \<Rightarrow> nat \<times> nat" where
  "publish_counts macos st = (if macos then (MAP_JIT_TOTAL st, FALLBACK_TOTAL st) else (0, 0))"

section \<open>Mappings\<close>

definition page_size :: "os \<Rightarrow> nat" where
  "page_size sys = (if 0 \<le> sysconf_page sys then nat (sysconf_page sys) else 16 * 1024)"

definition usize_max :: nat where "usize_max = 2 ^ 64 - 1"

definition div_ceil :: "nat \<Rightarrow> nat \<Rightarrow> nat" where
  "div_ceil n d = (n + d - 1) div d"

definition region_len :: "nat \<Rightarrow> nat \<Rightarrow> nat" where
  "region_len page n = div_ceil (max n 1) page * page"

definition region_contains :: "nat \<Rightarrow> nat \<Rightarrow> Region \<Rightarrow> bool" where
  "region_contains ptr len r \<longleftrightarrow>
     reg_base r \<le> ptr \<and> min (ptr + len) usize_max \<le> reg_base r + reg_len r"

definition write_window :: "os \<Rightarrow> bool \<Rightarrow> jit_state \<Rightarrow> jit_state" where
  "write_window sys on st = (if aarch64 sys then st\<lparr>jit_write := on\<rparr> else st)"

text \<open>\<open>Region::drop\<close>: unmap.\<close>

definition region_drop :: "Region \<Rightarrow> jit_state \<Rightarrow> jit_state" where
  "region_drop r st = st\<lparr>mapped := filter (\<lambda>m. map_region m \<noteq> r) (mapped st)\<rparr>"

definition with_contents :: "os \<Rightarrow> bytes \<Rightarrow> jit_state \<Rightarrow> (Region, wasm_error) result \<times> jit_state" where
  "with_contents sys bs st =
     (let len = region_len (page_size sys) (length bs) in
      case mmap_jit sys (map map_region (mapped st)) len of
        Inl e \<Rightarrow>
          (Err (err_msg sys (lit ''MAP_JIT allocation of '' @ dec_digits len @
             lit '' bytes for Wasm code failed: '' @ e @
             lit '' (under the hardened runtime this needs the com.apple.security.cs.allow-jit entitlement)'')), st)
      | Inr base \<Rightarrow>
          (let region = \<lparr>reg_base = base, reg_len = len\<rparr>;
               st = write_window sys True st;
               st = st\<lparr>mapped := mapped st @ [\<lparr>map_region = region,
                      map_bytes = bs @ replicate (len - length bs) 0, map_flushed = True\<rparr>]\<rparr>;
               st = write_window sys False st
           in (Ok region, st)))"

section \<open>Pending mappings and the hook\<close>

text \<open>\<open>Vec::swap_remove\<close>: the last element takes the place of the removed one.\<close>

definition swap_remove :: "nat \<Rightarrow> 'a list \<Rightarrow> 'a list" where
  "swap_remove i xs =
     (if Suc i = length xs then butlast xs else (butlast xs)[i := last xs])"

fun position :: "('a \<Rightarrow> bool) \<Rightarrow> 'a list \<Rightarrow> nat option" where
  "position P [] = None"
| "position P (x # xs) = (if P x then Some 0 else map_option Suc (position P xs))"

definition take_pending :: "(Region \<Rightarrow> bool) \<Rightarrow> jit_state \<Rightarrow> Region option \<times> jit_state" where
  "take_pending f st =
     (case position f (pending st) of
        None \<Rightarrow> (None, st)
      | Some i \<Rightarrow> (Some (pending st ! i), st\<lparr>pending := swap_remove i (pending st)\<rparr>))"

definition owns :: "nat \<Rightarrow> nat \<Rightarrow> nat \<Rightarrow> jit_state \<Rightarrow> bool" where
  "owns hook ptr len st \<longleftrightarrow> list_ex (\<lambda>(h, r). h = hook \<and> region_contains ptr len r) (owned st)"

definition publish_executable ::
  "os \<Rightarrow> nat \<Rightarrow> nat \<Rightarrow> nat \<Rightarrow> jit_state \<Rightarrow> (unit, wasm_error) result \<times> jit_state" where
  "publish_executable sys hook ptr len st =
     (case take_pending (region_contains ptr len) st of
        (Some region, st) \<Rightarrow>
          (Ok (), st\<lparr>owned := owned st @ [(hook, region)], MAP_JIT_TOTAL := MAP_JIT_TOTAL st + 1\<rparr>)
      | (None, st) \<Rightarrow>
          (case mprotect sys ptr len PROT_RX of
             Some e \<Rightarrow> (Err (err_msg sys (lit ''unable to make memory executable: '' @ e)), st)
           | None \<Rightarrow> (Ok (), st\<lparr>FALLBACK_TOTAL := FALLBACK_TOTAL st + 1\<rparr>)))"

definition unpublish_executable ::
  "os \<Rightarrow> nat \<Rightarrow> nat \<Rightarrow> nat \<Rightarrow> jit_state \<Rightarrow> (unit, wasm_error) result \<times> jit_state" where
  "unpublish_executable sys hook ptr len st =
     (if owns hook ptr len st then (Ok (), st)
      else case mprotect sys ptr len PROT_RW of
        Some e \<Rightarrow> (Err (err_msg sys (lit ''unable to make memory read-write: '' @ e)), st)
      | None \<Rightarrow> (Ok (), st))"

text \<open>\<open>Drop\<close> of the hook, with the last user of its engine: every region it owns is unmapped.\<close>

definition hook_drop :: "nat \<Rightarrow> jit_state \<Rightarrow> jit_state" where
  "hook_drop hook st =
     (let gone = map snd (filter (\<lambda>(h, r). h = hook) (owned st)) in
      fold region_drop gone (st\<lparr>owned := filter (\<lambda>(h, r). h \<noteq> hook) (owned st)\<rparr>))"

section \<open>Loading\<close>

text \<open>
  The engine's loader as the hook sees it: it returns, panics, or calls the hook and goes on with
  the answer.
\<close>

datatype 't loader =
    LoadDone "('t, wasm_error) result"
  | LoadPanic
  | LoadPublish nat nat "(unit, wasm_error) result \<Rightarrow> 't loader"
  | LoadUnpublish nat nat "(unit, wasm_error) result \<Rightarrow> 't loader"

primrec run_loader ::
  "os \<Rightarrow> nat \<Rightarrow> 't loader \<Rightarrow> jit_state \<Rightarrow> ('t, wasm_error) result outcome \<times> jit_state" where
  "run_loader sys hook (LoadDone r) st = (Returned r, st)"
| "run_loader sys hook LoadPanic st = (Panicked, st)"
| "run_loader sys hook (LoadPublish ptr len k) st =
     (case publish_executable sys hook ptr len st of (r, st) \<Rightarrow> run_loader sys hook (k r) st)"
| "run_loader sys hook (LoadUnpublish ptr len k) st =
     (case unpublish_executable sys hook ptr len st of (r, st) \<Rightarrow> run_loader sys hook (k r) st)"

text \<open>
  \<open>raw\<close> gets the address and the bytes it finds there; \<open>copy\<close> is the stock loader; \<open>unload\<close> is what
  dropping loaded code does, its \<open>unpublish_executable\<close> calls included.  A panic unwinds through
  \<open>load\<close>: the region is in \<open>PENDING\<close> by then, so only one that has been taken out again is dropped.
\<close>

definition load ::
  "os \<Rightarrow> nat \<Rightarrow> bytes \<Rightarrow> (nat \<Rightarrow> bytes \<Rightarrow> 't loader) \<Rightarrow> ('t \<Rightarrow> unit loader) \<Rightarrow> 't loader \<Rightarrow> jit_state \<Rightarrow>
    ('t, wasm_error) result outcome \<times> jit_state" where
  "load sys hook bs raw unload copy st =
     (case with_contents sys bs st of
        (Inl e, st) \<Rightarrow> (Returned (Err e), st)
      | (Inr region, st) \<Rightarrow>
          (let base = reg_base region in
           if base = 0 then (Panicked, region_drop region st)
           else
             (let st = st\<lparr>pending := pending st @ [region]\<rparr> in
              case run_loader sys hook (raw base bs) st of
                (Panicked, st) \<Rightarrow> (Panicked, st)
              | (Returned result, st) \<Rightarrow>
                  (case take_pending (\<lambda>r. reg_base r = base) st of
                     (None, st) \<Rightarrow> (Returned result, st)
                   | (Some region, st) \<Rightarrow>
                       (case result of
                          Inl e \<Rightarrow>
                            (Returned (Err (err_context sys
                               (lit ''loading Wasm code into MAP_JIT memory (was the engine built with jit_memory::configure?)'') e)),
                             region_drop region st)
                        | Inr loaded \<Rightarrow>
                            (case run_loader sys hook (unload loaded) st of
                               (Panicked, st) \<Rightarrow> (Panicked, region_drop region st)
                             | (Returned _, st) \<Rightarrow> run_loader sys hook copy (region_drop region st)))))))"

section \<open>Lemmas: lists\<close>

lemma swap_remove_mset:
  "i < length xs \<Longrightarrow> add_mset (xs ! i) (mset (swap_remove i xs)) = mset xs"
proof -
  assume i: "i < length xs"
  then have xs: "xs = butlast xs @ [last xs]" by (metis append_butlast_last_id length_0_conv not_less_zero)
  show ?thesis
  proof (cases "Suc i = length xs")
    case True
    then have "xs ! i = last xs" by (metis diff_Suc_1 last_conv_nth length_0_conv nat.simps(3))
    then show ?thesis using True xs by (metis add_mset_add_single mset.simps mset_append swap_remove_def union_commute)
  next
    case False
    with i have i': "i < length (butlast xs)" by simp
    then have "xs ! i = butlast xs ! i" by (simp add: nth_butlast)
    moreover have "mset xs = add_mset (last xs) (mset (butlast xs))"
      by (subst xs) simp
    ultimately show ?thesis
      using False i' by (simp add: swap_remove_def mset_update)
  qed
qed

lemma position_Some:
  "position P xs = Some i \<Longrightarrow> i < length xs \<and> P (xs ! i)"
  by (induction xs arbitrary: i) (auto split: if_splits)

lemma position_None: "position P xs = None \<longleftrightarrow> (\<forall>x \<in> set xs. \<not> P x)"
  by (induction xs) auto

lemma take_pending_None: "take_pending P st = (None, st') \<longleftrightarrow> st' = st \<and> (\<forall>r \<in> set (pending st). \<not> P r)"
  by (cases "position P (pending st)") (auto simp: take_pending_def simp flip: position_None)

lemma take_pending_Some:
  assumes "take_pending P st = (Some r, st')"
  shows "P r \<and> r \<in> set (pending st) \<and> mset (pending st) = add_mset r (mset (pending st')) \<and>
    st' = st\<lparr>pending := pending st'\<rparr>"
  using assms position_Some [of P "pending st"] swap_remove_mset [of _ "pending st"]
  by (auto simp: take_pending_def split: option.splits)

lemma mset_not_in: "r \<notin> set xs \<Longrightarrow> mset xs \<noteq> add_mset r P"
  by (metis set_mset_mset union_single_eq_member)

section \<open>Lemmas: addresses\<close>

definition disjoint :: "Region \<Rightarrow> Region \<Rightarrow> bool" where
  "disjoint r s \<longleftrightarrow> reg_base r + reg_len r \<le> reg_base s \<or> reg_base s + reg_len s \<le> reg_base r"

definition region_ok :: "Region \<Rightarrow> bool" where
  "region_ok r \<longleftrightarrow> 0 < reg_len r \<and> reg_base r + reg_len r < usize_max"

lemma region_contains_iff:
  "region_ok r \<Longrightarrow> region_contains p n r \<longleftrightarrow> reg_base r \<le> p \<and> p + n \<le> reg_base r + reg_len r"
  by (auto simp: region_contains_def region_ok_def min_def)

lemma contains_unique:
  assumes "region_ok r" "region_ok s" "0 < n" "region_contains p n r" "region_contains p n s"
  shows "\<not> disjoint r s"
  using assms by (auto simp: region_contains_iff disjoint_def)

lemma div_ceil_bounds: "0 < d \<Longrightarrow> n \<le> div_ceil n d * d \<and> (0 < n \<longrightarrow> div_ceil n d * d < n + d)"
proof -
  assume d: "0 < d"
  let ?q = "(n + d - 1) div d"
  have "n + d - 1 = ?q * d + (n + d - 1) mod d" by simp
  moreover have "(n + d - 1) mod d < d" using d by simp
  ultimately show ?thesis unfolding div_ceil_def using d by linarith
qed

lemma region_len_bounds:
  "0 < page \<Longrightarrow> n \<le> region_len page n \<and> 0 < region_len page n \<and> page dvd region_len page n \<and>
     region_len page n < max n 1 + page"
  using div_ceil_bounds [of page "max n 1"] by (auto simp: region_len_def)

section \<open>The invariant\<close>

text \<open>
  Every mapping is waiting in the pending list or owned by exactly one hook, mappings are disjoint
  ranges of the address space, and every one has been written and flushed.
\<close>

definition jit_inv :: "jit_state \<Rightarrow> bool" where
  "jit_inv st \<longleftrightarrow>
     mset (map map_region (mapped st)) = mset (pending st) + mset (map snd (owned st)) \<and>
     sorted_wrt (\<lambda>m n. disjoint (map_region m) (map_region n)) (mapped st) \<and>
     list_all (\<lambda>m. region_ok (map_region m) \<and> map_flushed m) (mapped st)"

text \<open>What \<open>mmap\<close> promises: a fresh, non-null range.\<close>

definition mmap_fresh :: "os \<Rightarrow> bool" where
  "mmap_fresh sys \<longleftrightarrow>
     0 < page_size sys \<and>
     (\<forall>rs len base. mmap_jit sys rs len = Ok base \<longrightarrow>
        base \<noteq> 0 \<and> base + len < usize_max \<and>
        (\<forall>r \<in> set rs. disjoint r \<lparr>reg_base = base, reg_len = len\<rparr>))"

text \<open>What the engine's loader promises: it publishes non-empty ranges of the memory it was given.\<close>

primrec publishes_within :: "nat \<Rightarrow> nat \<Rightarrow> 't loader \<Rightarrow> bool" where
  "publishes_within base n (LoadDone r) \<longleftrightarrow> True"
| "publishes_within base n LoadPanic \<longleftrightarrow> True"
| "publishes_within base n (LoadPublish ptr len k) \<longleftrightarrow>
     base \<le> ptr \<and> 0 < len \<and> ptr + len \<le> base + n \<and> (\<forall>r. publishes_within base n (k r))"
| "publishes_within base n (LoadUnpublish ptr len k) \<longleftrightarrow> (\<forall>r. publishes_within base n (k r))"

text \<open>The stock loader allocates its own memory, outside every mapping of this module.\<close>

primrec publishes_outside :: "Region list \<Rightarrow> 't loader \<Rightarrow> bool" where
  "publishes_outside rs (LoadDone r) \<longleftrightarrow> True"
| "publishes_outside rs LoadPanic \<longleftrightarrow> True"
| "publishes_outside rs (LoadPublish ptr len k) \<longleftrightarrow>
     (\<forall>r \<in> set rs. \<not> region_contains ptr len r) \<and> (\<forall>r. publishes_outside rs (k r))"
| "publishes_outside rs (LoadUnpublish ptr len k) \<longleftrightarrow> (\<forall>r. publishes_outside rs (k r))"

text \<open>Dropping code takes it out of use and publishes nothing.\<close>

primrec only_unpublishes :: "'t loader \<Rightarrow> bool" where
  "only_unpublishes (LoadDone r) \<longleftrightarrow> True"
| "only_unpublishes LoadPanic \<longleftrightarrow> True"
| "only_unpublishes (LoadPublish ptr len k) \<longleftrightarrow> False"
| "only_unpublishes (LoadUnpublish ptr len k) \<longleftrightarrow> (\<forall>r. only_unpublishes (k r))"

lemma disjoint_sym: "disjoint r s \<Longrightarrow> disjoint s r"
  by (auto simp: disjoint_def)

lemma not_disjoint_self: "region_ok r \<Longrightarrow> \<not> disjoint r r"
  by (auto simp: disjoint_def region_ok_def)

lemma mapped_regions_unique:
  assumes "jit_inv st" and "m \<in> set (mapped st)" and "n \<in> set (mapped st)"
    and "\<not> disjoint (map_region m) (map_region n)"
  shows "m = n"
proof -
  have "sorted_wrt (\<lambda>m n. disjoint (map_region m) (map_region n)) (mapped st)"
    using assms(1) by (simp add: jit_inv_def)
  moreover obtain i j where "i < length (mapped st)" "j < length (mapped st)" "m = mapped st ! i" "n = mapped st ! j"
    using assms(2,3) by (metis in_set_conv_nth)
  ultimately show ?thesis
    using assms(4) sorted_wrt_nth_less disjoint_sym by (metis linorder_neqE_nat)
qed

lemma jit_inv_regions:
  assumes "jit_inv st" and "r \<in> set (pending st) \<or> r \<in> snd ` set (owned st)"
  obtains m where "m \<in> set (mapped st)" "map_region m = r" "region_ok r"
proof -
  have "set_mset (mset (map map_region (mapped st))) =
      set_mset (mset (pending st) + mset (map snd (owned st)))"
    using assms(1) by (simp only: jit_inv_def)
  then have "r \<in> map_region ` set (mapped st)" using assms(2) by auto
  with assms(1) that show ?thesis by (auto simp: jit_inv_def list_all_iff)
qed

lemma pending_overlap_eq:
  assumes "jit_inv st" and "r \<in> set (pending st)" and "m \<in> set (mapped st)"
    and "\<not> disjoint r (map_region m)"
  shows "r = map_region m"
  using assms mapped_regions_unique jit_inv_regions [OF assms(1), of r] by metis

text \<open>Every mapping has one owner: it is pending, or claimed once.\<close>

lemma jit_inv_distinct: "jit_inv st \<Longrightarrow> distinct (map map_region (mapped st))"
  by (auto simp: jit_inv_def distinct_conv_nth sorted_wrt_iff_nth_less list_all_length)
    (metis disjoint_sym linorder_neqE_nat not_disjoint_self)

lemma owner_distinct:
  assumes "jit_inv st" shows "distinct (pending st @ map snd (owned st))"
proof -
  have "mset (map map_region (mapped st)) = mset (pending st @ map snd (owned st))"
    using assms by (simp add: jit_inv_def)
  then show ?thesis using jit_inv_distinct [OF assms] mset_eq_imp_distinct_iff by blast
qed

lemma owned_not_pending:
  "jit_inv st \<Longrightarrow> r \<in> snd ` set (owned st) \<Longrightarrow> r \<notin> set (pending st)"
  using owner_distinct [of st] by auto

lemma publish_step:
  assumes inv: "jit_inv st" and pub: "publish_executable sys hook ptr len st = (res, st')"
  shows "jit_inv st' \<and> mapped st' = mapped st \<and> jit_write st' = jit_write st \<and>
    ((pending st' = pending st \<and> owned st' = owned st) \<or>
     (\<exists>r. r \<in> set (pending st) \<and> region_contains ptr len r \<and>
        mset (pending st) = add_mset r (mset (pending st')) \<and> owned st' = owned st @ [(hook, r)]))"
proof (cases "take_pending (region_contains ptr len) st")
  case (Pair o1 st1)
  show ?thesis
  proof (cases o1)
    case None
    with Pair have tp: "take_pending (region_contains ptr len) st = (None, st)"
      using take_pending_None [of _ st st1] by simp
    then have "st' = st \<or> st' = st\<lparr>FALLBACK_TOTAL := FALLBACK_TOTAL st + 1\<rparr>"
      using pub by (auto simp: publish_executable_def split: option.splits)
    with inv show ?thesis by (auto simp: jit_inv_def)
  next
    case (Some r)
    with Pair have tp: "take_pending (region_contains ptr len) st = (Some r, st1)" by simp
    note tk = take_pending_Some [OF tp]
    then have st1: "mapped st1 = mapped st" "jit_write st1 = jit_write st" "owned st1 = owned st"
      by (metis jit_state.ext_inject jit_state.surjective jit_state.update_convs(1))+
    have st': "st' = st1\<lparr>owned := owned st1 @ [(hook, r)], MAP_JIT_TOTAL := MAP_JIT_TOTAL st1 + 1\<rparr>"
      using pub tp by (simp add: publish_executable_def)
    with inv tk st1 have "jit_inv st'" by (simp add: jit_inv_def)
    with st' st1 tk show ?thesis by auto
  qed
qed

lemma unpublish_step: "unpublish_executable sys hook ptr len st = (res, st') \<Longrightarrow> st' = st"
  by (auto simp: unpublish_executable_def split: if_splits option.splits)

text \<open>A loader confined to one mapping: it claims that mapping or nothing.\<close>

definition claimed_at_most :: "nat \<Rightarrow> Region \<Rightarrow> jit_state \<Rightarrow> jit_state \<Rightarrow> bool" where
  "claimed_at_most hook r st st' \<longleftrightarrow>
     jit_inv st' \<and> mapped st' = mapped st \<and> jit_write st' = jit_write st \<and>
     ((mset (pending st') = mset (pending st) \<and> owned st' = owned st) \<or>
      (mset (pending st) = add_mset r (mset (pending st')) \<and> owned st' = owned st @ [(hook, r)]))"

lemma claimed_trans:
  assumes "claimed_at_most hook r st st1" and "claimed_at_most hook r st1 st2"
  shows "claimed_at_most hook r st st2"
proof -
  have "mset (pending st1) \<noteq> add_mset r P" if "owned st1 = owned st @ [(hook, r)]" for P
    using that assms(1) owned_not_pending [of st1 r]
    by (intro mset_not_in) (auto simp: claimed_at_most_def)
  with assms show ?thesis by (auto simp: claimed_at_most_def)
qed

lemma confined_publish:
  assumes inv: "jit_inv st" and m: "m \<in> set (mapped st)" and "0 < len"
    and "reg_base (map_region m) \<le> ptr" "ptr + len \<le> reg_base (map_region m) + reg_len (map_region m)"
    and pub: "publish_executable sys hook ptr len st = (res, st')"
  shows "claimed_at_most hook (map_region m) st st'"
proof -
  have ok: "region_ok (map_region m)" using inv m by (auto simp: jit_inv_def list_all_iff)
  have mine: "region_contains ptr len (map_region m)" using assms(4,5) ok by (simp add: region_contains_iff)
  have "r = map_region m" if "r \<in> set (pending st)" "region_contains ptr len r" for r
  proof -
    have "region_ok r" using jit_inv_regions [OF inv] that(1) by metis
    then have "\<not> disjoint r (map_region m)" using contains_unique [OF _ ok \<open>0 < len\<close> that(2) mine] by blast
    then show ?thesis using pending_overlap_eq [OF inv that(1) m] by simp
  qed
  with publish_step [OF inv pub] inv show ?thesis unfolding claimed_at_most_def by metis
qed

lemma confined_loader:
  "run_loader sys hook L st = (res, st') \<Longrightarrow> jit_inv st \<Longrightarrow> m \<in> set (mapped st) \<Longrightarrow>
     n \<le> reg_len (map_region m) \<Longrightarrow> publishes_within (reg_base (map_region m)) n L \<Longrightarrow>
     claimed_at_most hook (map_region m) st st'"
proof (induction L arbitrary: st)
  case (LoadDone r)
  then show ?case by (simp add: claimed_at_most_def)
next
  case LoadPanic
  then show ?case by (simp add: claimed_at_most_def)
next
  case (LoadPublish ptr len k)
  obtain r st1 where pub: "publish_executable sys hook ptr len st = (r, st1)" by fastforce
  have first: "claimed_at_most hook (map_region m) st st1"
    using LoadPublish.prems confined_publish [OF LoadPublish.prems(2,3) _ _ _ pub] by simp
  then have "jit_inv st1" "mapped st1 = mapped st" by (simp_all add: claimed_at_most_def)
  with LoadPublish.prems pub have "claimed_at_most hook (map_region m) st1 st'"
    by (intro LoadPublish.IH [OF rangeI, of r]) simp_all
  with first show ?case by (rule claimed_trans)
next
  case (LoadUnpublish ptr len k)
  obtain r st1 where un: "unpublish_executable sys hook ptr len st = (r, st1)" by fastforce
  then have "st1 = st" by (rule unpublish_step)
  with LoadUnpublish.prems un show ?case by (intro LoadUnpublish.IH [OF rangeI, of r]) simp_all
qed

lemma stock_loader:
  "run_loader sys hook L st = (res, st') \<Longrightarrow> jit_inv st \<Longrightarrow> publishes_outside (pending st) L \<Longrightarrow>
     jit_inv st' \<and> pending st' = pending st \<and> owned st' = owned st \<and> mapped st' = mapped st \<and>
     jit_write st' = jit_write st"
proof (induction L arbitrary: st)
  case (LoadPublish ptr len k)
  obtain r st1 where pub: "publish_executable sys hook ptr len st = (r, st1)" by fastforce
  with publish_step [OF LoadPublish.prems(2) pub] LoadPublish.prems(3)
  have "jit_inv st1" "pending st1 = pending st" "owned st1 = owned st" "mapped st1 = mapped st"
    "jit_write st1 = jit_write st" by auto
  with LoadPublish.prems pub LoadPublish.IH [OF rangeI, of r st1] show ?case by simp
next
  case (LoadUnpublish ptr len k)
  obtain r st1 where un: "unpublish_executable sys hook ptr len st = (r, st1)" by fastforce
  then have "st1 = st" by (rule unpublish_step)
  with LoadUnpublish.prems un LoadUnpublish.IH [OF rangeI, of r st] show ?case by simp
qed simp_all

lemma unloading: "only_unpublishes L \<Longrightarrow> run_loader sys hook L st = (res, st') \<Longrightarrow> st' = st"
proof (induction L arbitrary: st)
  case (LoadUnpublish ptr len k)
  obtain r st1 where un: "unpublish_executable sys hook ptr len st = (r, st1)" by fastforce
  then have "st1 = st" by (rule unpublish_step)
  with LoadUnpublish.prems un LoadUnpublish.IH [OF rangeI, of r st] show ?case by simp
qed simp_all

section \<open>One load\<close>

lemma with_contents_Ok:
  assumes inv: "jit_inv st" and fresh: "mmap_fresh sys" and ok: "with_contents sys bs st = (Ok r, st1)"
  obtains m where "map_region m = r" "take (length bs) (map_bytes m) = bs" "mapped st1 = mapped st @ [m]"
    "pending st1 = pending st" "owned st1 = owned st" "jit_write st1 = (jit_write st \<and> \<not> aarch64 sys)"
    "reg_base r \<noteq> 0" "length bs \<le> reg_len r" "region_ok r" "map_flushed m"
    "\<forall>m' \<in> set (mapped st). disjoint (map_region m') r"
proof -
  let ?len = "region_len (page_size sys) (length bs)"
  from ok obtain base where base: "mmap_jit sys (map map_region (mapped st)) ?len = Ok base"
    by (auto simp: with_contents_def Let_def split: sum.splits)
  let ?r = "\<lparr>reg_base = base, reg_len = ?len\<rparr>"
  let ?m = "\<lparr>map_region = ?r, map_bytes = bs @ replicate (?len - length bs) 0, map_flushed = True\<rparr>"
  have page: "0 < page_size sys" and mm: "base \<noteq> 0" "base + ?len < usize_max"
    "\<forall>m' \<in> set (mapped st). disjoint (map_region m') ?r"
    using fresh base by (auto simp: mmap_fresh_def)
  have res: "r = ?r" "mapped st1 = mapped st @ [?m]" "pending st1 = pending st" "owned st1 = owned st"
    "jit_write st1 = (jit_write st \<and> \<not> aarch64 sys)"
    using ok base by (cases "aarch64 sys"; auto simp: with_contents_def Let_def write_window_def)+
  show ?thesis
    using that [of ?m] res mm region_len_bounds [OF page, of "length bs"] by (simp add: region_ok_def)
qed

lemma drop_last_mapping:
  assumes "\<forall>m' \<in> set ms. disjoint (map_region m') (map_region m)" "region_ok (map_region m)"
  shows "filter (\<lambda>m'. map_region m' \<noteq> map_region m) (ms @ [m]) = ms"
proof -
  have "map_region m' \<noteq> map_region m" if "m' \<in> set ms" for m'
    using that assms not_disjoint_self by fastforce
  then show ?thesis by (auto intro: filter_True)
qed

definition load_frame :: "nat \<Rightarrow> bytes \<Rightarrow> jit_state \<Rightarrow> jit_state \<Rightarrow> bool" where
  "load_frame hook bs st st' \<longleftrightarrow>
     jit_inv st' \<and> mset (pending st') = mset (pending st) \<and> (\<not> jit_write st \<longrightarrow> \<not> jit_write st') \<and>
     ((mapped st' = mapped st \<and> owned st' = owned st) \<or>
      (\<exists>m. mapped st' = mapped st @ [m] \<and> owned st' = owned st @ [(hook, map_region m)] \<and>
         take (length bs) (map_bytes m) = bs))"

text \<open>What a panic in the raw loader leaves: the mapping, still pending.\<close>

definition left_pending :: "bytes \<Rightarrow> jit_state \<Rightarrow> jit_state \<Rightarrow> bool" where
  "left_pending bs st st' \<longleftrightarrow>
     jit_inv st' \<and> owned st' = owned st \<and> (\<not> jit_write st \<longrightarrow> \<not> jit_write st') \<and>
     (\<exists>m. mapped st' = mapped st @ [m] \<and> mset (pending st') = add_mset (map_region m) (mset (pending st)) \<and>
        take (length bs) (map_bytes m) = bs)"

text \<open>After the raw loader: the mapping was claimed by the hook, or is still pending.\<close>

lemma load_claimed:
  assumes inv3: "jit_inv st3" "mapped st3 = mapped st @ [m]" and r: "map_region m = r"
    and claimed: "claimed_at_most hook r (st1\<lparr>pending := pending st @ [r]\<rparr>) st3"
    and st1: "owned st1 = owned st" and gone: "r \<notin> set (pending st3)"
  shows "mset (pending st3) = mset (pending st) \<and> owned st3 = owned st @ [(hook, map_region m)]"
  using claimed st1 mset_not_in [OF gone] r by (auto simp: claimed_at_most_def)

lemma load_unclaimed:
  assumes inv3: "jit_inv st3" "mapped st3 = mapped st @ [m]" and r: "map_region m = r" "region_ok r"
    and claimed: "claimed_at_most hook r (st1\<lparr>pending := pending st @ [r]\<rparr>) st3"
    and st1: "owned st1 = owned st" and inv: "jit_inv st"
    and disj: "\<forall>m' \<in> set (mapped st). disjoint (map_region m') r"
    and tp: "take_pending (\<lambda>s. reg_base s = reg_base r) st3 = (Some s, st4)"
  shows "s = r \<and> jit_inv (region_drop r st4) \<and> mapped (region_drop r st4) = mapped st \<and>
    owned (region_drop r st4) = owned st \<and> mset (pending (region_drop r st4)) = mset (pending st) \<and>
    jit_write (region_drop r st4) = jit_write st3"
proof -
  note tk = take_pending_Some [OF tp]
  have "region_ok s" using tk inv3 jit_inv_regions by metis
  with tk r(2) have "\<not> disjoint s r" by (auto simp: disjoint_def region_ok_def)
  then have s: "s = r" using pending_overlap_eq [OF inv3(1), of s m] tk inv3(2) r(1) by simp
  with tk have "r \<in> set (pending st3)" by simp
  then have unclaimed: "mset (pending st3) = add_mset r (mset (pending st))" "owned st3 = owned st"
    using claimed owned_not_pending [OF inv3(1), of r] st1 by (auto simp: claimed_at_most_def)
  have st4: "mapped st4 = mapped st3" "jit_write st4 = jit_write st3" "owned st4 = owned st3"
    using tk by (metis jit_state.ext_inject jit_state.surjective jit_state.update_convs(1))+
  moreover have "mset (pending st4) = mset (pending st)" using tk unclaimed(1) s by simp
  ultimately have "mapped (region_drop r st4) = mapped st \<and> owned (region_drop r st4) = owned st \<and>
      mset (pending (region_drop r st4)) = mset (pending st) \<and> jit_write (region_drop r st4) = jit_write st3"
    using drop_last_mapping [of "mapped st" m] r disj inv3(2) unclaimed(2) by (simp add: region_drop_def)
  with inv s show ?thesis by (simp add: jit_inv_def)
qed

lemma load_correct:
  assumes inv: "jit_inv st" and fresh: "mmap_fresh sys"
    and raw: "\<And>base. publishes_within base (length bs) (raw base bs)"
    and unload: "\<And>loaded. only_unpublishes (unload loaded)"
    and copy: "\<And>ps. mset ps = mset (pending st) \<Longrightarrow> publishes_outside ps copy"
    and load: "load sys hook bs raw unload copy st = (res, st')"
  shows "load_frame hook bs st st' \<or> (res = Panicked \<and> left_pending bs st st' \<and>
    (\<exists>base st1 st2. run_loader sys hook (raw base bs) st1 = (Panicked, st2)))"
proof (cases "with_contents sys bs st")
  case (Pair wc st1)
  show ?thesis
  proof (cases wc)
    case (Inl e)
    with Pair have "st1 = st" by (auto simp: with_contents_def Let_def split: sum.splits)
    with Pair Inl load inv show ?thesis by (auto simp: load_def load_frame_def)
  next
    case (Inr r)
    with Pair have wc: "with_contents sys bs st = (Ok r, st1)" by simp
    obtain m where m: "map_region m = r" "take (length bs) (map_bytes m) = bs" "mapped st1 = mapped st @ [m]"
      "pending st1 = pending st" "owned st1 = owned st" "jit_write st1 = (jit_write st \<and> \<not> aarch64 sys)"
      "reg_base r \<noteq> 0" "length bs \<le> reg_len r" "region_ok r" "map_flushed m"
      "\<forall>m' \<in> set (mapped st). disjoint (map_region m') r"
      using with_contents_Ok [OF inv fresh wc] .
    let ?st2 = "st1\<lparr>pending := pending st @ [r]\<rparr>"
    have inv2: "jit_inv ?st2" using inv m by (auto simp: jit_inv_def sorted_wrt_append)
    obtain out st3 where run: "run_loader sys hook (raw (reg_base r) bs) ?st2 = (out, st3)"
      by fastforce
    have claimed: "claimed_at_most hook r ?st2 st3"
      using confined_loader [OF run inv2, of m "length bs"] m raw by simp
    then have inv3: "jit_inv st3" "mapped st3 = mapped st @ [m]" and jw: "\<not> jit_write st \<longrightarrow> \<not> jit_write st3"
      using m by (simp_all add: claimed_at_most_def)
    show ?thesis
    proof (cases out)
      case Panicked
      then have "res = Panicked" "st' = st3" using load wc run m(4,7) by (simp_all add: load_def Let_def)
      moreover have "(owned st3 = owned st \<and> mset (pending st3) = add_mset (map_region m) (mset (pending st))) \<or>
          (mset (pending st3) = mset (pending st) \<and> owned st3 = owned st @ [(hook, map_region m)])"
        using claimed m(1,5) by (auto simp: claimed_at_most_def)
      then have "left_pending bs st st3 \<or> load_frame hook bs st st3"
        unfolding left_pending_def load_frame_def using inv3 jw m(2) by blast
      ultimately show ?thesis using run Panicked by blast
    next
      case (Returned result)
      obtain tp st4 where tp: "take_pending (\<lambda>s. reg_base s = reg_base r) st3 = (tp, st4)" by fastforce
      have "load_frame hook bs st st'"
      proof (cases tp)
        case None
        with tp have "st4 = st3" "r \<notin> set (pending st3)" by (auto simp: take_pending_None)
        moreover have "st' = st4"
          using load wc run m(4,7) tp None Returned by (auto simp: load_def Let_def)
        ultimately show ?thesis
          using load_claimed [OF inv3 m(1) claimed m(5)] inv3 jw m(2) by (auto simp: load_frame_def)
      next
        case (Some s)
        note un = load_unclaimed [OF inv3 m(1,9) claimed m(5) inv m(11) tp [unfolded Some]]
        obtain cr st6 where cp: "run_loader sys hook copy (region_drop r st4) = (cr, st6)" by fastforce
        have "publishes_outside (pending (region_drop r st4)) copy" using copy un by simp
        then have stock: "load_frame hook bs st st6" "load_frame hook bs st (region_drop r st4)"
          using stock_loader [OF cp] un jw by (simp_all add: load_frame_def)
        have dropped: "snd (run_loader sys hook (unload x) st4) = st4" for x
          using unloading [OF unload] by (metis prod.collapse)
        have "st' = region_drop r st4 \<or> st' = st6"
        proof (cases result)
          case (Inl e)
          then show ?thesis using load wc run m(4,7) tp Some Returned un by (auto simp: load_def Let_def)
        next
          case (Inr x)
          obtain o1 where "run_loader sys hook (unload x) st4 = (o1, st4)"
            using dropped [of x] by (metis prod.collapse)
          then show ?thesis
            using Inr load wc run m(4,7) tp Some Returned un cp by (cases o1) (auto simp: load_def Let_def)
        qed
        with stock show ?thesis by auto
      qed
      then show ?thesis ..
    qed
  qed
qed

text \<open>
  The other side: a raw loader that panics before it has published anything leaves the mapping in
  \<open>PENDING\<close>, where no engine will claim it and nothing unmaps it.
\<close>

lemma load_panic_leaks:
  assumes "with_contents sys bs st = (Ok r, st1)" and "reg_base r \<noteq> 0"
  shows "load sys hook bs (\<lambda>_ _. LoadPanic) unload copy st = (Panicked, st1\<lparr>pending := pending st1 @ [r]\<rparr>)"
  using assms by (simp add: load_def)

section \<open>Dropping a hook\<close>

lemma fold_region_drop:
  "mapped (fold region_drop rs st) = filter (\<lambda>m. map_region m \<notin> set rs) (mapped st) \<and>
   pending (fold region_drop rs st) = pending st \<and> owned (fold region_drop rs st) = owned st \<and>
   jit_write (fold region_drop rs st) = jit_write st"
proof (induction rs arbitrary: st)
  case (Cons r rs)
  show ?case using Cons [of "region_drop r st"]
    by (auto simp: region_drop_def intro: filter_cong)
qed simp

lemma owned_once:
  assumes "jit_inv st" and "(h, r) \<in> set (owned st)" "(h', r) \<in> set (owned st)"
  shows "h = h'"
proof -
  have "inj_on snd (set (owned st))" using owner_distinct [OF assms(1)] by (simp add: distinct_map)
  with assms(2,3) show ?thesis using inj_onD [of snd _ "(h, r)" "(h', r)"] by fastforce
qed

section \<open>Properties\<close>

text \<open>
  C32. Loading code leaks no mapping unless the engine's raw loader panics.  For an operating system
  that maps fresh ranges and a loader that publishes inside the memory it is given, after a load of
  any artifact, whatever its outcome, every mapping has exactly one owner and the thread's write
  window is closed; if the load returns, with code or an error, the pending list is as it was (up to
  order) and there is either one more mapping, which holds the artifact and belongs to the engine's
  hook, or none.  A panic leaves the same, or else comes from the raw loader, and then at most this
  load's own mapping is left behind, still pending and owned by no hook.
\<close>

theorem load_no_leak:
  assumes "jit_inv st" and "mmap_fresh sys"
    and "\<And>base. publishes_within base (length bs) (raw base bs)"
    and "\<And>loaded. only_unpublishes (unload loaded)"
    and "\<And>ps. mset ps = mset (pending st) \<Longrightarrow> publishes_outside ps copy"
    and "load sys hook bs raw unload copy st = (res, st')"
  shows "jit_inv st' \<and> (\<not> jit_write st \<longrightarrow> \<not> jit_write st') \<and>
    ((mset (pending st') = mset (pending st) \<and>
       ((mapped st' = mapped st \<and> owned st' = owned st) \<or>
        (\<exists>m. mapped st' = mapped st @ [m] \<and> owned st' = owned st @ [(hook, map_region m)] \<and>
           take (length bs) (map_bytes m) = bs))) \<or>
     (res = Panicked \<and> (\<exists>base st1 st2. run_loader sys hook (raw base bs) st1 = (Panicked, st2)) \<and>
       owned st' = owned st \<and>
       (\<exists>m. mapped st' = mapped st @ [m] \<and> mset (pending st') = add_mset (map_region m) (mset (pending st)) \<and>
          take (length bs) (map_bytes m) = bs)))"
  using load_correct [OF assms] by (auto simp: load_frame_def left_pending_def)

text \<open>An operating system that maps pages one after another from 64 KiB up, and never fails.\<close>

definition demo_os :: os where
  "demo_os =
     \<lparr>sysconf_page = 16384, aarch64 = True,
      mmap_jit = (\<lambda>rs len. let base = fold (\<lambda>r. max (reg_base r + reg_len r)) rs 65536
                  in if base + len < usize_max then Ok base else Err (lit ''ENOMEM'')),
      mprotect = (\<lambda>_ _ _. None), err_msg = (\<lambda>s. \<lparr>err_display = s, err_alternate = s, err_sources = []\<rparr>),
      err_context = (\<lambda>c e. e)\<rparr>"

lemma fold_max_ge:
  "(a :: nat) \<le> fold (\<lambda>r. max (f r)) rs a \<and> (\<forall>r \<in> set rs. f r \<le> fold (\<lambda>r. max (f r)) rs a)"
proof (induction rs arbitrary: a)
  case (Cons r rs)
  show ?case using Cons [of "max (f r) a"] by auto
qed simp

lemma demo_os_fresh: "mmap_fresh demo_os"
proof -
  have "base \<noteq> 0 \<and> base + len < usize_max \<and> (\<forall>r \<in> set rs. disjoint r \<lparr>reg_base = base, reg_len = len\<rparr>)"
    if "mmap_jit demo_os rs len = Ok base" for rs len base
  proof -
    from that have "base = fold (\<lambda>r. max (reg_base r + reg_len r)) rs 65536" "base + len < usize_max"
      by (simp_all add: demo_os_def Let_def split: if_splits)
    then show ?thesis
      using fold_max_ge [of 65536 "\<lambda>r. reg_base r + reg_len r" rs] by (auto simp: disjoint_def)
  qed
  moreover have "0 < page_size demo_os" by (simp add: page_size_def demo_os_def)
  ultimately show ?thesis unfolding mmap_fresh_def by blast
qed

text \<open>Code that is published, and unpublished when it is dropped.\<close>

definition demo_raw :: "nat \<Rightarrow> bytes \<Rightarrow> bytes loader" where
  "demo_raw base bs = LoadPublish base 3 (\<lambda>r. LoadDone (map_ok (\<lambda>_. bs) r))"

definition demo_unload :: "bytes \<Rightarrow> unit loader" where
  "demo_unload bs = LoadUnpublish 65536 3 (\<lambda>r. LoadDone r)"

theorem load_no_leak_witness:
  "\<exists>st' m. load demo_os 7 [1, 2, 3] demo_raw demo_unload (LoadDone (Ok [])) jit_init =
       (Returned (Ok [1, 2, 3]), st') \<and>
     pending st' = [] \<and> mapped st' = [m] \<and> take 3 (map_bytes m) = [1, 2, 3]"
proof -
  let ?L = "load demo_os 7 [1, 2, 3] demo_raw demo_unload (LoadDone (Ok [])) jit_init"
  have inv: "jit_inv jit_init" by (simp add: jit_inv_def jit_init_def)
  have os: "region_len (page_size demo_os) (Suc (Suc (Suc 0))) = 16384" "aarch64 demo_os"
    "mmap_jit demo_os [] 16384 = Ok 65536"
    by (simp_all add: region_len_def div_ceil_def page_size_def demo_os_def usize_max_def)
  have wc: "with_contents demo_os [1, 2, 3] jit_init = (Ok \<lparr>reg_base = 65536, reg_len = 16384\<rparr>,
      jit_init\<lparr>mapped := [\<lparr>map_region = \<lparr>reg_base = 65536, reg_len = 16384\<rparr>,
        map_bytes = [1, 2, 3] @ replicate 16381 0, map_flushed = True\<rparr>]\<rparr>)"
    by (simp add: with_contents_def Let_def os jit_init_def write_window_def)
  have "\<exists>st'. ?L = (Returned (Ok [1, 2, 3]), st') \<and> mapped st' \<noteq> []"
    unfolding load_def wc demo_raw_def
    by (simp add: Let_def publish_executable_def take_pending_def jit_init_def
        region_contains_def usize_max_def swap_remove_def)
  then obtain st' where st': "?L = (Returned (Ok [1, 2, 3]), st')" "mapped st' \<noteq> []" by blast
  have "publishes_within base (length [1, 2, 3 :: u8]) (demo_raw base [1, 2, 3])"
    "only_unpublishes (demo_unload x)" for base x
    by (simp_all add: demo_raw_def demo_unload_def)
  from load_no_leak [OF inv demo_os_fresh this _ st'(1)] st' show ?thesis
    by (auto simp: jit_init_def numeral_3_eq_3)
qed

text \<open>
  C33. An engine's mappings live exactly as long as its hook: dropping the hook unmaps every region
  it has claimed and no other, and keeps every other mapping with its owner.
\<close>

theorem hook_drop_unmaps:
  assumes "jit_inv st"
  shows "jit_inv (hook_drop h st) \<and> pending (hook_drop h st) = pending st \<and>
    mapped (hook_drop h st) = filter (\<lambda>m. (h, map_region m) \<notin> set (owned st)) (mapped st)"
proof -
  let ?gone = "map snd (filter (\<lambda>(k, r). k = h) (owned st))"
  have gone: "r \<in> set ?gone \<longleftrightarrow> (h, r) \<in> set (owned st)" for r by force
  have drop: "mapped (hook_drop h st) = filter (\<lambda>m. (h, map_region m) \<notin> set (owned st)) (mapped st)"
    "pending (hook_drop h st) = pending st" "owned (hook_drop h st) = filter (\<lambda>(k, r). k \<noteq> h) (owned st)"
    using fold_region_drop [of ?gone "st\<lparr>owned := filter (\<lambda>(k, r). k \<noteq> h) (owned st)\<rparr>"] gone
    by (simp_all add: hook_drop_def Let_def)
  have keep: "filter_mset (\<lambda>r. (h, r) \<notin> set (owned st)) (mset (pending st)) = mset (pending st)"
    using owned_not_pending [OF assms] by (intro filter_mset_eq_conv [THEN iffD2]) force
  have own: "filter_mset (\<lambda>r. (h, r) \<notin> set (owned st)) (mset (map snd (owned st))) =
      mset (map snd (filter (\<lambda>(k, r). k \<noteq> h) (owned st)))"
  proof -
    have "(h, r) \<notin> set (owned st) \<longleftrightarrow> k \<noteq> h" if "(k, r) \<in> set (owned st)" for k r
      using that owned_once [OF assms] by blast
    then have "filter (\<lambda>x. (h, snd x) \<notin> set (owned st)) (owned st) = filter (\<lambda>(k, r). k \<noteq> h) (owned st)"
      by (intro filter_cong) auto
    then show ?thesis unfolding mset_filter [symmetric] filter_map comp_def by (simp only:)
  qed
  have "mset (map map_region (mapped (hook_drop h st))) =
      filter_mset (\<lambda>r. (h, r) \<notin> set (owned st)) (mset (map map_region (mapped st)))"
    unfolding mset_filter [symmetric] filter_map comp_def drop by (simp only:)
  also have "\<dots> = mset (pending st) + mset (map snd (filter (\<lambda>(k, r). k \<noteq> h) (owned st)))"
    using assms keep own by (simp only: jit_inv_def filter_union_mset)
  finally have "jit_inv (hook_drop h st)"
    using assms drop by (simp add: jit_inv_def sorted_wrt_filter list_all_iff)
  with drop show ?thesis by simp
qed

theorem hook_drop_unmaps_witness:
  "let r = \<lparr>reg_base = 65536, reg_len = 16384\<rparr>; s = \<lparr>reg_base = 81920, reg_len = 16384\<rparr>;
       m = (\<lambda>r. \<lparr>map_region = r, map_bytes = [], map_flushed = True\<rparr>)
   in mapped (hook_drop 3 (jit_init\<lparr>owned := [(3, r), (4, s)], mapped := [m r, m s]\<rparr>)) = [m s]"
proof -
  let ?r = "\<lparr>reg_base = 65536, reg_len = 16384\<rparr>" and ?s = "\<lparr>reg_base = 81920, reg_len = 16384\<rparr>"
  let ?m = "\<lambda>r. \<lparr>map_region = r, map_bytes = [], map_flushed = True\<rparr>"
  have "jit_inv (jit_init\<lparr>owned := [(3, ?r), (4, ?s)], mapped := [?m ?r, ?m ?s]\<rparr>)"
    by (simp add: jit_inv_def jit_init_def disjoint_def region_ok_def usize_max_def)
  from hook_drop_unmaps [OF this, of 3] show ?thesis by (simp add: Let_def)
qed

end
