(* ===== verification/Engine.thy ===== *)
theory Engine
  imports Jit_Memory
begin

text \<open>
  The engine as the runtime uses it.  The record \<open>wasmtime\<close> holds the Wasmtime operations the crate
  calls, which are parameters; on top of them come the crate's own engine builders (\<open>make_engine\<close>,
  \<open>p3_engine\<close>, \<open>p3s_engine\<close> of \<open>src/lib.rs\<close>, \<open>limits::configure_engine\<close>) and the code loaders
  of \<open>src/jit_memory.rs\<close>, which on macOS go through \<open>MAP_JIT\<close> memory.  It also has the WebAssembly
  programs the crate embeds as WAT text, by their syntax trees, with their semantics.
\<close>

section \<open>Calls that can fail\<close>

text \<open>A call into the engine returns a \<open>wasmtime::Result\<close> or panics.\<close>

type_synonym 'a run = "('a, wasm_error) result outcome"

text \<open>Such calls in sequence, over the process's code memory; \<open>act_bind\<close> is \<open>?\<close>.\<close>

type_synonym 'a act = "jit_state \<Rightarrow> 'a run \<times> jit_state"

definition act_bind :: "'a act \<Rightarrow> ('a \<Rightarrow> 'b act) \<Rightarrow> 'b act" where
  "act_bind m f st =
     (case m st of
        (Returned (Inr x), st) \<Rightarrow> f x st
      | (Returned (Inl e), st) \<Rightarrow> (Returned (Inl e), st)
      | (Panicked, st) \<Rightarrow> (Panicked, st))"

definition eff :: "'a run \<Rightarrow> 'a act" where
  "eff r st = (r, st)"

definition act_return :: "'a \<Rightarrow> 'a act" where
  "act_return x st = (Returned (Ok x), st)"

lemma act_bind_simps [simp]:
  "act_bind (eff (Returned (Ok x))) f st = f x st"
  "act_bind (eff (Returned (Err e))) f st = (Returned (Err e), st)"
  "act_bind (eff Panicked) f st = (Panicked, st)"
  "eff r st = (r, st)"
  by (simp_all add: act_bind_def eff_def)

section \<open>WebAssembly\<close>

datatype instr = LocalGet nat | I32Const u32 | I32Add | I32Mul | CallImport

text \<open>
  A program with one exported function: its parameters and body, the arity of its one import and
  whether that returns a value (\<open>task.return\<close> does not), and whether the export is lifted with the
  canonical async ABI, in which case its result is what it passes to \<open>task.return\<close>.
\<close>

record wat =
  wat_export :: string
  wat_params :: nat
  wat_import_args :: nat
  wat_async_lift :: bool
  wat_body :: "instr list"

definition ADD_WAT :: wat where
  "ADD_WAT = \<lparr>wat_export = ''add'', wat_params = 2, wat_import_args = 0, wat_async_lift = False,
              wat_body = [LocalGet 0, LocalGet 1, I32Add]\<rparr>"

definition ADD_COMPONENT_WAT :: wat where
  "ADD_COMPONENT_WAT =
     \<lparr>wat_export = ''add'', wat_params = 2, wat_import_args = 0, wat_async_lift = False,
      wat_body = [LocalGet 0, LocalGet 1, I32Add]\<rparr>"

definition HOST_IMPORT_COMPONENT_WAT :: wat where
  "HOST_IMPORT_COMPONENT_WAT =
     \<lparr>wat_export = ''run'', wat_params = 1, wat_import_args = 1, wat_async_lift = False,
      wat_body = [LocalGet 0, CallImport]\<rparr>"

definition WORKSPACE_READ_COMPONENT_WAT :: wat where
  "WORKSPACE_READ_COMPONENT_WAT =
     \<lparr>wat_export = ''run'', wat_params = 0, wat_import_args = 0, wat_async_lift = False,
      wat_body = [CallImport]\<rparr>"

definition ASYNC_WAT :: wat where
  "ASYNC_WAT =
     \<lparr>wat_export = ''run'', wat_params = 1, wat_import_args = 1, wat_async_lift = False,
      wat_body = [LocalGet 0, CallImport]\<rparr>"

definition CANON_ASYNC_WAT :: wat where
  "CANON_ASYNC_WAT =
     \<lparr>wat_export = ''run'', wat_params = 1, wat_import_args = 1, wat_async_lift = True,
      wat_body = [LocalGet 0, I32Const 2, I32Mul, CallImport, I32Const 0]\<rparr>"

text \<open>
  Execution on an operand stack, with the list of import calls made.  The import gets its arguments
  in order and pushes its results, or fails, which traps.  \<open>None\<close> is a stack underflow or a bad
  local index, which validation excludes.
\<close>

type_synonym import_fn = "u32 list \<Rightarrow> (u32 list, wasm_error) result"
type_synonym frame = "u32 list \<times> u32 list list"

fun exec_instr :: "import_fn \<Rightarrow> nat \<Rightarrow> u32 list \<Rightarrow> instr \<Rightarrow> frame \<Rightarrow> (frame, wasm_error) result option" where
  "exec_instr imp n ls (LocalGet i) (stk, tr) =
     (if i < length ls then Some (Ok (ls ! i # stk, tr)) else None)"
| "exec_instr imp n ls (I32Const c) (stk, tr) = Some (Ok (c # stk, tr))"
| "exec_instr imp n ls I32Add (b # a # stk, tr) = Some (Ok ((a + b) # stk, tr))"
| "exec_instr imp n ls I32Mul (b # a # stk, tr) = Some (Ok ((a * b) # stk, tr))"
| "exec_instr imp n ls CallImport (stk, tr) =
     (if length stk < n then None
      else let args = rev (take n stk)
           in Some (map_ok (\<lambda>vs. (vs @ drop n stk, tr @ [args])) (imp args)))"
| "exec_instr imp n ls i fr = None"

fun exec_body :: "import_fn \<Rightarrow> nat \<Rightarrow> u32 list \<Rightarrow> instr list \<Rightarrow> frame \<Rightarrow> (frame, wasm_error) result option" where
  "exec_body imp n ls [] fr = Some (Ok fr)"
| "exec_body imp n ls (i # is) fr =
     (case exec_instr imp n ls i fr of
        None \<Rightarrow> None
      | Some (Inl e) \<Rightarrow> Some (Err e)
      | Some (Inr fr') \<Rightarrow> exec_body imp n ls is fr')"

text \<open>
  What a call of the export delivers: the value left on the stack or, under the async lift, the
  value passed to \<open>task.return\<close> once the function has returned \<open>callback_code::EXIT\<close> (0).
\<close>

definition wat_call :: "wat \<Rightarrow> import_fn option \<Rightarrow> u32 list \<Rightarrow> (u32, wasm_error) result option" where
  "wat_call w imp args =
     (let imp = (if wat_async_lift w then (\<lambda>_. Ok []) else case imp of Some f \<Rightarrow> f | None \<Rightarrow> (\<lambda>_. Ok [])) in
      case exec_body imp (wat_import_args w) args (wat_body w) ([], []) of
        Some (Inl e) \<Rightarrow> Some (Err e)
      | Some (Inr ([v], tr)) \<Rightarrow>
          (if wat_async_lift w then (if v = 0 then (case tr of [[r]] \<Rightarrow> Some (Ok r) | _ \<Rightarrow> None) else None)
           else Some (Ok v))
      | _ \<Rightarrow> None)"

section \<open>Wasmtime\<close>

text \<open>
  Code to load: the crate's own WAT text, or bytes handed in.  Core modules and components have
  their own operations, as \<open>Module\<close> and \<open>Component\<close> do; the blocking and the \<open>async\<close> forms of
  instantiation and calls are one operation.
\<close>

datatype wasm_src = WatText wat | Binary bytes

record ('cfg, 'eng, 'mod, 'code, 'store, 'inst, 'fn) wasmtime =
  target_macos :: bool
  platform :: os
  config_new :: 'cfg
  with_custom_code_memory :: "'cfg \<Rightarrow> 'cfg"
  cfg_component_model :: "'cfg \<Rightarrow> 'cfg"
  cfg_component_model_async :: "'cfg \<Rightarrow> 'cfg"
  cfg_concurrency_support :: "'cfg \<Rightarrow> 'cfg"
  cfg_consume_fuel :: "'cfg \<Rightarrow> 'cfg"
  cfg_target :: "string \<Rightarrow> 'cfg \<Rightarrow> ('cfg, wasm_error) result"
  engine_new :: "'cfg \<Rightarrow> 'eng run"
  is_pulley :: "'eng \<Rightarrow> bool"
  engine_hook :: "'eng \<Rightarrow> nat"
  module_new :: "'eng \<Rightarrow> wasm_src \<Rightarrow> 'mod loader"
  module_deserialize :: "'eng \<Rightarrow> bytes \<Rightarrow> 'mod loader"
  module_deserialize_raw :: "'eng \<Rightarrow> nat \<Rightarrow> bytes \<Rightarrow> 'mod loader"
  module_drop :: "'mod \<Rightarrow> unit loader"
  precompile_module :: "'eng \<Rightarrow> wasm_src \<Rightarrow> bytes run"
  component_new :: "'eng \<Rightarrow> wasm_src \<Rightarrow> 'code loader"
  component_deserialize :: "'eng \<Rightarrow> bytes \<Rightarrow> 'code loader"
  component_deserialize_raw :: "'eng \<Rightarrow> nat \<Rightarrow> bytes \<Rightarrow> 'code loader"
  component_drop :: "'code \<Rightarrow> unit loader"
  precompile :: "'eng \<Rightarrow> wasm_src \<Rightarrow> bytes run"
  store_new :: "'eng \<Rightarrow> 'store"
  set_fuel :: "u64 \<Rightarrow> 'store \<Rightarrow> 'store run"
  instantiate_module :: "'eng \<Rightarrow> 'mod \<Rightarrow> import_fn option \<Rightarrow> 'store \<Rightarrow> ('inst \<times> 'store) run"
  instantiate :: "'eng \<Rightarrow> 'code \<Rightarrow> import_fn option \<Rightarrow> 'store \<Rightarrow> ('inst \<times> 'store) run"
  get_typed_func :: "'inst \<Rightarrow> string \<Rightarrow> 'fn run"
  call_func :: "'fn \<Rightarrow> u32 list \<Rightarrow> 'store \<Rightarrow> u32 run \<times> 'store"

section \<open>Code loaders\<close>

text \<open>\<open>jit_memory::configure\<close> and \<open>limits::configure_engine\<close>.\<close>

definition configure :: "('cfg, 'eng, 'mod, 'code, 'store, 'inst, 'fn) wasmtime \<Rightarrow> 'cfg \<Rightarrow> 'cfg" where
  "configure W cfg = (if target_macos W then with_custom_code_memory W cfg else cfg)"

definition configure_engine :: "('cfg, 'eng, 'mod, 'code, 'store, 'inst, 'fn) wasmtime \<Rightarrow> 'cfg \<Rightarrow> 'cfg" where
  "configure_engine W cfg = cfg_consume_fuel W cfg"

definition stock :: "('cfg, 'eng, 'mod, 'code, 'store, 'inst, 'fn) wasmtime \<Rightarrow> 'eng \<Rightarrow> 'c loader \<Rightarrow> 'c act" where
  "stock W eng l st = run_loader (platform W) (engine_hook W eng) l st"

text \<open>\<open>load_component\<close> and \<open>load_module\<close> of the macOS module.\<close>

definition load_component :: "('cfg, 'eng, 'mod, 'code, 'store, 'inst, 'fn) wasmtime \<Rightarrow> 'eng \<Rightarrow> bytes \<Rightarrow> 'code act" where
  "load_component W eng bs st =
     load (platform W) (engine_hook W eng) bs (component_deserialize_raw W eng) (component_drop W)
       (component_deserialize W eng bs) st"

definition load_module :: "('cfg, 'eng, 'mod, 'code, 'store, 'inst, 'fn) wasmtime \<Rightarrow> 'eng \<Rightarrow> bytes \<Rightarrow> 'mod act" where
  "load_module W eng bs st =
     load (platform W) (engine_hook W eng) bs (module_deserialize_raw W eng) (module_drop W)
       (module_deserialize W eng bs) st"

definition compile_component ::
  "('cfg, 'eng, 'mod, 'code, 'store, 'inst, 'fn) wasmtime \<Rightarrow> 'eng \<Rightarrow> wasm_src \<Rightarrow> 'code act" where
  "compile_component W eng src =
     (if target_macos W \<and> \<not> is_pulley W eng
      then act_bind (eff (precompile W eng src)) (load_component W eng)
      else stock W eng (component_new W eng src))"

definition deserialize_component ::
  "('cfg, 'eng, 'mod, 'code, 'store, 'inst, 'fn) wasmtime \<Rightarrow> 'eng \<Rightarrow> bytes \<Rightarrow> 'code act" where
  "deserialize_component W eng bs =
     (if target_macos W \<and> \<not> is_pulley W eng then load_component W eng bs
      else stock W eng (component_deserialize W eng bs))"

definition compile_module ::
  "('cfg, 'eng, 'mod, 'code, 'store, 'inst, 'fn) wasmtime \<Rightarrow> 'eng \<Rightarrow> wasm_src \<Rightarrow> 'mod act" where
  "compile_module W eng src =
     (if target_macos W \<and> \<not> is_pulley W eng
      then act_bind (eff (precompile_module W eng src)) (load_module W eng)
      else stock W eng (module_new W eng src))"

definition deserialize_module ::
  "('cfg, 'eng, 'mod, 'code, 'store, 'inst, 'fn) wasmtime \<Rightarrow> 'eng \<Rightarrow> bytes \<Rightarrow> 'mod act" where
  "deserialize_module W eng bs =
     (if target_macos W \<and> \<not> is_pulley W eng then load_module W eng bs
      else stock W eng (module_deserialize W eng bs))"

section \<open>Engine builders\<close>

definition pulley_target ::
  "('cfg, 'eng, 'mod, 'code, 'store, 'inst, 'fn) wasmtime \<Rightarrow> bool \<Rightarrow> 'cfg \<Rightarrow> ('cfg, wasm_error) result" where
  "pulley_target W use_pulley cfg = (if use_pulley then cfg_target W ''pulley64'' cfg else Ok cfg)"

fun build :: "('cfg, 'eng, 'mod, 'code, 'store, 'inst, 'fn) wasmtime \<Rightarrow> ('cfg, wasm_error) result \<Rightarrow> 'eng run" where
  "build W (Inl e) = Returned (Err e)"
| "build W (Inr cfg) = engine_new W cfg"

definition make_engine :: "('cfg, 'eng, 'mod, 'code, 'store, 'inst, 'fn) wasmtime \<Rightarrow> bool \<Rightarrow> 'eng run" where
  "make_engine W use_pulley = build W (pulley_target W use_pulley (configure W (config_new W)))"

definition p3_engine :: "('cfg, 'eng, 'mod, 'code, 'store, 'inst, 'fn) wasmtime \<Rightarrow> bool \<Rightarrow> 'eng run" where
  "p3_engine W use_pulley =
     build W (pulley_target W use_pulley (configure_engine W (configure W (config_new W))))"

definition p3s_engine :: "('cfg, 'eng, 'mod, 'code, 'store, 'inst, 'fn) wasmtime \<Rightarrow> bool \<Rightarrow> 'eng option outcome" where
  "p3s_engine W use_pulley =
     (let cfg = cfg_concurrency_support W (cfg_component_model_async W (cfg_component_model W
                  (configure_engine W (configure W (config_new W))))) in
      case pulley_target W use_pulley cfg of
        Inl e \<Rightarrow> Returned None
      | Inr cfg \<Rightarrow>
          (case engine_new W cfg of
             Returned r \<Rightarrow> Returned (res_ok r)
           | Panicked \<Rightarrow> Panicked))"

end
