(* ===== verification/Embedded_Wasm.thy ===== *)
theory Embedded_Wasm
  imports Engine
begin

text \<open>
  The embedded programs of \<open>src/lib.rs\<close> run on an engine (\<open>run_add\<close> to
  \<open>run_canonical_async_double\<close>), and the C entry points over them, which return an \<open>i64\<close> with
  \<open>i64::MIN\<close> for every failure and panic.
\<close>

section \<open>Running the programs\<close>

type_synonym ('cfg, 'eng, 'mod, 'code, 'store, 'inst, 'fn) W = "('cfg, 'eng, 'mod, 'code, 'store, 'inst, 'fn) wasmtime"

text \<open>Instantiate with the given import, look the export up, call it.\<close>

definition call_export ::
  "('cfg, 'eng, 'mod, 'code, 'store, 'inst, 'fn) W \<Rightarrow> ('inst \<times> 'store) run \<Rightarrow> string \<Rightarrow> u32 list \<Rightarrow> u32 act" where
  "call_export W made name args =
     act_bind (eff made) (\<lambda>(inst, store).
     act_bind (eff (get_typed_func W inst name)) (\<lambda>f.
     eff (fst (call_func W f args store))))"

definition call_module ::
  "('cfg, 'eng, 'mod, 'code, 'store, 'inst, 'fn) W \<Rightarrow> 'eng \<Rightarrow> 'mod \<Rightarrow> import_fn option \<Rightarrow> string \<Rightarrow> u32 list \<Rightarrow> u32 act" where
  "call_module W eng m imp name args = call_export W (instantiate_module W eng m imp (store_new W eng)) name args"

definition call_component ::
  "('cfg, 'eng, 'mod, 'code, 'store, 'inst, 'fn) W \<Rightarrow> 'eng \<Rightarrow> 'code \<Rightarrow> import_fn option \<Rightarrow> string \<Rightarrow> u32 list \<Rightarrow> u32 act" where
  "call_component W eng c imp name args = call_export W (instantiate W eng c imp (store_new W eng)) name args"

definition run_add :: "('cfg, 'eng, 'mod, 'code, 'store, 'inst, 'fn) W \<Rightarrow> bool \<Rightarrow> i32 \<Rightarrow> i32 \<Rightarrow> i32 act" where
  "run_add W use_pulley a b =
     act_bind (eff (make_engine W use_pulley)) (\<lambda>eng.
     act_bind (compile_module W eng (WatText ADD_WAT)) (\<lambda>code.
     call_module W eng code None ''add'' [a, b]))"

definition run_component_add :: "('cfg, 'eng, 'mod, 'code, 'store, 'inst, 'fn) W \<Rightarrow> bool \<Rightarrow> i32 \<Rightarrow> i32 \<Rightarrow> i32 act" where
  "run_component_add W use_pulley a b =
     act_bind (eff (make_engine W use_pulley)) (\<lambda>eng.
     act_bind (compile_component W eng (WatText ADD_COMPONENT_WAT)) (\<lambda>code.
     call_component W eng code None ''add'' [a, b]))"

text \<open>\<open>v.wrapping_mul(2)\<close>, the host's \<open>host-double\<close>.\<close>

definition host_double :: import_fn where
  "host_double args = (case args of [v] \<Rightarrow> Ok [v * 2] | _ \<Rightarrow> Ok [])"

definition run_component_host_import ::
  "('cfg, 'eng, 'mod, 'code, 'store, 'inst, 'fn) W \<Rightarrow> bool \<Rightarrow> u32 \<Rightarrow> u32 act" where
  "run_component_host_import W use_pulley x =
     act_bind (eff (make_engine W use_pulley)) (\<lambda>eng.
     act_bind (compile_component W eng (WatText HOST_IMPORT_COMPONENT_WAT)) (\<lambda>code.
     call_component W eng code (Some host_double) ''run'' [x]))"

definition WORKSPACE_READ_DENIED :: u32 where "WORKSPACE_READ_DENIED = - 1"

definition run_gated_workspace_read ::
  "('cfg, 'eng, 'mod, 'code, 'store, 'inst, 'fn) W \<Rightarrow> bool \<Rightarrow> bool \<Rightarrow> u32 \<Rightarrow> u32 act" where
  "run_gated_workspace_read W use_pulley granted n_portfolios =
     act_bind (eff (make_engine W use_pulley)) (\<lambda>eng.
     act_bind (compile_component W eng (WatText WORKSPACE_READ_COMPONENT_WAT)) (\<lambda>code.
     call_component W eng code
       (Some (\<lambda>_. Ok [if granted then n_portfolios else WORKSPACE_READ_DENIED])) ''run'' []))"

definition run_async_double :: "('cfg, 'eng, 'mod, 'code, 'store, 'inst, 'fn) W \<Rightarrow> bool \<Rightarrow> i32 \<Rightarrow> i32 act" where
  "run_async_double W use_pulley x =
     act_bind (eff (build W (pulley_target W use_pulley (configure W (config_new W))))) (\<lambda>eng.
     act_bind (compile_module W eng (WatText ASYNC_WAT)) (\<lambda>code.
     call_module W eng code (Some host_double) ''run'' [x]))"

definition run_component_async_double ::
  "('cfg, 'eng, 'mod, 'code, 'store, 'inst, 'fn) W \<Rightarrow> bool \<Rightarrow> u32 \<Rightarrow> u32 act" where
  "run_component_async_double W use_pulley x =
     act_bind (eff (build W (pulley_target W use_pulley
        (cfg_component_model_async W (configure W (config_new W)))))) (\<lambda>eng.
     act_bind (compile_component W eng (WatText HOST_IMPORT_COMPONENT_WAT)) (\<lambda>code.
     call_component W eng code (Some host_double) ''run'' [x]))"

definition run_canonical_async_double ::
  "('cfg, 'eng, 'mod, 'code, 'store, 'inst, 'fn) W \<Rightarrow> bool \<Rightarrow> u32 \<Rightarrow> u32 act" where
  "run_canonical_async_double W use_pulley x =
     act_bind (eff (build W (pulley_target W use_pulley
        (cfg_component_model_async W (configure W (config_new W)))))) (\<lambda>eng.
     act_bind (compile_component W eng (WatText CANON_ASYNC_WAT)) (\<lambda>code.
     call_component W eng code None ''run'' [x]))"

section \<open>C entry points\<close>

definition i64_MIN :: i64 where "i64_MIN = 0x8000000000000000"

text \<open>\<open>catch_unwind(|| match .. { Ok(v) => v as i64, Err(_) => i64::MIN }).unwrap_or(i64::MIN)\<close>\<close>

definition i64_result :: "(u32 \<Rightarrow> i64) \<Rightarrow> u32 act \<Rightarrow> jit_state \<Rightarrow> i64 \<times> jit_state" where
  "i64_result as_i64 m st =
     (case m st of
        (r, st) \<Rightarrow>
          (catch_unwind i64_MIN
             (case r of
                Returned (Inr v) \<Rightarrow> Returned (as_i64 v)
              | Returned (Inl _) \<Rightarrow> Returned i64_MIN
              | Panicked \<Rightarrow> Panicked), st))"

text \<open>\<open>v as i64\<close> extends the sign of an \<open>i32\<close> and the zeros of a \<open>u32\<close>.\<close>

abbreviation i32_as_i64 :: "i32 \<Rightarrow> i64" where "i32_as_i64 \<equiv> signed"
abbreviation u32_as_i64 :: "u32 \<Rightarrow> i64" where "u32_as_i64 \<equiv> unsigned"

definition HWR_ABI_VERSION :: u32 where "HWR_ABI_VERSION = 2"

definition hwr_abi_version :: u32 where "hwr_abi_version = HWR_ABI_VERSION"

text \<open>\<open>Engine::default()\<close> may panic; without the compiler there is nothing to run.\<close>

definition hwr_self_test :: "bool \<Rightarrow> 'eng outcome \<Rightarrow> i32" where
  "hwr_self_test compile engine_default =
     (if catch_unwind False
           (if compile then (case engine_default of Returned _ \<Rightarrow> Returned True | Panicked \<Rightarrow> Panicked)
            else Returned True)
      then 1 else 0)"

definition hwr_eval_add where
  "hwr_eval_add W use_pulley a b = i64_result i32_as_i64 (run_add W (use_pulley \<noteq> (0 :: i32)) a b)"

definition hwr_eval_component_add where
  "hwr_eval_component_add W use_pulley a b =
     i64_result i32_as_i64 (run_component_add W (use_pulley \<noteq> (0 :: i32)) a b)"

definition hwr_eval_host_import where
  "hwr_eval_host_import W use_pulley x =
     i64_result u32_as_i64 (run_component_host_import W (use_pulley \<noteq> (0 :: i32)) x)"

definition hwr_run_async_double where
  "hwr_run_async_double W use_pulley x =
     i64_result i32_as_i64 (run_async_double W (use_pulley \<noteq> (0 :: i32)) x)"

definition hwr_run_component_async_double where
  "hwr_run_component_async_double W use_pulley x =
     i64_result u32_as_i64 (run_component_async_double W (use_pulley \<noteq> (0 :: i32)) x)"

definition hwr_run_canonical_async_double where
  "hwr_run_canonical_async_double W use_pulley x =
     i64_result u32_as_i64 (run_canonical_async_double W (use_pulley \<noteq> (0 :: i32)) x)"

definition hwr_read_portfolio_count where
  "hwr_read_portfolio_count W use_pulley granted n_portfolios =
     i64_result u32_as_i64
       (run_gated_workspace_read W (use_pulley \<noteq> (0 :: i32)) (granted \<noteq> (0 :: i32)) n_portfolios)"

section \<open>An engine that runs WebAssembly\<close>

text \<open>The configurations the runs above build, the programs, and when an import is to be supplied.\<close>

definition run_config ::
  "('cfg, 'eng, 'mod, 'code, 'store, 'inst, 'fn) W \<Rightarrow> bool \<Rightarrow> bool \<Rightarrow> ('cfg, wasm_error) result" where
  "run_config W async use_pulley =
     pulley_target W use_pulley
       ((if async then cfg_component_model_async W else id) (configure W (config_new W)))"

definition module_programs :: "wat list" where
  "module_programs = [ADD_WAT, ASYNC_WAT]"

definition component_programs :: "wat list" where
  "component_programs =
     [ADD_COMPONENT_WAT, HOST_IMPORT_COMPONENT_WAT, WORKSPACE_READ_COMPONENT_WAT, CANON_ASYNC_WAT]"

definition needs_import :: "wat \<Rightarrow> bool" where
  "needs_import w \<longleftrightarrow> CallImport \<in> set (wat_body w) \<and> \<not> wat_async_lift w"

text \<open>An instance of a program: its export is there and a call has the WebAssembly semantics.\<close>

definition instance_runs ::
  "('cfg, 'eng, 'mod, 'code, 'store, 'inst, 'fn) W \<Rightarrow> wat \<Rightarrow> import_fn option \<Rightarrow> ('inst \<times> 'store) run \<Rightarrow> bool" where
  "instance_runs W w imp made \<longleftrightarrow>
     (\<exists>inst store f. made = Returned (Ok (inst, store)) \<and> get_typed_func W inst (wat_export w) = Returned (Ok f) \<and>
        (\<forall>args r. wat_call w imp args = Some r \<longrightarrow> fst (call_func W f args store) = Returned r))"

text \<open>
  An engine that runs the programs: each compiles there, if its features are enabled (the canonical
  async lift needs \<open>wasm_component_model_async\<close>), and instantiates when exactly the imports it has
  are supplied.
\<close>

definition engine_runs :: "('cfg, 'eng, 'mod, 'code, 'store, 'inst, 'fn) W \<Rightarrow> bool \<Rightarrow> 'eng \<Rightarrow> bool" where
  "engine_runs W async eng \<longleftrightarrow>
     (\<forall>w \<in> set module_programs. \<exists>m. module_new W eng (WatText w) = LoadDone (Ok m) \<and>
        (\<forall>imp. (imp \<noteq> None \<longleftrightarrow> needs_import w) \<longrightarrow>
           instance_runs W w imp (instantiate_module W eng m imp (store_new W eng)))) \<and>
     (\<forall>w \<in> set component_programs. (wat_async_lift w \<longrightarrow> async) \<longrightarrow>
        (\<exists>c. component_new W eng (WatText w) = LoadDone (Ok c) \<and>
           (\<forall>imp. (imp \<noteq> None \<longleftrightarrow> needs_import w) \<longrightarrow>
              instance_runs W w imp (instantiate W eng c imp (store_new W eng)))))"

text \<open>
  What Wasmtime documents, off macOS, of these configurations: the target \<open>pulley64\<close> is known, and
  each of the configurations builds an engine, which runs the programs its features allow.
\<close>

definition runs_wasm :: "('cfg, 'eng, 'mod, 'code, 'store, 'inst, 'fn) W \<Rightarrow> bool" where
  "runs_wasm W \<longleftrightarrow>
     \<not> target_macos W \<and>
     (\<forall>async p. \<exists>cfg eng. run_config W async p = Ok cfg \<and> engine_new W cfg = Returned (Ok eng) \<and>
        engine_runs W async eng)"

text \<open>Calling an instance delivers what the text of its program means.\<close>

lemma call_instance:
  "instance_runs W w imp made \<Longrightarrow> wat_call w imp args = Some r \<Longrightarrow>
     call_export W made (wat_export w) args st = (Returned r, st)"
  by (auto simp: instance_runs_def call_export_def)

lemma module_delivers:
  assumes "\<not> target_macos W" and "engine_runs W async eng" and "w \<in> set module_programs"
    and "imp \<noteq> None \<longleftrightarrow> needs_import w" and "wat_call w imp args = Some r"
  shows "act_bind (compile_module W eng (WatText w)) (\<lambda>m. call_module W eng m imp (wat_export w) args) st =
    (Returned r, st)"
proof -
  obtain m where m: "module_new W eng (WatText w) = LoadDone (Ok m)"
    and made: "\<forall>imp. (imp \<noteq> None \<longleftrightarrow> needs_import w) \<longrightarrow>
      instance_runs W w imp (instantiate_module W eng m imp (store_new W eng))"
    using assms(2,3) unfolding engine_runs_def by blast
  show ?thesis
    using call_instance [OF made [rule_format, OF assms(4)] assms(5)] assms(1) m
    by (simp add: act_bind_def compile_module_def stock_def call_module_def)
qed

lemma component_delivers:
  assumes "\<not> target_macos W" and "engine_runs W async eng" and "w \<in> set component_programs"
    and "wat_async_lift w \<longrightarrow> async" and "imp \<noteq> None \<longleftrightarrow> needs_import w" and "wat_call w imp args = Some r"
  shows "act_bind (compile_component W eng (WatText w)) (\<lambda>c. call_component W eng c imp (wat_export w) args) st =
    (Returned r, st)"
proof -
  obtain c where c: "component_new W eng (WatText w) = LoadDone (Ok c)"
    and made: "\<forall>imp. (imp \<noteq> None \<longleftrightarrow> needs_import w) \<longrightarrow>
      instance_runs W w imp (instantiate W eng c imp (store_new W eng))"
    using assms(2-4) unfolding engine_runs_def by blast
  show ?thesis
    using call_instance [OF made [rule_format, OF assms(5)] assms(6)] assms(1) c
    by (simp add: act_bind_def compile_component_def stock_def call_component_def)
qed

lemmas wat_defs = ADD_WAT_def ADD_COMPONENT_WAT_def HOST_IMPORT_COMPONENT_WAT_def
  WORKSPACE_READ_COMPONENT_WAT_def ASYNC_WAT_def CANON_ASYNC_WAT_def

lemma embedded_calls:
  "wat_call ADD_WAT None [a, b] = Some (Ok (a + b))"
  "wat_call ADD_COMPONENT_WAT None [a, b] = Some (Ok (a + b))"
  "wat_call HOST_IMPORT_COMPONENT_WAT (Some host_double) [x] = Some (Ok (x * 2))"
  "wat_call ASYNC_WAT (Some host_double) [x] = Some (Ok (x * 2))"
  "wat_call CANON_ASYNC_WAT None [x] = Some (Ok (x * 2))"
  "wat_call WORKSPACE_READ_COMPONENT_WAT (Some (\<lambda>_. Ok [v])) [] = Some (Ok v)"
  by (simp_all add: wat_defs wat_call_def Let_def host_double_def)

lemma embedded_exports:
  "wat_export ADD_WAT = ''add''" "wat_export ADD_COMPONENT_WAT = ''add''"
  "wat_export HOST_IMPORT_COMPONENT_WAT = ''run''" "wat_export ASYNC_WAT = ''run''"
  "wat_export CANON_ASYNC_WAT = ''run''" "wat_export WORKSPACE_READ_COMPONENT_WAT = ''run''"
  by (simp_all add: wat_defs)

lemma embedded_programs:
  "ADD_WAT \<in> set module_programs" "ASYNC_WAT \<in> set module_programs"
  "ADD_COMPONENT_WAT \<in> set component_programs" "HOST_IMPORT_COMPONENT_WAT \<in> set component_programs"
  "WORKSPACE_READ_COMPONENT_WAT \<in> set component_programs" "CANON_ASYNC_WAT \<in> set component_programs"
  by (simp_all add: module_programs_def component_programs_def)

lemma embedded_needs:
  "needs_import ADD_WAT = False" "needs_import ASYNC_WAT = True" "needs_import ADD_COMPONENT_WAT = False"
  "needs_import HOST_IMPORT_COMPONENT_WAT = True" "needs_import WORKSPACE_READ_COMPONENT_WAT = True"
  "needs_import CANON_ASYNC_WAT = False" "wat_async_lift ADD_COMPONENT_WAT = False"
  "wat_async_lift HOST_IMPORT_COMPONENT_WAT = False" "wat_async_lift WORKSPACE_READ_COMPONENT_WAT = False"
  by (simp_all add: needs_import_def wat_defs)

lemma embedded_outcomes:
  assumes "runs_wasm W"
  shows "fst (hwr_eval_add W p a b st) = i32_as_i64 (a + b)"
    and "fst (hwr_eval_component_add W p a b st) = i32_as_i64 (a + b)"
    and "fst (hwr_eval_host_import W p x st) = u32_as_i64 (x * 2)"
    and "fst (hwr_run_async_double W p x st) = i32_as_i64 (x * 2)"
    and "fst (hwr_run_component_async_double W p x st) = u32_as_i64 (x * 2)"
    and "fst (hwr_run_canonical_async_double W p x st) = u32_as_i64 (x * 2)"
    and "fst (hwr_read_portfolio_count W p g n st) = u32_as_i64 (if g \<noteq> 0 then n else WORKSPACE_READ_DENIED)"
proof -
  obtain cfg eng cfg' eng' where eng: "run_config W False (p \<noteq> 0) = Ok cfg" "engine_new W cfg = Returned (Ok eng)"
    "run_config W True (p \<noteq> 0) = Ok cfg'" "engine_new W cfg' = Returned (Ok eng')"
    and runs: "engine_runs W False eng" "engine_runs W True eng'" and mac: "\<not> target_macos W"
    using assms unfolding runs_wasm_def by meson
  note m = module_delivers [OF mac runs(1)]
  note c = component_delivers [OF mac runs(1)]
  note c' = component_delivers [OF mac runs(2)]
  have plain: "make_engine W (p \<noteq> 0) = Returned (Ok eng)"
    "build W (pulley_target W (p \<noteq> 0) (configure W (config_new W))) = Returned (Ok eng)"
    "build W (pulley_target W (p \<noteq> 0) (cfg_component_model_async W (configure W (config_new W)))) =
       Returned (Ok eng')"
    using eng by (simp_all add: make_engine_def run_config_def)
  note facts = plain i64_result_def embedded_exports
  show "fst (hwr_eval_add W p a b st) = i32_as_i64 (a + b)"
    using m [OF embedded_programs(1) _ embedded_calls(1) [of a b], of st]
    by (simp add: hwr_eval_add_def run_add_def facts embedded_needs)
  show "fst (hwr_eval_component_add W p a b st) = i32_as_i64 (a + b)"
    using c [OF embedded_programs(3) _ _ embedded_calls(2) [of a b], of st]
    by (simp add: hwr_eval_component_add_def run_component_add_def facts embedded_needs)
  show "fst (hwr_eval_host_import W p x st) = u32_as_i64 (x * 2)"
    using c [OF embedded_programs(4) _ _ embedded_calls(3) [of x], of st]
    by (simp add: hwr_eval_host_import_def run_component_host_import_def facts embedded_needs)
  show "fst (hwr_run_async_double W p x st) = i32_as_i64 (x * 2)"
    using m [OF embedded_programs(2) _ embedded_calls(4) [of x], of st]
    by (simp add: hwr_run_async_double_def run_async_double_def facts embedded_needs)
  show "fst (hwr_run_component_async_double W p x st) = u32_as_i64 (x * 2)"
    using c' [OF embedded_programs(4) _ _ embedded_calls(3) [of x], of st]
    by (simp add: hwr_run_component_async_double_def run_component_async_double_def facts embedded_needs)
  show "fst (hwr_run_canonical_async_double W p x st) = u32_as_i64 (x * 2)"
    using c' [OF embedded_programs(6) _ _ embedded_calls(5) [of x], of st]
    by (simp add: hwr_run_canonical_async_double_def run_canonical_async_double_def facts embedded_needs)
  show "fst (hwr_read_portfolio_count W p g n st) = u32_as_i64 (if g \<noteq> 0 then n else WORKSPACE_READ_DENIED)"
    using c [OF embedded_programs(5) _ _ embedded_calls(6) [of "if g \<noteq> 0 then n else WORKSPACE_READ_DENIED"], of st]
    by (simp add: hwr_read_portfolio_count_def run_gated_workspace_read_def facts embedded_needs)
qed

section \<open>The failure value\<close>

lemma sint_i32_as_i64: "sint (i32_as_i64 v) = sint v"
  by (intro sint_up_scast) (simp add: is_up)

lemma uint_u32_as_i64: "uint (u32_as_i64 v) = uint v"
  by transfer (simp add: min_def)

lemma result_not_MIN: "i32_as_i64 v \<noteq> i64_MIN" "u32_as_i64 v \<noteq> i64_MIN"
proof -
  have "sint i64_MIN = - (2 ^ 63)" by (simp add: i64_MIN_def sint_uint signed_take_bit_eq_if_negative
        take_bit_eq_mod)
  moreover have "- (2 ^ 31) \<le> sint v" using sint_ge [of v] by simp
  ultimately show "i32_as_i64 v \<noteq> i64_MIN" using sint_i32_as_i64 [of v] by auto
  have "uint i64_MIN = 2 ^ 63" by (simp add: i64_MIN_def)
  moreover have "uint v < 2 ^ 32" using uint_bounded [of v] by simp
  ultimately show "u32_as_i64 v \<noteq> i64_MIN" using uint_u32_as_i64 [of v] by auto
qed

lemma i64_result_MIN_iff:
  assumes "\<And>v. conv v \<noteq> i64_MIN"
  shows "fst (i64_result conv m st) = i64_MIN \<longleftrightarrow> (\<forall>v. fst (m st) \<noteq> Returned (Ok v))"
  using assms by (auto simp: i64_result_def split: prod.split outcome.split sum.split)

section \<open>Properties\<close>


text \<open>An engine that is the semantics itself.\<close>

definition demo_unsupported :: wasm_error where
  "demo_unsupported = \<lparr>err_display = [], err_alternate = [], err_sources = []\<rparr>"

definition demo_instance ::
  "wasm_src \<Rightarrow> import_fn option \<Rightarrow> unit \<Rightarrow> ((wasm_src \<times> import_fn option) \<times> unit) run" where
  "demo_instance src imp s =
     (case src of
        WatText w \<Rightarrow>
          (if (imp \<noteq> None) = needs_import w then Returned (Ok ((src, imp), s)) else Returned (Err demo_unsupported))
      | Binary _ \<Rightarrow> Returned (Ok ((src, imp), s)))"

definition demo_wasmtime ::
  "(bool, bool, wasm_src, wasm_src, unit, wasm_src \<times> import_fn option, wasm_src \<times> import_fn option) W" where
  "demo_wasmtime =
     \<lparr>target_macos = False, platform = demo_os, config_new = False, with_custom_code_memory = id,
      cfg_component_model = id, cfg_component_model_async = (\<lambda>_. True), cfg_concurrency_support = id,
      cfg_consume_fuel = id,
      cfg_target = (\<lambda>t cfg. if t = ''pulley64'' then Ok cfg else Err demo_unsupported),
      engine_new = (\<lambda>cfg. Returned (Ok cfg)),
      is_pulley = (\<lambda>_. True), engine_hook = (\<lambda>_. 0), module_new = (\<lambda>_ src. LoadDone (Ok src)),
      module_deserialize = (\<lambda>_ bs. LoadDone (Ok (Binary bs))),
      module_deserialize_raw = (\<lambda>_ _ bs. LoadDone (Ok (Binary bs))), module_drop = (\<lambda>_. LoadDone (Ok ())),
      precompile_module = (\<lambda>_ src. Returned (Ok (case src of Binary bs \<Rightarrow> bs | WatText w \<Rightarrow> []))),
      component_new = (\<lambda>async src.
        (case src of
           WatText w \<Rightarrow> (if wat_async_lift w \<and> \<not> async then LoadDone (Err demo_unsupported) else LoadDone (Ok src))
         | Binary _ \<Rightarrow> LoadDone (Ok src))),
      component_deserialize = (\<lambda>_ bs. LoadDone (Ok (Binary bs))),
      component_deserialize_raw = (\<lambda>_ _ bs. LoadDone (Ok (Binary bs))), component_drop = (\<lambda>_. LoadDone (Ok ())),
      precompile = (\<lambda>_ src. Returned (Ok (case src of Binary bs \<Rightarrow> bs | WatText w \<Rightarrow> []))),
      store_new = (\<lambda>_. ()), set_fuel = (\<lambda>_ s. Returned (Ok s)),
      instantiate_module = (\<lambda>_. demo_instance), instantiate = (\<lambda>_. demo_instance),
      get_typed_func = (\<lambda>inst _. Returned (Ok inst)),
      call_func = (\<lambda>(src, imp) args s.
        (case src of
           WatText w \<Rightarrow> (case wat_call w imp args of Some r \<Rightarrow> Returned r | None \<Rightarrow> Panicked)
         | Binary _ \<Rightarrow> Panicked, s))\<rparr>"

lemma demo_runs_wasm: "runs_wasm demo_wasmtime"
proof -
  have "engine_runs demo_wasmtime async async" for async
    by (simp add: engine_runs_def demo_wasmtime_def instance_runs_def demo_instance_def)
  moreover have "run_config demo_wasmtime async p = Ok async" "engine_new demo_wasmtime cfg = Returned (Ok cfg)"
    for async p cfg
    by (simp_all add: demo_wasmtime_def run_config_def pulley_target_def configure_def)
  moreover have "\<not> target_macos demo_wasmtime" by (simp add: demo_wasmtime_def)
  ultimately show ?thesis unfolding runs_wasm_def by blast
qed


text \<open>
  The failure value is unambiguous: an entry point returns \<open>i64::MIN\<close> exactly when the run
  failed or panicked, for no result of a 32-bit program widens to it.
\<close>

theorem failure_value_iff:
  "(fst (hwr_eval_add W p a b st) = i64_MIN \<longleftrightarrow>
      (\<forall>v. fst (run_add W (p \<noteq> 0) a b st) \<noteq> Returned (Ok v))) \<and>
   (fst (hwr_eval_component_add W p a b st) = i64_MIN \<longleftrightarrow>
      (\<forall>v. fst (run_component_add W (p \<noteq> 0) a b st) \<noteq> Returned (Ok v))) \<and>
   (fst (hwr_eval_host_import W p x st) = i64_MIN \<longleftrightarrow>
      (\<forall>v. fst (run_component_host_import W (p \<noteq> 0) x st) \<noteq> Returned (Ok v))) \<and>
   (fst (hwr_run_async_double W p x st) = i64_MIN \<longleftrightarrow>
      (\<forall>v. fst (run_async_double W (p \<noteq> 0) x st) \<noteq> Returned (Ok v))) \<and>
   (fst (hwr_read_portfolio_count W p g n st) = i64_MIN \<longleftrightarrow>
      (\<forall>v. fst (run_gated_workspace_read W (p \<noteq> 0) (g \<noteq> 0) n st) \<noteq> Returned (Ok v)))"
  by (simp add: hwr_eval_add_def hwr_eval_component_add_def hwr_eval_host_import_def
      hwr_run_async_double_def hwr_read_portfolio_count_def i64_result_MIN_iff result_not_MIN)

text \<open>
  A granted count of \<open>u32::MAX\<close> cannot be told from a denial, and the doubling entry points that
  take an \<open>i32\<close> through a \<open>u32\<close> component do not return the double of a negative argument.
\<close>

lemma read_count_ambiguous:
  assumes "runs_wasm W" and "g \<noteq> 0"
  shows "fst (hwr_read_portfolio_count W p g (- 1) st) = fst (hwr_read_portfolio_count W p 0 n st)"
  using embedded_outcomes(7) [OF assms(1), of p g "- 1" st] embedded_outcomes(7) [OF assms(1), of p 0 n st] assms(2)
  by (simp add: WORKSPACE_READ_DENIED_def)

lemma component_double_negative:
  "runs_wasm W \<Longrightarrow> fst (hwr_run_component_async_double W p (- 1) st) = 0xFFFFFFFE \<and>
     fst (hwr_run_async_double W p (- 1) st) = - 2"
  using embedded_outcomes(4,5) [of W p "- 1" st] by simp

end
