(* ===== verification/Plugin_Host.thy ===== *)
theory Plugin_Host
  imports Base64 Capstone P3_Session "HOL-Library.AList" "HOL-Library.Countable"
begin

text \<open>
  The transport-backed typed hosts: \<open>src/plugin_host.rs\<close> (workspace),
  \<open>src/plugin_host_storage_events.rs\<close> (storage and events) and \<open>src/plugin_host_full.rs\<close> (the
  unified host).  Each typed call makes at most one round trip: it encodes a JSON request, waits for
  the caller's reply and decodes it.  \<open>serde_json\<close> is the parameter \<open>serde\<close>; JSON values and the
  decoders are modelled.
\<close>

section \<open>JSON\<close>

text \<open>An \<open>f64\<close> is its bit pattern; numbers are integers or floats, as in \<open>serde_json\<close>.\<close>

type_synonym f64 = u64

datatype json =
    JNull
  | JBool bool
  | JInt int
  | JFloat f64
  | JStr rstr
  | JArr "json list"
  | JObj "(rstr \<times> json) list"

record serde =
  to_vec :: "json \<Rightarrow> (bytes, rstr) result"
  from_slice :: "bytes \<Rightarrow> (json, rstr) result"
  f64_of_int :: "int \<Rightarrow> f64"

fun json_get :: "json \<Rightarrow> rstr \<Rightarrow> json option" where
  "json_get (JObj kvs) k = map_of kvs k"
| "json_get _ k = None"

fun as_str :: "json \<Rightarrow> rstr option" where
  "as_str (JStr s) = Some s"
| "as_str _ = None"

fun as_bool :: "json \<Rightarrow> bool option" where
  "as_bool (JBool b) = Some b"
| "as_bool _ = None"

fun as_array :: "json \<Rightarrow> json list option" where
  "as_array (JArr vs) = Some vs"
| "as_array _ = None"

fun as_u64 :: "json \<Rightarrow> u64 option" where
  "as_u64 (JInt n) = (if 0 \<le> n \<and> n < 2 ^ 64 then Some (of_int n) else None)"
| "as_u64 _ = None"

fun as_f64 :: "serde \<Rightarrow> json \<Rightarrow> f64 option" where
  "as_f64 S (JFloat x) = Some x"
| "as_f64 S (JInt n) = Some (f64_of_int S n)"
| "as_f64 S _ = None"

text \<open>\<open>req[key] = v\<close> on an object.\<close>

fun json_set :: "rstr \<Rightarrow> json \<Rightarrow> json \<Rightarrow> json" where
  "json_set k v (JObj kvs) = JObj (AList.update k v kvs)"
| "json_set k v j = j"

section \<open>Typed calls over the round trip\<close>

text \<open>
  A typed call as the worker makes it: it answers at once, or sends request bytes and computes its
  answer from the response (\<open>None\<close> when the transport is gone).
\<close>

datatype 'a tcall = Immediate 'a | Roundtrip bytes "bytes option \<Rightarrow> 'a"

fun tcall_map :: "('a \<Rightarrow> 'b) \<Rightarrow> 'a tcall \<Rightarrow> 'b tcall" where
  "tcall_map f (Immediate x) = Immediate (f x)"
| "tcall_map f (Roundtrip req dec) = Roundtrip req (\<lambda>r. f (dec r))"

definition api_err :: "string \<Rightarrow> rstr \<Rightarrow> ApiError" where
  "api_err c m = \<lparr>code = lit c, message = m\<rparr>"

definition transport_gone :: ApiError where
  "transport_gone = api_err ''not-found'' (lit ''host transport closed before the call was serviced'')"

definition transport_closed :: ApiError where
  "transport_closed = api_err ''not-found'' (lit ''host transport closed'')"

text \<open>\<open>{"ok":true,"data":..}\<close> gives the data; anything else is the typed error.\<close>

definition unwrap_reply :: "json \<Rightarrow> (json, ApiError) result" where
  "unwrap_reply v =
     (if unwrap_or False (Option.bind (json_get v (lit ''ok'')) as_bool)
      then Ok (unwrap_or JNull (json_get v (lit ''data'')))
      else Err (api_err ''permission-denied''
        (unwrap_or (lit ''denied'') (Option.bind (json_get v (lit ''error'')) as_str))))"

text \<open>The reply side of every \<open>forward\<close>/\<open>call\<close>, with the error for a closed transport.\<close>

definition decode_reply :: "serde \<Rightarrow> ApiError \<Rightarrow> bytes option \<Rightarrow> (json, ApiError) result" where
  "decode_reply S gone resp =
     (case resp of
        None \<Rightarrow> Err gone
      | Some bs \<Rightarrow>
          (case from_slice S bs of
             Inl e \<Rightarrow> Err (api_err ''bad-response'' e)
           | Inr v \<Rightarrow> unwrap_reply v))"

definition send_request :: "serde \<Rightarrow> ApiError \<Rightarrow> json \<Rightarrow> (json, ApiError) result tcall" where
  "send_request S gone req =
     (case to_vec S req of
        Inl e \<Rightarrow> Immediate (Err (api_err ''bad-request'' e))
      | Inr bs \<Rightarrow> Roundtrip bs (decode_reply S gone))"

section \<open>plugin_host: the workspace host\<close>

text \<open>\<open>TransportWorkspaceHost::forward\<close>.\<close>

definition workspace_forward ::
  "serde \<Rightarrow> string \<Rightarrow> rstr option \<Rightarrow> (json, ApiError) result tcall" where
  "workspace_forward S method portfolio_id =
     (let req = JObj [(lit ''method'', JStr (lit method))];
          req = (case portfolio_id of Some pid \<Rightarrow> json_set (lit ''portfolio_id'') (JStr pid) req | None \<Rightarrow> req)
      in send_request S transport_gone req)"

record SheetInfo =
  si_name :: rstr
  si_sections :: "rstr list"

record SheetSummary =
  ss_portfolio_id :: rstr
  ss_sheets :: "SheetInfo list"

record CategoryCount =
  cc_category :: rstr
  cc_count :: u32

record AssetCount =
  ac_portfolio_id :: rstr
  ac_count_by_category :: "CategoryCount list"

record CurrencyRate =
  cr_id :: rstr
  cr_name :: rstr
  cr_symbol :: rstr
  cr_rate :: f64

record CategoryTotal =
  ct_category :: rstr
  ct_total :: f64

record AggregatedSummary =
  as_portfolio_id :: rstr
  as_totals :: "CategoryTotal list"

definition field_str :: "json \<Rightarrow> string \<Rightarrow> rstr" where
  "field_str v k = unwrap_or [] (Option.bind (json_get v (lit k)) as_str)"

definition field_array :: "json \<Rightarrow> string \<Rightarrow> (json \<Rightarrow> 'a) \<Rightarrow> 'a list" where
  "field_array v k f =
     (case Option.bind (json_get v (lit k)) as_array of Some arr \<Rightarrow> map f arr | None \<Rightarrow> [])"

definition array_or_empty :: "json \<Rightarrow> (json \<Rightarrow> 'a) \<Rightarrow> 'a list" where
  "array_or_empty v f = (case as_array v of Some arr \<Rightarrow> map f arr | None \<Rightarrow> [])"

definition decode_portfolio_names :: "json \<Rightarrow> PortfolioName list" where
  "decode_portfolio_names data =
     array_or_empty data (\<lambda>i. \<lparr>pn_id = field_str i ''id'', pn_name = field_str i ''name''\<rparr>)"

definition strings_of :: "json list \<Rightarrow> rstr list" where
  "strings_of vs = List.map_filter as_str vs"

definition decode_sheet_summary :: "json \<Rightarrow> SheetSummary" where
  "decode_sheet_summary data =
     \<lparr>ss_portfolio_id = field_str data ''portfolio_id'',
      ss_sheets = field_array data ''sheets'' (\<lambda>sheet.
        \<lparr>si_name = field_str sheet ''name'',
         si_sections = (case Option.bind (json_get sheet (lit ''sections'')) as_array of
           Some secs \<Rightarrow> strings_of secs | None \<Rightarrow> [])\<rparr>)\<rparr>"

text \<open>\<open>as u32\<close> keeps the low 32 bits of the \<open>u64\<close>.\<close>

definition decode_asset_count :: "json \<Rightarrow> AssetCount" where
  "decode_asset_count data =
     \<lparr>ac_portfolio_id = field_str data ''portfolio_id'',
      ac_count_by_category = field_array data ''count_by_category'' (\<lambda>c.
        \<lparr>cc_category = field_str c ''category'',
         cc_count = ucast (unwrap_or 0 (Option.bind (json_get c (lit ''count'')) as_u64))\<rparr>)\<rparr>"

definition decode_currency_rates :: "serde \<Rightarrow> json \<Rightarrow> CurrencyRate list" where
  "decode_currency_rates S data =
     array_or_empty data (\<lambda>r.
       \<lparr>cr_id = field_str r ''id'', cr_name = field_str r ''name'', cr_symbol = field_str r ''symbol'',
        cr_rate = unwrap_or 0 (Option.bind (json_get r (lit ''rate'')) (as_f64 S))\<rparr>)"

definition decode_aggregated_summary :: "serde \<Rightarrow> json \<Rightarrow> AggregatedSummary" where
  "decode_aggregated_summary S data =
     \<lparr>as_portfolio_id = field_str data ''portfolio_id'',
      as_totals = field_array data ''totals'' (\<lambda>t.
        \<lparr>ct_category = field_str t ''category'',
         ct_total = unwrap_or 0 (Option.bind (json_get t (lit ''total'')) (as_f64 S))\<rparr>)\<rparr>"

definition tw_read_portfolio_names :: "serde \<Rightarrow> (PortfolioName list, ApiError) result tcall" where
  "tw_read_portfolio_names S =
     tcall_map (map_ok decode_portfolio_names) (workspace_forward S ''read:portfolio_names'' None)"

definition tw_read_sheet_structure :: "serde \<Rightarrow> rstr \<Rightarrow> (SheetSummary, ApiError) result tcall" where
  "tw_read_sheet_structure S pid =
     tcall_map (map_ok decode_sheet_summary) (workspace_forward S ''read:sheet_structure'' (Some pid))"

definition tw_read_asset_count :: "serde \<Rightarrow> rstr \<Rightarrow> (AssetCount, ApiError) result tcall" where
  "tw_read_asset_count S pid =
     tcall_map (map_ok decode_asset_count) (workspace_forward S ''read:asset_count'' (Some pid))"

definition tw_read_currency_rates :: "serde \<Rightarrow> (CurrencyRate list, ApiError) result tcall" where
  "tw_read_currency_rates S =
     tcall_map (map_ok (decode_currency_rates S)) (workspace_forward S ''read:currency_rates'' None)"

definition tw_read_aggregated_values :: "serde \<Rightarrow> rstr \<Rightarrow> (AggregatedSummary, ApiError) result tcall" where
  "tw_read_aggregated_values S pid =
     tcall_map (map_ok (decode_aggregated_summary S))
       (workspace_forward S ''read:aggregated_values'' (Some pid))"

definition tw_write_external_file :: "rstr \<Rightarrow> bytes \<Rightarrow> (unit, ApiError) result tcall" where
  "tw_write_external_file filename content =
     Immediate (Err (api_err ''not-found'' (lit ''write-external-file: not wired (reserved capability)'')))"

section \<open>plugin_host_storage_events: the storage and events host\<close>

definition storage_call :: "serde \<Rightarrow> json \<Rightarrow> (json, ApiError) result tcall" where
  "storage_call S req = send_request S transport_closed req"

text \<open>Bytes ride as a base64 string.\<close>

definition b64_str :: "bytes \<Rightarrow> json" where
  "b64_str bs = JStr (b64_encode bs)"

definition decode_stored :: "json \<Rightarrow> (bytes option, ApiError) result" where
  "decode_stored data =
     (case as_str data of
        Some s \<Rightarrow>
          (case b64_decode s of
             Some bs \<Rightarrow> Ok (Some bs)
           | None \<Rightarrow> Err (api_err ''bad-response'' (lit ''storage value was not valid base64'')))
      | None \<Rightarrow> Ok None)"

definition method_req :: "string \<Rightarrow> (rstr \<times> json) list \<Rightarrow> json" where
  "method_req m args = JObj ((lit ''method'', JStr (lit m)) # args)"

definition tse_get :: "serde \<Rightarrow> rstr \<Rightarrow> (bytes option, ApiError) result tcall" where
  "tse_get S key =
     tcall_map (\<lambda>r. and_then r decode_stored)
       (storage_call S (method_req ''storage_get'' [(lit ''key'', JStr key)]))"

definition tse_set :: "serde \<Rightarrow> rstr \<Rightarrow> bytes \<Rightarrow> (unit, ApiError) result tcall" where
  "tse_set S key v =
     tcall_map (map_ok (\<lambda>_. ()))
       (storage_call S (method_req ''storage_set'' [(lit ''key'', JStr key), (lit ''value'', b64_str v)]))"

definition tse_delete :: "serde \<Rightarrow> rstr \<Rightarrow> (unit, ApiError) result tcall" where
  "tse_delete S key =
     tcall_map (map_ok (\<lambda>_. ())) (storage_call S (method_req ''storage_delete'' [(lit ''key'', JStr key)]))"

definition tse_clear :: "serde \<Rightarrow> (unit, ApiError) result tcall" where
  "tse_clear S = tcall_map (map_ok (\<lambda>_. ())) (storage_call S (method_req ''storage_clear'' []))"

definition decode_keys :: "json \<Rightarrow> rstr list" where
  "decode_keys data = (case as_array data of Some arr \<Rightarrow> strings_of arr | None \<Rightarrow> [])"

definition tse_list_keys :: "serde \<Rightarrow> (rstr list, ApiError) result tcall" where
  "tse_list_keys S = tcall_map (map_ok decode_keys) (storage_call S (method_req ''storage_list_keys'' []))"

definition tse_emit :: "serde \<Rightarrow> PluginEvent \<Rightarrow> (unit, ApiError) result tcall" where
  "tse_emit S ev =
     tcall_map (map_ok (\<lambda>_. ()))
       (storage_call S (method_req ''emit_event''
          [(lit ''name'', JStr (kind ev)), (lit ''payload'', b64_str (payload ev))]))"

section \<open>plugin_host_full: the unified host\<close>

definition not_wired :: "string \<Rightarrow> ApiError" where
  "not_wired method = api_err ''not-found''
     (lit method @ lit '': not wired in the C1 keystone (follows the proven per-capability bridge)'')"

definition plugin_forward :: "serde \<Rightarrow> json \<Rightarrow> (json, ApiError) result tcall" where
  "plugin_forward S req = send_request S transport_closed req"

definition tp_read_portfolio_names :: "serde \<Rightarrow> (PortfolioName list, ApiError) result tcall" where
  "tp_read_portfolio_names S =
     tcall_map (map_ok (\<lambda>data. array_or_empty data
         (\<lambda>i. \<lparr>pn_id = field_str i ''id'', pn_name = field_str i ''name''\<rparr>)))
       (plugin_forward S (method_req ''read:portfolio_names'' []))"

definition tp_read_sheet_structure :: "rstr \<Rightarrow> (SheetSummary, ApiError) result tcall" where
  "tp_read_sheet_structure pid = Immediate (Err (not_wired ''read-sheet-structure''))"

definition tp_read_asset_count :: "rstr \<Rightarrow> (AssetCount, ApiError) result tcall" where
  "tp_read_asset_count pid = Immediate (Err (not_wired ''read-asset-count''))"

definition tp_read_currency_rates :: "(CurrencyRate list, ApiError) result tcall" where
  "tp_read_currency_rates = Immediate (Err (not_wired ''read-currency-rates''))"

definition tp_read_aggregated_values :: "rstr \<Rightarrow> (AggregatedSummary, ApiError) result tcall" where
  "tp_read_aggregated_values pid = Immediate (Err (not_wired ''read-aggregated-values''))"

definition tp_write_external_file :: "rstr \<Rightarrow> bytes \<Rightarrow> (unit, ApiError) result tcall" where
  "tp_write_external_file filename content = Immediate (Err (not_wired ''write-external-file''))"

definition tp_get :: "serde \<Rightarrow> rstr \<Rightarrow> (bytes option, ApiError) result tcall" where
  "tp_get S key =
     tcall_map (\<lambda>r. and_then r decode_stored)
       (plugin_forward S (method_req ''storage_get'' [(lit ''key'', JStr key)]))"

definition tp_set :: "serde \<Rightarrow> rstr \<Rightarrow> bytes \<Rightarrow> (unit, ApiError) result tcall" where
  "tp_set S key v =
     tcall_map (map_ok (\<lambda>_. ()))
       (plugin_forward S (method_req ''storage_set'' [(lit ''key'', JStr key), (lit ''value'', b64_str v)]))"

definition tp_delete :: "rstr \<Rightarrow> (unit, ApiError) result tcall" where
  "tp_delete key = Immediate (Err (not_wired ''storage.delete''))"

definition tp_clear :: "(unit, ApiError) result tcall" where
  "tp_clear = Immediate (Err (not_wired ''storage.clear''))"

definition tp_list_keys :: "(rstr list, ApiError) result tcall" where
  "tp_list_keys = Immediate (Err (not_wired ''storage.list-keys''))"

definition tp_emit :: "serde \<Rightarrow> PluginEvent \<Rightarrow> (unit, ApiError) result tcall" where
  "tp_emit S ev =
     tcall_map (map_ok (\<lambda>_. ()))
       (plugin_forward S (method_req ''emit_event''
          [(lit ''name'', JStr (kind ev)), (lit ''payload'', b64_str (payload ev))]))"

fun level_str :: "Level \<Rightarrow> rstr" where
  "level_str Trace = lit ''trace''"
| "level_str Debug = lit ''debug''"
| "level_str Info = lit ''info''"
| "level_str Warn = lit ''warn''"
| "level_str Error = lit ''error''"

text \<open>\<open>log.write\<close> has no result: the reply, good or bad, is ignored.\<close>

definition tp_log_write :: "serde \<Rightarrow> Level \<Rightarrow> rstr \<Rightarrow> unit tcall" where
  "tp_log_write S l m =
     tcall_map (\<lambda>_. ()) (plugin_forward S (method_req ''log''
       [(lit ''level'', JStr (level_str l)), (lit ''message'', JStr m)]))"

section \<open>Drives\<close>

text \<open>The calls of each world, and their answers.\<close>

datatype ws_call =
    ReadPortfolioNames
  | ReadSheetStructure rstr
  | ReadAssetCount rstr
  | ReadCurrencyRates
  | ReadAggregatedValues rstr
  | WriteExternalFile rstr bytes

datatype se_call =
    StorageGet rstr
  | StorageSet rstr bytes
  | StorageDelete rstr
  | StorageClear
  | StorageListKeys
  | EventsEmit PluginEvent

datatype plugin_call = PWorkspace ws_call | PStorage se_call | PLog Level rstr

datatype reply =
    RNames "(PortfolioName list, ApiError) result"
  | RSheets "(SheetSummary, ApiError) result"
  | RCounts "(AssetCount, ApiError) result"
  | RRates "(CurrencyRate list, ApiError) result"
  | RTotals "(AggregatedSummary, ApiError) result"
  | RBytes "(bytes option, ApiError) result"
  | RKeys "(rstr list, ApiError) result"
  | RUnit "(unit, ApiError) result"
  | RLogged

fun workspace_host :: "serde \<Rightarrow> ws_call \<Rightarrow> reply tcall" where
  "workspace_host S ReadPortfolioNames = tcall_map RNames (tw_read_portfolio_names S)"
| "workspace_host S (ReadSheetStructure pid) = tcall_map RSheets (tw_read_sheet_structure S pid)"
| "workspace_host S (ReadAssetCount pid) = tcall_map RCounts (tw_read_asset_count S pid)"
| "workspace_host S ReadCurrencyRates = tcall_map RRates (tw_read_currency_rates S)"
| "workspace_host S (ReadAggregatedValues pid) = tcall_map RTotals (tw_read_aggregated_values S pid)"
| "workspace_host S (WriteExternalFile n c) = tcall_map RUnit (tw_write_external_file n c)"

fun storage_events_host :: "serde \<Rightarrow> se_call \<Rightarrow> reply tcall" where
  "storage_events_host S (StorageGet k) = tcall_map RBytes (tse_get S k)"
| "storage_events_host S (StorageSet k v) = tcall_map RUnit (tse_set S k v)"
| "storage_events_host S (StorageDelete k) = tcall_map RUnit (tse_delete S k)"
| "storage_events_host S StorageClear = tcall_map RUnit (tse_clear S)"
| "storage_events_host S StorageListKeys = tcall_map RKeys (tse_list_keys S)"
| "storage_events_host S (EventsEmit e) = tcall_map RUnit (tse_emit S e)"

fun plugin_host :: "serde \<Rightarrow> plugin_call \<Rightarrow> reply tcall" where
  "plugin_host S (PWorkspace ReadPortfolioNames) = tcall_map RNames (tp_read_portfolio_names S)"
| "plugin_host S (PWorkspace (ReadSheetStructure pid)) = tcall_map RSheets (tp_read_sheet_structure pid)"
| "plugin_host S (PWorkspace (ReadAssetCount pid)) = tcall_map RCounts (tp_read_asset_count pid)"
| "plugin_host S (PWorkspace ReadCurrencyRates) = tcall_map RRates tp_read_currency_rates"
| "plugin_host S (PWorkspace (ReadAggregatedValues pid)) = tcall_map RTotals (tp_read_aggregated_values pid)"
| "plugin_host S (PWorkspace (WriteExternalFile n c)) = tcall_map RUnit (tp_write_external_file n c)"
| "plugin_host S (PStorage (StorageGet k)) = tcall_map RBytes (tp_get S k)"
| "plugin_host S (PStorage (StorageSet k v)) = tcall_map RUnit (tp_set S k v)"
| "plugin_host S (PStorage (StorageDelete k)) = tcall_map RUnit (tp_delete k)"
| "plugin_host S (PStorage StorageClear) = tcall_map RUnit tp_clear"
| "plugin_host S (PStorage StorageListKeys) = tcall_map RKeys tp_list_keys"
| "plugin_host S (PStorage (EventsEmit e)) = tcall_map RUnit (tp_emit S e)"
| "plugin_host S (PLog l m) = tcall_map (\<lambda>_. RLogged) (tp_log_write S l m)"

text \<open>
  A component's run over typed imports: it finishes with its result, fails in the engine (also
  before it starts: linking, fuel, instantiation), or makes a typed call.  The component itself is
  outside the crate.
\<close>

datatype 'c typed_run =
    TFinish "(bytes, rstr) result"
  | TTrap wasm_error
  | TCall 'c "reply \<Rightarrow> 'c typed_run"

primrec drive_with :: "('c \<Rightarrow> reply tcall) \<Rightarrow> 'c typed_run \<Rightarrow> guest" where
  "drive_with host (TFinish r) = Return r"
| "drive_with host (TTrap e) = Return (Err (annotate e))"
| "drive_with host (TCall c k) =
     (case host c of
        Immediate r \<Rightarrow> drive_with host (k r)
      | Roundtrip req dec \<Rightarrow> Call req (\<lambda>resp. drive_with host (k (dec resp))))"

definition drive_workspace_run :: "serde \<Rightarrow> ws_call typed_run \<Rightarrow> guest" where
  "drive_workspace_run S run = drive_with (workspace_host S) run"

definition drive_storage_events_run :: "serde \<Rightarrow> se_call typed_run \<Rightarrow> guest" where
  "drive_storage_events_run S run = drive_with (storage_events_host S) run"

definition drive_plugin_run :: "serde \<Rightarrow> plugin_call typed_run \<Rightarrow> guest" where
  "drive_plugin_run S run = drive_with (plugin_host S) run"

section \<open>One call against a servicer\<close>

text \<open>The caller's side of a round trip: a servicer with a state of its own.\<close>

fun perform :: "('s \<Rightarrow> bytes \<Rightarrow> bytes \<times> 's) \<Rightarrow> 'a tcall \<Rightarrow> 's \<Rightarrow> 'a \<times> 's" where
  "perform svc (Immediate r) st = (r, st)"
| "perform svc (Roundtrip req dec) st = (case svc st req of (resp, st') \<Rightarrow> (dec (Some resp), st'))"

lemma perform_map: "perform svc (tcall_map f tc) st = (case perform svc tc st of (r, st') \<Rightarrow> (f r, st'))"
  by (cases tc) (simp_all split: prod.split)

text \<open>A reply counts only if it says so.\<close>

definition acknowledged :: "serde \<Rightarrow> bytes option \<Rightarrow> json \<Rightarrow> bool" where
  "acknowledged S resp data \<longleftrightarrow>
     (\<exists>bs v. resp = Some bs \<and> from_slice S bs = Ok v \<and> json_get v (lit ''ok'') = Some (JBool True) \<and>
        data = unwrap_or JNull (json_get v (lit ''data'')))"

lemma as_bool_Some: "as_bool j = Some b \<longleftrightarrow> j = JBool b"
  by (cases j) auto

lemma as_str_Some: "as_str j = Some s \<longleftrightarrow> j = JStr s"
  by (cases j) auto

lemma unwrap_reply_Ok_iff:
  "unwrap_reply v = Ok d \<longleftrightarrow>
     json_get v (lit ''ok'') = Some (JBool True) \<and> d = unwrap_or JNull (json_get v (lit ''data''))"
proof -
  have "unwrap_or False (Option.bind (json_get v (lit ''ok'')) as_bool) \<longleftrightarrow>
      json_get v (lit ''ok'') = Some (JBool True)"
    by (cases "json_get v (lit ''ok'')"; cases "as_bool (the (json_get v (lit ''ok'')))")
      (auto simp: as_bool_Some)
  then show ?thesis by (auto simp: unwrap_reply_def)
qed

lemma decode_reply_Ok_iff: "decode_reply S gone resp = Ok d \<longleftrightarrow> acknowledged S resp d"
  by (auto simp: decode_reply_def acknowledged_def unwrap_reply_Ok_iff split: option.splits sum.splits)

text \<open>
  A call that is sent, and succeeds exactly on acknowledged data that decodes; without a round trip
  it only fails, because its request did not serialise.
\<close>

fun answers :: "serde \<Rightarrow> (json \<Rightarrow> ('a, ApiError) result) \<Rightarrow> ('a, ApiError) result tcall \<Rightarrow> bool" where
  "answers S f (Immediate r) \<longleftrightarrow> (\<exists>req e. to_vec S req = Err e \<and> r = Err (api_err ''bad-request'' e))"
| "answers S f (Roundtrip bs dec) \<longleftrightarrow> (\<exists>req. to_vec S req = Ok bs) \<and>
     (\<forall>resp x. dec resp = Ok x \<longleftrightarrow> (\<exists>d. acknowledged S resp d \<and> f d = Ok x))"

lemma answers_send: "answers S f (tcall_map (\<lambda>r. and_then r f) (send_request S gone req))"
  by (auto simp: send_request_def and_then_Ok_iff decode_reply_Ok_iff split: sum.split)

lemma map_ok_and_then: "map_ok g r = and_then r (\<lambda>d. Ok (g d))"
  by (cases r) simp_all

lemmas answers_send_map = answers_send [where f = "\<lambda>d. Ok (g d)" for g, folded map_ok_and_then]

section \<open>The JSON shapes of the reads\<close>

text \<open>A call that is not wired: refused in the host as \<open>not-found\<close>, with nothing on the wire.\<close>

fun refused_unwired :: "('a, ApiError) result tcall \<Rightarrow> bool" where
  "refused_unwired (Immediate (Inl e)) \<longleftrightarrow> code e = lit ''not-found''"
| "refused_unwired c \<longleftrightarrow> False"

definition json_of_names :: "PortfolioName list \<Rightarrow> json" where
  "json_of_names ns =
     JArr (map (\<lambda>n. JObj [(lit ''id'', JStr (pn_id n)), (lit ''name'', JStr (pn_name n))]) ns)"

definition json_of_sheets :: "SheetSummary \<Rightarrow> json" where
  "json_of_sheets s =
     JObj [(lit ''portfolio_id'', JStr (ss_portfolio_id s)),
           (lit ''sheets'', JArr (map (\<lambda>i. JObj [(lit ''name'', JStr (si_name i)),
              (lit ''sections'', JArr (map JStr (si_sections i)))]) (ss_sheets s)))]"

definition json_of_counts :: "AssetCount \<Rightarrow> json" where
  "json_of_counts a =
     JObj [(lit ''portfolio_id'', JStr (ac_portfolio_id a)),
           (lit ''count_by_category'', JArr (map (\<lambda>c. JObj [(lit ''category'', JStr (cc_category c)),
              (lit ''count'', JInt (uint (cc_count c)))]) (ac_count_by_category a)))]"

definition json_of_rates :: "CurrencyRate list \<Rightarrow> json" where
  "json_of_rates rs =
     JArr (map (\<lambda>r. JObj [(lit ''id'', JStr (cr_id r)), (lit ''name'', JStr (cr_name r)),
       (lit ''symbol'', JStr (cr_symbol r)), (lit ''rate'', JFloat (cr_rate r))]) rs)"

definition json_of_totals :: "AggregatedSummary \<Rightarrow> json" where
  "json_of_totals a =
     JObj [(lit ''portfolio_id'', JStr (as_portfolio_id a)),
           (lit ''totals'', JArr (map (\<lambda>t. JObj [(lit ''category'', JStr (ct_category t)),
              (lit ''total'', JFloat (ct_total t))]) (as_totals a)))]"

lemma key_lits:
  "lit ''id'' \<noteq> lit ''name''" "lit ''name'' \<noteq> lit ''symbol''" "lit ''id'' \<noteq> lit ''symbol''"
  "lit ''rate'' \<noteq> lit ''id''" "lit ''rate'' \<noteq> lit ''name''" "lit ''rate'' \<noteq> lit ''symbol''"
  "lit ''portfolio_id'' \<noteq> lit ''sheets''" "lit ''name'' \<noteq> lit ''sections''"
  "lit ''portfolio_id'' \<noteq> lit ''count_by_category''" "lit ''category'' \<noteq> lit ''count''"
  "lit ''portfolio_id'' \<noteq> lit ''totals''" "lit ''category'' \<noteq> lit ''total''"
  "lit ''ok'' \<noteq> lit ''data''"
  by (simp_all add: lit_def)

lemmas key_neqs = key_lits key_lits [symmetric]

lemma strings_of_map: "strings_of (map JStr ss) = ss"
  by (induction ss) (simp_all add: strings_of_def List.map_filter_simps)

lemma count_roundtrip: "ucast (ucast (c :: u32) :: u64) = c"
  by transfer (simp add: take_bit_take_bit)

section \<open>The decoders invert the shapes\<close>

lemma decoders_invert:
  "decode_portfolio_names (json_of_names ns) = ns"
  "decode_sheet_summary (json_of_sheets sh) = sh"
  "decode_asset_count (json_of_counts ac) = ac"
  "decode_currency_rates S (json_of_rates rs) = rs"
  "decode_aggregated_summary S (json_of_totals ag) = ag"
proof -
  note simps = field_str_def field_array_def array_or_empty_def key_neqs comp_def
  show "decode_portfolio_names (json_of_names ns) = ns"
    by (simp add: decode_portfolio_names_def json_of_names_def simps map_idI)
  show "decode_sheet_summary (json_of_sheets sh) = sh"
    by (simp add: decode_sheet_summary_def json_of_sheets_def simps strings_of_map map_idI)
  have range: "uint c < 18446744073709551616" for c :: u32 using uint_bounded [of c] by simp
  show "decode_asset_count (json_of_counts ac) = ac"
    by (simp add: decode_asset_count_def json_of_counts_def simps count_roundtrip range map_idI)
  show "decode_currency_rates S (json_of_rates rs) = rs"
    by (simp add: decode_currency_rates_def json_of_rates_def simps map_idI)
  show "decode_aggregated_summary S (json_of_totals ag) = ag"
    by (simp add: decode_aggregated_summary_def json_of_totals_def simps map_idI)
qed

section \<open>Storage over the wire\<close>

text \<open>
  What the app promises: it keeps strings under keys, unchanged.  \<open>look\<close> is its state as a map.
\<close>

definition stores_strings ::
  "serde \<Rightarrow> ('s \<Rightarrow> bytes \<Rightarrow> bytes \<times> 's) \<Rightarrow> ('s \<Rightarrow> rstr \<Rightarrow> rstr option) \<Rightarrow> bool" where
  "stores_strings S svc look \<longleftrightarrow>
     (\<forall>st k v. \<exists>bs resp st' d.
        to_vec S (method_req ''storage_set'' [(lit ''key'', JStr k), (lit ''value'', JStr v)]) = Ok bs \<and>
        svc st bs = (resp, st') \<and> acknowledged S (Some resp) d \<and> look st' = (look st)(k \<mapsto> v)) \<and>
     (\<forall>st k. \<exists>bs resp st'.
        to_vec S (method_req ''storage_get'' [(lit ''key'', JStr k)]) = Ok bs \<and>
        svc st bs = (resp, st') \<and> look st' = look st \<and>
        acknowledged S (Some resp) (case look st k of Some v \<Rightarrow> JStr v | None \<Rightarrow> JNull))"

definition stored_bytes :: "('s \<Rightarrow> rstr \<Rightarrow> rstr option) \<Rightarrow> 's \<Rightarrow> rstr \<Rightarrow> bytes option" where
  "stored_bytes look st k = Option.bind (look st k) b64_decode"

lemma acknowledged_decode: "acknowledged S resp d \<Longrightarrow> decode_reply S gone resp = Ok d"
  by (simp add: decode_reply_Ok_iff)

lemma set_over_wire:
  assumes "stores_strings S svc look"
  shows "\<exists>st'. perform svc (tcall_map (map_ok (\<lambda>_. ())) (send_request S gone
      (method_req ''storage_set'' [(lit ''key'', JStr k), (lit ''value'', b64_str v)]))) st = (Ok (), st') \<and>
    stored_bytes look st' = (stored_bytes look st)(k \<mapsto> v)"
proof -
  from assms obtain bs resp st' d where
    "to_vec S (method_req ''storage_set'' [(lit ''key'', JStr k), (lit ''value'', b64_str v)]) = Ok bs"
    "svc st bs = (resp, st')" "acknowledged S (Some resp) d" "look st' = (look st)(k \<mapsto> b64_encode v)"
    unfolding stores_strings_def b64_str_def by metis
  then show ?thesis
    by (intro exI [of _ st']) (auto simp: send_request_def stored_bytes_def b64_roundtrip acknowledged_decode)
qed

lemma get_over_wire:
  assumes "stores_strings S svc look" and "look st k \<noteq> None \<longrightarrow> stored_bytes look st k \<noteq> None"
  shows "\<exists>st'. perform svc (tcall_map (\<lambda>r. and_then r decode_stored) (send_request S gone
      (method_req ''storage_get'' [(lit ''key'', JStr k)]))) st = (Ok (stored_bytes look st k), st') \<and>
    stored_bytes look st' = stored_bytes look st"
proof -
  from assms(1) obtain bs resp st' where wire:
    "to_vec S (method_req ''storage_get'' [(lit ''key'', JStr k)]) = Ok bs" "svc st bs = (resp, st')"
    "look st' = look st" "acknowledged S (Some resp) (case look st k of Some v \<Rightarrow> JStr v | None \<Rightarrow> JNull)"
    unfolding stores_strings_def by metis
  have "decode_stored (case look st k of Some v \<Rightarrow> JStr v | None \<Rightarrow> JNull) = Ok (stored_bytes look st k)"
    using assms(2) by (auto simp: decode_stored_def stored_bytes_def split: option.splits)
  with wire show ?thesis
    by (intro exI [of _ st']) (auto simp: send_request_def stored_bytes_def acknowledged_decode)
qed

section \<open>Properties\<close>

lemmas unwired_defs = tw_write_external_file_def tp_write_external_file_def tp_read_sheet_structure_def
  tp_read_asset_count_def tp_read_currency_rates_def tp_read_aggregated_values_def tp_delete_def
  tp_clear_def tp_list_keys_def not_wired_def api_err_def

text \<open>
  C30. Typed calls fail closed: each wired call of the three hosts sends its serialised request (or,
  if that fails, is refused), and whatever bytes the caller sends back, or none, succeeds exactly when the reply parses as JSON with \<open>"ok": true\<close> and its data
  decodes, and its value is that decoding.  The nine calls that are not wired (the external-file
  write of the two hosts that have one, and the four reads and three storage calls the unified host
  leaves out) are refused as \<open>not-found\<close> without a request.
\<close>

theorem typed_calls_fail_closed:
  "answers S (\<lambda>d. Ok (decode_portfolio_names d)) (tw_read_portfolio_names S) \<and>
   answers S (\<lambda>d. Ok (decode_sheet_summary d)) (tw_read_sheet_structure S pid) \<and>
   answers S (\<lambda>d. Ok (decode_asset_count d)) (tw_read_asset_count S pid) \<and>
   answers S (\<lambda>d. Ok (decode_currency_rates S d)) (tw_read_currency_rates S) \<and>
   answers S (\<lambda>d. Ok (decode_aggregated_summary S d)) (tw_read_aggregated_values S pid) \<and>
   answers S decode_stored (tse_get S k) \<and> answers S (\<lambda>d. Ok ()) (tse_set S k v) \<and>
   answers S (\<lambda>d. Ok ()) (tse_delete S k) \<and> answers S (\<lambda>d. Ok ()) (tse_clear S) \<and>
   answers S (\<lambda>d. Ok (decode_keys d)) (tse_list_keys S) \<and> answers S (\<lambda>d. Ok ()) (tse_emit S e) \<and>
   answers S (\<lambda>d. Ok (decode_portfolio_names d)) (tp_read_portfolio_names S) \<and>
   answers S decode_stored (tp_get S k) \<and> answers S (\<lambda>d. Ok ()) (tp_set S k v) \<and>
   answers S (\<lambda>d. Ok ()) (tp_emit S e) \<and>
   refused_unwired (tw_write_external_file n c) \<and> refused_unwired (tp_write_external_file n c) \<and>
   refused_unwired (tp_read_sheet_structure pid) \<and> refused_unwired (tp_read_asset_count pid) \<and>
   refused_unwired tp_read_currency_rates \<and> refused_unwired (tp_read_aggregated_values pid) \<and>
   refused_unwired (tp_delete k) \<and> refused_unwired tp_clear \<and> refused_unwired tp_list_keys"
  unfolding tw_read_portfolio_names_def tw_read_sheet_structure_def tw_read_asset_count_def
    tw_read_currency_rates_def tw_read_aggregated_values_def workspace_forward_def Let_def
    tse_get_def tse_set_def tse_delete_def tse_clear_def tse_list_keys_def tse_emit_def storage_call_def
    tp_read_portfolio_names_def tp_get_def tp_set_def tp_emit_def plugin_forward_def
    decode_portfolio_names_def [abs_def, symmetric]
  by (intro conjI answers_send answers_send_map) (simp_all add: unwired_defs)


text \<open>
  C29. Storage over the wire is a byte map: against an app that keeps strings under keys, \<open>set\<close> of
  either host succeeds and updates the stored bytes at that key only, and \<open>get\<close> returns the stored
  bytes and changes nothing, so any byte value comes back as it was set.
\<close>

theorem storage_wire_refines:
  assumes "stores_strings S svc look"
  shows "(\<exists>st'. perform svc (tse_set S k v) st = (Ok (), st') \<and>
      stored_bytes look st' = (stored_bytes look st)(k \<mapsto> v) \<and>
      fst (perform svc (tse_get S k) st') = Ok (Some v)) \<and>
    (\<exists>st'. perform svc (tp_set S k v) st = (Ok (), st') \<and>
      stored_bytes look st' = (stored_bytes look st)(k \<mapsto> v) \<and>
      fst (perform svc (tp_get S k) st') = Ok (Some v)) \<and>
    (look st j = None \<longrightarrow> fst (perform svc (tse_get S j) st) = Ok None)"
proof -
  have get: "fst (perform svc (tse_get S k) st') = Ok (Some v)" "fst (perform svc (tp_get S k) st') = Ok (Some v)"
    if "stored_bytes look st' k = Some v" for st'
    using get_over_wire [OF assms, of st' k transport_closed] that
    by (auto simp: tse_get_def tp_get_def storage_call_def plugin_forward_def)
  obtain st' where st': "perform svc (tse_set S k v) st = (Ok (), st')" "perform svc (tp_set S k v) st = (Ok (), st')"
    "stored_bytes look st' = (stored_bytes look st)(k \<mapsto> v)"
    using set_over_wire [OF assms, of transport_closed k v st]
    by (auto simp: tse_set_def tp_set_def storage_call_def plugin_forward_def)
  moreover have "fst (perform svc (tse_get S j) st) = Ok None" if "look st j = None"
    using get_over_wire [OF assms, of st j transport_closed] that
    by (auto simp: tse_get_def storage_call_def stored_bytes_def)
  ultimately show ?thesis using get [of st'] by simp
qed

text \<open>
  A concrete wire: JSON values are numbered and sent as that many zero bytes; and an app that keeps
  an association list and answers the two storage methods.
\<close>

instance json :: countable
  by countable_datatype

definition demo_serde :: serde where
  "demo_serde = \<lparr>to_vec = (\<lambda>j. Ok (replicate (to_nat j) 0)), from_slice = (\<lambda>bs. Ok (from_nat (length bs))),
                 f64_of_int = (\<lambda>_. 0)\<rparr>"

definition demo_reply :: "json \<Rightarrow> bytes" where
  "demo_reply d = replicate (to_nat (JObj [(lit ''ok'', JBool True), (lit ''data'', d)])) 0"

definition demo_app :: "(rstr \<Rightarrow> rstr option) \<Rightarrow> bytes \<Rightarrow> bytes \<times> (rstr \<Rightarrow> rstr option)" where
  "demo_app m req =
     (let j = (from_nat (length req) :: json); k = field_str j ''key'' in
      if field_str j ''method'' = lit ''storage_set''
      then (demo_reply JNull, m(k \<mapsto> field_str j ''value''))
      else (demo_reply (case m k of Some v \<Rightarrow> JStr v | None \<Rightarrow> JNull), m))"

lemma demo_app_stores: "stores_strings demo_serde demo_app (\<lambda>m. m)"
proof -
  have ack: "acknowledged demo_serde (Some (demo_reply d)) d" for d
    by (simp add: acknowledged_def demo_serde_def demo_reply_def key_neqs)
  have keys: "lit ''key'' \<noteq> lit ''method''" "lit ''value'' \<noteq> lit ''method''" "lit ''value'' \<noteq> lit ''key''"
    "lit ''storage_get'' \<noteq> lit ''storage_set''"
    by (simp_all add: lit_def)
  note defs = demo_serde_def demo_app_def method_req_def field_str_def Let_def
  show ?thesis
    unfolding stores_strings_def using ack keys by (auto simp: defs)
qed

theorem storage_wire_refines_witness:
  "\<exists>st'. perform demo_app (tse_set demo_serde (lit ''k'') [0, 255]) Map.empty = (Ok (), st') \<and>
     fst (perform demo_app (tse_get demo_serde (lit ''k'')) st') = Ok (Some [0, 255])"
  using storage_wire_refines [OF demo_app_stores, of "lit ''k''" "[0, 255]" Map.empty] by blast

end
