(* ===== verification/Http_Guests.thy ===== *)
theory Http_Guests
  imports Wasi_Http_Handle P3_Stream Capstone
begin

text \<open>
  The \<open>wasi:http@0.3\<close> guest programs of the repository (\<open>test-guest-http\<close>, \<open>-http-post\<close>,
  \<open>-http-req-trailers\<close> and \<open>-plugin-http\<close>) over the host of \<open>Wasi_Http_Types\<close> and
  \<open>Wasi_Http_Handle\<close>: what each sends, and what it returns for any frames the caller answers with.
\<close>

section \<open>The guest's side of the engine\<close>

text \<open>
  A guest run ends with a value, with a trap of its own (\<open>unwrap\<close> on an error), or with a panic of
  a host function, which kills the worker.
\<close>

datatype 'a guest_outcome = Got 'a | GuestTrap | HostPanic

fun and_so ::
  "'a guest_outcome \<times> 'h \<Rightarrow> ('a \<Rightarrow> 'h \<Rightarrow> 'b guest_outcome \<times> 'h) \<Rightarrow> 'b guest_outcome \<times> 'h" where
  "and_so (Got x, h) k = k x h"
| "and_so (GuestTrap, h) k = (GuestTrap, h)"
| "and_so (HostPanic, h) k = (HostPanic, h)"

fun unwrapped :: "('a, 'e) result \<times> 'h \<Rightarrow> 'a guest_outcome \<times> 'h" where
  "unwrapped (Inr x, h) = (Got x, h)"
| "unwrapped (Inl e, h) = (GuestTrap, h)"

fun from_host :: "'a outcome \<times> 'h \<Rightarrow> 'a guest_outcome \<times> 'h" where
  "from_host (Returned x, h) = (Got x, h)"
| "from_host (Panicked, h) = (HostPanic, h)"

text \<open>
  The streams and futures a guest makes and reads: \<open>written_stream\<close> is a \<open>wit_stream::new\<close> whose
  writer a spawned task fills and drops; \<open>trailers_future\<close> is a \<open>wit_future::new\<close> with the default
  \<open>Ok(None)\<close>, whose writer a spawned task writes (\<open>Some\<close>) or is held to the end of the run
  (\<open>None\<close>); \<open>collect_all\<close> drains a stream to its end.
\<close>

record ('s, 't, 'x) guest_engine =
  host_env :: "('s, 't, 'x) http_env"
  written_stream :: "bytes \<Rightarrow> 's"
  trailers_future :: "trailers_value option \<Rightarrow> 't"
  collect_all :: "'s \<Rightarrow> bytes"

definition u16_to_le_bytes :: "u16 \<Rightarrow> bytes" where
  "u16_to_le_bytes w = [ucast w, ucast (drop_bit 8 w)]"

section \<open>The guests\<close>

text \<open>
  \<open>match handle(request).await\<close>: an error ends the run with no bytes; the body of a response is
  taken, and \<open>out\<close> is what the guest makes of its status and body.
\<close>

definition finish_with ::
  "(u16 \<Rightarrow> 's \<Rightarrow> bytes) \<Rightarrow> ('s, 't, 'x) guest_engine \<Rightarrow>
    (u32, ErrorCode) result \<times> ('s, 't) WasiHttpHost \<Rightarrow> bytes guest_outcome \<times> ('s, 't) WasiHttpHost" where
  "finish_with out g rh =
     (case rh of
        (Inl _, h) \<Rightarrow> (Got [], h)
      | (Inr response, h) \<Rightarrow>
          (let status = response_get_status_code h response in
           and_so (from_host (response_consume_body (env_minter (host_env g)) response h))
             (\<lambda>(body_stream, _) h. (Got (out status body_stream), h))))"

text \<open>The body is drained and the status put in front; one guest drops the drained body.\<close>

definition status_and_body :: "('s, 't, 'x) guest_engine \<Rightarrow> u16 \<Rightarrow> 's \<Rightarrow> bytes" where
  "status_and_body g status body_stream = u16_to_le_bytes status @ collect_all g body_stream"

definition status_only :: "u16 \<Rightarrow> 's \<Rightarrow> bytes" where
  "status_only status body_stream = u16_to_le_bytes status"

definition http_guest_run ::
  "('s, 't, 'x) guest_engine \<Rightarrow> ('s, 't) WasiHttpHost \<Rightarrow> bytes guest_outcome \<times> ('s, 't) WasiHttpHost" where
  "http_guest_run g h =
     (case fields_new h of (headers, h) \<Rightarrow>
        and_so (from_host (request_new (env_minter (host_env g)) headers None (trailers_future g None) None h))
          (\<lambda>(request, _) h.
        and_so (unwrapped (request_set_authority request (Some (lit ''example.com'')) h)) (\<lambda>_ h.
        and_so (unwrapped (request_set_path_with_query request (Some (lit ''/'')) h)) (\<lambda>_ h.
          finish_with (status_and_body g) g (handle (host_env g) request h)))))"

definition post_guest_run ::
  "('s, 't, 'x) guest_engine \<Rightarrow> ('s, 't) WasiHttpHost \<Rightarrow> bytes guest_outcome \<times> ('s, 't) WasiHttpHost" where
  "post_guest_run g h =
     (case fields_new h of (headers, h) \<Rightarrow>
        and_so (from_host (request_new (env_minter (host_env g)) headers
            (Some (written_stream g (blit ''req-body-123''))) (trailers_future g None) None h))
          (\<lambda>(request, _) h.
        and_so (unwrapped (request_set_method request MPost h)) (\<lambda>_ h.
        and_so (unwrapped (request_set_authority request (Some (lit ''example.com'')) h)) (\<lambda>_ h.
        and_so (unwrapped (request_set_path_with_query request (Some (lit ''/submit'')) h)) (\<lambda>_ h.
          finish_with (status_and_body g) g (handle (host_env g) request h))))))"

text \<open>
  The trailers guest.  The spawned task that makes the trailer fields and writes the future runs
  while \<open>handle\<close> is awaited, before the host reads them, and \<open>handle\<close> allocates no fields until
  then; it is placed just before the call.  The handle it will be given, \<open>t\<close>, is what the next
  \<open>Fields::new\<close> returns, since nothing in between makes fields.  The body is drained and dropped.
\<close>

definition req_trailers_guest_run ::
  "('s, 't, 'x) guest_engine \<Rightarrow> ('s, 't) WasiHttpHost \<Rightarrow> bytes guest_outcome \<times> ('s, 't) WasiHttpHost" where
  "req_trailers_guest_run g h =
     (case fields_new h of (headers, h) \<Rightarrow>
        let t = fst (fields_new h) in
        and_so (from_host (request_new (env_minter (host_env g)) headers None
            (trailers_future g (Some (Ok (Some t)))) None h))
          (\<lambda>(request, _) h.
        and_so (unwrapped (request_set_authority request (Some (lit ''example.com'')) h)) (\<lambda>_ h.
        and_so (unwrapped (request_set_path_with_query request (Some (lit ''/'')) h)) (\<lambda>_ h.
        case fields_new h of (t, h) \<Rightarrow>
        and_so (unwrapped (fields_set t (lit ''x-trace'') [blit ''req-trailer-1''] h)) (\<lambda>_ h.
          finish_with status_only g (handle (host_env g) request h))))))"

text \<open>\<open>test-guest-plugin-http\<close>: a log line on the harness, then the GET, on one store.\<close>

definition plugin_http_guest_run ::
  "('s, 't, 'x) guest_engine \<Rightarrow> CapstoneHarness \<times> ('s, 't) WasiHttpHost \<Rightarrow>
    bytes guest_outcome \<times> CapstoneHarness \<times> ('s, 't) WasiHttpHost" where
  "plugin_http_guest_run g st =
     (case st of (c, h) \<Rightarrow>
        (let c = log_write c Info (lit ''plugin-http-guest: fetching example.com'') in
         case fields_new h of (headers, h) \<Rightarrow>
         case and_so (from_host (request_new (env_minter (host_env g)) headers None (trailers_future g None) None h))
             (\<lambda>(request, _) h.
           and_so (unwrapped (request_set_authority request (Some (lit ''example.com'')) h)) (\<lambda>_ h.
           and_so (unwrapped (request_set_path_with_query request (Some (lit ''/'')) h)) (\<lambda>_ h.
             finish_with (status_and_body g) g (handle (host_env g) request h)))) of
           (r, h) \<Rightarrow> (r, c, h)))"

section \<open>What the engine must provide\<close>

text \<open>
  The engine mints every stream and future; a stream over bytes or frames reads back as those
  bytes; a written stream reaches the host whole; a written trailers future resolves within the
  host's wait; an unwritten one never yields trailers.
\<close>

definition engine_ok :: "('s, 't, 'x) guest_engine \<Rightarrow> bool" where
  "engine_ok g \<longleftrightarrow>
     (\<forall>bs. \<exists>s. mint_stream (env_minter (host_env g)) bs = Ok s \<and> collect_all g s = bs) \<and>
     (\<forall>v. \<exists>t. mint_trailers (env_minter (host_env g)) v = Ok t) \<and>
     (\<exists>x. mint_transmit (env_minter (host_env g)) (Ok ()) = Ok x) \<and>
     (\<forall>fs. \<exists>s. mint_producer (host_env g) fs = Ok s \<and> collect_all g s = concat fs) \<and>
     (\<forall>bs. \<exists>ps. pipe_body (host_env g) (written_stream g bs) = Ok ps \<and> concat (body_batches ps) = bs) \<and>
     (\<forall>v. \<exists>p. pipe_trailers (host_env g) (trailers_future g (Some v)) = Ok p \<and>
        await_trailers_bounded (trailers_rx p) = Some (Ok v)) \<and>
     (\<exists>p. pipe_trailers (host_env g) (trailers_future g None) = Ok p \<and>
        (\<forall>rep. await_trailers_bounded (trailers_rx p) \<noteq> Some (Ok (Ok (Some rep)))))"

lemma engine_okD:
  assumes "engine_ok g"
  obtains fut x where "\<And>v. mint_trailers (env_minter (host_env g)) v = Ok (fut v)"
    "mint_transmit (env_minter (host_env g)) (Ok ()) = Ok x"
  using assms unfolding engine_ok_def by metis

section \<open>The caller's answer as the guest returns it\<close>

text \<open>The frames the caller pushes before it closes: a head and the body, or anything else.\<close>

definition response_output :: "(u16 \<Rightarrow> bytes \<Rightarrow> bytes) \<Rightarrow> (rstr \<Rightarrow> rstr) \<Rightarrow> bytes list \<Rightarrow> bytes" where
  "response_output out dbg ins =
     (case ins of
        [] \<Rightarrow> []
      | head # rest \<Rightarrow>
          (case parse_response_head dbg head of
             Inl _ \<Rightarrow> []
           | Inr rh \<Rightarrow> out (of_nat (rh_status rh)) (concat rest)))"

abbreviation echo_status_body :: "u16 \<Rightarrow> bytes \<Rightarrow> bytes" where
  "echo_status_body status body \<equiv> u16_to_le_bytes status @ body"

text \<open>What a guest makes of the body stream, in terms of its bytes.\<close>

definition reads_as ::
  "('s, 't, 'x) guest_engine \<Rightarrow> (u16 \<Rightarrow> 's \<Rightarrow> bytes) \<Rightarrow> (u16 \<Rightarrow> bytes \<Rightarrow> bytes) \<Rightarrow> bool" where
  "reads_as g f out \<longleftrightarrow> (\<forall>status s. f status s = out status (collect_all g s))"

lemma reads_status:
  "reads_as g (status_and_body g) echo_status_body" "reads_as g status_only (\<lambda>status _. u16_to_le_bytes status)"
  by (simp_all add: reads_as_def status_and_body_def status_only_def)

lemma finish_reads:
  assumes "engine_ok g" and inv: "table_inv (fields_tab h)" "table_inv (responses h)"
    and room: "1 < table_room (fields_tab h)" "0 < table_room (responses h)"
    and out: "reads_as g f out"
  obtains h' where "finish_with f g (read_response (host_env g) (Some ins) h) =
      (Got (response_output out (debug_fmt (host_env g)) ins), h')" "sent h' = sent h"
proof (cases ins)
  case Nil
  then show ?thesis using that [of h] by (simp add: read_response_def finish_with_def response_output_def)
next
  case (Cons head rest)
  show ?thesis
  proof (cases "parse_response_head (debug_fmt (host_env g)) head")
    case (Inl e)
    with Cons show ?thesis
      using that [of h] by (simp add: read_response_def finish_with_def response_output_def)
  next
    case (Inr rh)
    obtain fut x where fut: "\<And>v. mint_trailers (env_minter (host_env g)) v = Ok (fut v)"
      using engine_okD [OF assms(1)] by metis
    obtain s where s: "mint_producer (host_env g) rest = Ok s" "collect_all g s = concat rest"
      using assms(1) unfolding engine_ok_def by metis
    from build_response_Ok [OF inv room s(1), of "\<lambda>v. fut (Ok v)" rh] fut obtain rep hdr trep h1 where
      ok: "build_response (host_env g) rh rest h = (Ok rep, h1)"
      and get: "table_get (responses h1) rep = Some \<lparr>rs_status_code = of_nat (rh_status rh),
        rs_headers = hdr, rs_body = Some s, rs_trailers = Some (fut (Ok trep))\<rparr>" by metis
    let ?h2 = "h1\<lparr>responses := table_modify rep (\<lambda>r. r\<lparr>rs_body := None, rs_trailers := None\<rparr>) (responses h1)\<rparr>"
    have "sent ?h2 = sent h"
      using build_response_sent [of "host_env g" rh rest h] ok by (simp add: sent_def)
    then show ?thesis
      using Cons Inr ok get s(2)
      by (intro that [of ?h2]) (simp_all add: read_response_def finish_with_def response_output_def
          response_get_status_code_def response_consume_body_def consume_or_mint_def Let_def out [unfolded reads_as_def])
  qed
qed

text \<open>A whole exchange, for a stored request whose head encodes.\<close>

lemma guest_exchange:
  assumes "engine_ok g" and "table_inv (fields_tab h)" "table_inv (responses h)"
    and "1 < table_room (fields_tab h)" "0 < table_room (responses h)"
    and "table_get (requests h) r = Some req" "request_head h req = Ok head"
    and "transport h = Some \<lparr>tr_out = old, tr_inbound = Some ins\<rparr>"
    and "guest_batches (host_env g) (rq_body req) = Ok bs"
    and "guest_trailers (host_env g) h (rq_trailers req) = Ok tv"
    and out: "reads_as g f out"
  obtains h' where "finish_with f g (handle (host_env g) r h) =
      (Got (response_output out (debug_fmt (host_env g)) ins), h')"
    "sent h' = old @
       map OutChunk (request_frames head (filter (\<lambda>b. b \<noteq> []) bs) (map_option as_bytes tv)) @ [OutEnd]"
proof -
  obtain h1 where h1: "handle (host_env g) r h = read_response (host_env g) (Some ins) h1"
    "sent h1 = sent h @
       map OutChunk (request_frames head (filter (\<lambda>b. b \<noteq> []) bs) (map_option as_bytes tv)) @ [OutEnd]"
    "fields_tab h1 = fields_tab h" "responses h1 = responses h"
    using handle_reads [OF assms(6-10)] assms(8) by (metis HttpTransport.select_convs(2))
  obtain h2 where "finish_with f g (read_response (host_env g) (Some ins) h1) =
      (Got (response_output out (debug_fmt (host_env g)) ins), h2)" "sent h2 = sent h1"
    using finish_reads [OF assms(1) _ _ _ _ out, of h1 ins] assms(2-5) h1(3,4) by auto
  with h1 assms(8) show ?thesis by (intro that [of h2]) (simp_all add: sent_def)
qed

section \<open>On a fresh session\<close>

text \<open>The host of a streaming session, and the request the guest has built on it.\<close>

definition session_host ::
  "bytes list \<Rightarrow> ('s, 't) RequestData \<Rightarrow> FieldsData option \<Rightarrow> ('s, 't) WasiHttpHost" where
  "session_host ins req extra =
     (http_host_with_transport [] ins)\<lparr>
        fields_tab := (case extra of
            None \<Rightarrow> \<lparr>items = [(1, fields_default)], next_rep = 2\<rparr>
          | Some f \<Rightarrow> \<lparr>items = [(1, fields_default), (2, f)], next_rep = 3\<rparr>),
        requests := \<lparr>items = [(1, req)], next_rep = 2\<rparr>\<rparr>"

lemmas guest_steps = fields_new_def request_new_def update_request_def request_set_method_def
  request_set_authority_def request_set_path_with_query_def fields_set_def table_insert_def table_get_def
  table_modify_def hm_get_def hm_insert_def hm_new_def table_default_def http_host_with_transport_def
  http_host_new_def request_data_default_def Let_def

lemma session_host_facts:
  "table_inv (fields_tab (session_host ins req extra))" "table_inv (responses (session_host ins req extra))"
  "1 < table_room (fields_tab (session_host ins req extra))"
  "0 < table_room (responses (session_host ins req extra))"
  "table_get (requests (session_host ins req extra)) 1 = Some req"
  "table_get (fields_tab (session_host ins req extra)) 1 = Some fields_default"
  "table_get (fields_tab (session_host ins req extra)) 2 = extra"
  "transport (session_host ins req extra) = Some \<lparr>tr_out = [], tr_inbound = Some ins\<rparr>"
  by (cases extra; simp add: session_host_def table_inv_def hm_wf_def table_room_def guest_steps)+

definition guest_request ::
  "MethodOwned \<Rightarrow> rstr \<Rightarrow> 's option \<Rightarrow> 't \<Rightarrow> ('s, 't) RequestData" where
  "guest_request m path body trailers =
     request_data_default\<lparr>rq_method := m, rq_path_with_query := Some path,
       rq_authority := Some (lit ''example.com''), rq_headers := 1, rq_body := body,
       rq_trailers := Some trailers\<rparr>"

lemma http_guest_starts:
  assumes "mint_transmit (env_minter (host_env g)) (Ok ()) = Ok x"
  shows "http_guest_run g (http_host_with_transport [] ins) =
    finish_with (status_and_body g) g (handle (host_env g) 1
      (session_host ins (guest_request OGet (lit ''/'') None (trailers_future g None)) None))"
  using assms by (simp add: http_guest_run_def guest_request_def session_host_def guest_steps)

lemma post_guest_starts:
  assumes "mint_transmit (env_minter (host_env g)) (Ok ()) = Ok x"
  shows "post_guest_run g (http_host_with_transport [] ins) =
    finish_with (status_and_body g) g (handle (host_env g) 1
      (session_host ins (guest_request OPost (lit ''/submit'')
         (Some (written_stream g (blit ''req-body-123''))) (trailers_future g None)) None))"
  using assms by (simp add: post_guest_run_def guest_request_def session_host_def guest_steps)

text \<open>The heads that go out.\<close>

lemma request_line_facts:
  "is_http_token (lit ''GET'')" "is_http_token (lit ''POST'')" "is_request_line_safe (lit ''https'')"
  "is_request_line_safe (lit ''example.com'')" "is_request_line_safe (lit ''/'')"
  "is_request_line_safe (lit ''/submit'')"
  by (simp_all add: is_http_token_def as_bytes_def utf8_char_def utf8_code_def lit_def is_tchar_def
      is_request_line_safe_def is_whitespace_def is_control_def)

lemma guest_heads:
  "request_head (session_host ins (guest_request OGet (lit ''/'') b t) extra)
     (guest_request OGet (lit ''/'') b t) = Ok (blit ''GET https://example.com/'')"
  "request_head (session_host ins (guest_request OPost (lit ''/submit'') b t) extra)
     (guest_request OPost (lit ''/submit'') b t) = Ok (blit ''POST https://example.com/submit'')"
proof -
  have bytes: "as_bytes (lit ''GET'' @ lit '' '' @ lit ''https'' @ lit ''://'' @ lit ''example.com'' @ lit ''/'') =
      blit ''GET https://example.com/''"
    "as_bytes (lit ''POST'' @ lit '' '' @ lit ''https'' @ lit ''://'' @ lit ''example.com'' @ lit ''/submit'') =
      blit ''POST https://example.com/submit''"
    by (simp_all add: lit_def blit_def as_bytes_def utf8_char_def utf8_code_def)
  note defs = request_head_def encode_request_head_def guest_request_def request_data_default_def
    scheme_str_def fields_default_def Let_def
  show "request_head (session_host ins (guest_request OGet (lit ''/'') b t) extra)
      (guest_request OGet (lit ''/'') b t) = Ok (blit ''GET https://example.com/'')"
    using session_host_facts(6) [of ins "guest_request OGet (lit ''/'') b t" extra]
    by (simp add: defs request_line_facts bytes del: as_bytes_append)
  show "request_head (session_host ins (guest_request OPost (lit ''/submit'') b t) extra)
      (guest_request OPost (lit ''/submit'') b t) = Ok (blit ''POST https://example.com/submit'')"
    using session_host_facts(6) [of ins "guest_request OPost (lit ''/submit'') b t" extra]
    by (simp add: defs request_line_facts bytes del: as_bytes_append)
qed

lemma unwritten_trailers:
  assumes "engine_ok g"
  shows "guest_trailers (host_env g) h (Some (trailers_future g None)) = Ok None"
proof -
  obtain p where p: "pipe_trailers (host_env g) (trailers_future g None) = Ok p"
    "\<forall>rep. await_trailers_bounded (trailers_rx p) \<noteq> Some (Ok (Ok (Some rep)))"
    using assms unfolding engine_ok_def by metis
  then have "resolved_trailers h (await_trailers_bounded (trailers_rx p)) = None"
    by (auto simp: resolved_trailers_def split: option.split sum.split)
  with p show ?thesis by (simp add: guest_trailers_def)
qed

lemma http_guest_exchange:
  assumes "engine_ok g"
  obtains h' where "http_guest_run g (http_host_with_transport [] ins) =
      (Got (response_output echo_status_body (debug_fmt (host_env g)) ins), h')"
    "sent h' = [OutChunk (encode Head (blit ''GET https://example.com/'')), OutEnd]"
proof -
  obtain x where "mint_transmit (env_minter (host_env g)) (Ok ()) = Ok x"
    using engine_okD [OF assms] by metis
  note start = http_guest_starts [OF this, of ins]
  let ?req = "guest_request OGet (lit ''/'') None (trailers_future g None)"
  let ?h = "session_host ins ?req None"
  have bs: "guest_batches (host_env g) (rq_body ?req) = Ok []"
    by (simp add: guest_batches_def guest_request_def request_data_default_def)
  have tv: "guest_trailers (host_env g) ?h (rq_trailers ?req) = Ok None"
    by (simp add: guest_request_def unwritten_trailers [OF assms])
  show ?thesis
    by (rule guest_exchange [OF assms session_host_facts(1-5) guest_heads(1) session_host_facts(8) bs tv reads_status(1)])
      (use that start in \<open>simp add: request_frames_def\<close>)
qed

lemma post_guest_exchange:
  assumes "engine_ok g"
  obtains h' frames where "post_guest_run g (http_host_with_transport [] ins) =
      (Got (response_output echo_status_body (debug_fmt (host_env g)) ins), h')"
    "sent h' = map OutChunk frames @ [OutEnd]"
    "parse_request_frames frames = Ok \<lparr>rf_head = blit ''POST https://example.com/submit'',
       rf_body = blit ''req-body-123'', rf_trailers = None\<rparr>"
proof -
  obtain x where "mint_transmit (env_minter (host_env g)) (Ok ()) = Ok x"
    using engine_okD [OF assms] by metis
  note start = post_guest_starts [OF this, of ins]
  let ?req = "guest_request OPost (lit ''/submit'') (Some (written_stream g (blit ''req-body-123'')))
      (trailers_future g None)"
  let ?h = "session_host ins ?req None"
  obtain ps where ps: "pipe_body (host_env g) (written_stream g (blit ''req-body-123'')) = Ok ps"
    "concat (body_batches ps) = blit ''req-body-123''"
    using assms unfolding engine_ok_def by metis
  have bs: "guest_batches (host_env g) (rq_body ?req) = Ok (body_batches ps)"
    by (simp add: guest_batches_def guest_request_def ps)
  have tv: "guest_trailers (host_env g) ?h (rq_trailers ?req) = Ok None"
    by (simp add: guest_request_def unwritten_trailers [OF assms])
  let ?frames = "request_frames (blit ''POST https://example.com/submit'')
      (filter (\<lambda>b. b \<noteq> []) (body_batches ps)) None"
  have parse: "parse_request_frames ?frames = Ok \<lparr>rf_head = blit ''POST https://example.com/submit'',
      rf_body = blit ''req-body-123'', rf_trailers = None\<rparr>"
    unfolding parse_accepts_iff using concat_nonempty [of "body_batches ps"] ps(2)
    by (intro exI [of _ "blit ''POST https://example.com/submit''"]
        exI [of _ "filter (\<lambda>b. b \<noteq> []) (body_batches ps)"] exI [of _ None]) simp
  show ?thesis
    by (rule guest_exchange [OF assms session_host_facts(1-5) guest_heads(2) session_host_facts(8) bs tv reads_status(1)])
      (use that parse start in simp)
qed

text \<open>The trailers guest has one more field list: the trailers its task wrote.\<close>

definition trace_fields :: FieldsData where
  "trace_fields = \<lparr>entries = [(lit ''x-trace'', blit ''req-trailer-1'')], immutable = False\<rparr>"

lemma req_trailers_guest_starts:
  assumes "mint_transmit (env_minter (host_env g)) (Ok ()) = Ok x"
  shows "req_trailers_guest_run g (http_host_with_transport [] ins) =
    finish_with status_only g (handle (host_env g) 1
      (session_host ins (guest_request OGet (lit ''/'') None (trailers_future g (Some (Ok (Some 2)))))
         (Some trace_fields)))"
  using assms
  by (simp add: req_trailers_guest_run_def guest_request_def session_host_def guest_steps
      fields_default_def fd_set_def trace_fields_def)

lemma trace_value: "format_request_trailers_value (entries trace_fields) =
    Some (lit ''x-trace=7265712d747261696c65722d31'')"
  by (simp add: format_request_trailers_value_def trace_fields_def is_http_token_def as_bytes_def
      utf8_char_def utf8_code_def lit_def blit_def is_tchar_def hex_encode_def hex_digit_def Let_def)

lemma req_trailers_guest_exchange:
  fixes g :: "('s, 't, 'x) guest_engine"
  assumes "engine_ok g"
  obtains h' where "req_trailers_guest_run g (http_host_with_transport [] ins) =
      (Got (response_output (\<lambda>status _. u16_to_le_bytes status) (debug_fmt (host_env g)) ins), h')"
    "sent h' = [OutChunk (encode Head (blit ''GET https://example.com/'')),
       OutChunk (encode Trailers (blit ''x-trace=7265712d747261696c65722d31'')), OutEnd]"
proof -
  obtain x where "mint_transmit (env_minter (host_env g)) (Ok ()) = Ok x"
    using engine_okD [OF assms] by metis
  note start = req_trailers_guest_starts [OF this, of ins]
  let ?v = "Ok (Some 2) :: trailers_value"
  let ?req = "guest_request OGet (lit ''/'') (None :: 's option) (trailers_future g (Some ?v))"
  let ?h = "session_host ins ?req (Some trace_fields)"
  have bs: "guest_batches (host_env g) (rq_body ?req) = Ok []"
    by (simp add: guest_batches_def guest_request_def request_data_default_def)
  obtain p where p: "pipe_trailers (host_env g) (trailers_future g (Some ?v)) = Ok p"
    "await_trailers_bounded (trailers_rx p) = Some (Ok ?v)"
    using assms unfolding engine_ok_def by metis
  have tv: "guest_trailers (host_env g) ?h (rq_trailers ?req) = Ok (Some (lit ''x-trace=7265712d747261696c65722d31''))"
    using p session_host_facts(7) [of ins ?req "Some trace_fields"]
    by (simp add: guest_request_def guest_trailers_def resolved_trailers_def trace_value)
  have bytes: "as_bytes (lit ''x-trace=7265712d747261696c65722d31'') = blit ''x-trace=7265712d747261696c65722d31''"
    by (simp add: lit_def blit_def as_bytes_def utf8_char_def utf8_code_def)
  show ?thesis
    by (rule guest_exchange [OF assms session_host_facts(1-5) guest_heads(1) session_host_facts(8) bs tv
          reads_status(2)])
      (use that start in \<open>simp_all add: request_frames_def bytes\<close>)
qed

lemma plugin_http_guest_eq:
  "plugin_http_guest_run g (c, h) =
     (case http_guest_run g h of (r, h') \<Rightarrow>
        (r, log_write c Info (lit ''plugin-http-guest: fetching example.com''), h'))"
  by (simp add: plugin_http_guest_run_def http_guest_run_def Let_def split: prod.split)

text \<open>In process, with no transport, the GET guest gets the echo.\<close>

lemma http_guest_echo:
  assumes "engine_ok g"
  shows "fst (http_guest_run g http_host_new) = Got (u16_to_le_bytes 200 @ blit ''GET example.com/'')"
proof -
  obtain fut x where mint: "\<And>v. mint_trailers (env_minter (host_env g)) v = Ok (fut v)"
    "mint_transmit (env_minter (host_env g)) (Ok ()) = Ok x"
    using engine_okD [OF assms] by metis
  have summary: "as_bytes (lit ''GET'' @ lit '' '' @ lit ''example.com'' @ lit ''/'') = blit ''GET example.com/''"
    by (simp add: lit_def blit_def as_bytes_def utf8_char_def utf8_code_def)
  obtain s where "mint_stream (env_minter (host_env g)) (blit ''GET example.com/'') = Ok s"
    "collect_all g s = blit ''GET example.com/''"
    using assms unfolding engine_ok_def by metis
  with mint summary show ?thesis
    by (simp add: http_guest_run_def guest_steps handle_def handle_echo_def finish_with_def
        response_get_status_code_def response_consume_body_def consume_or_mint_def status_and_body_def
        del: as_bytes_append)
qed

section \<open>Shapes of streaming drivers\<close>

text \<open>
  Events going out, and frames read one by one until the caller closes.  A run is metered; \<open>n\<close>
  bounds the frames it can read before its fuel is gone, and \<open>fuel_trap\<close> is the engine's error then.
\<close>

fun emit_events :: "out_event list \<Rightarrow> driver \<Rightarrow> driver" where
  "emit_events [] d = d"
| "emit_events (OutChunk bs # evs) d = DChunk bs (emit_events evs d)"
| "emit_events (OutEnd # evs) d = DEnd (emit_events evs d)"

primrec collect_frames :: "wasm_error \<Rightarrow> nat \<Rightarrow> (bytes list \<Rightarrow> driver) \<Rightarrow> bytes list \<Rightarrow> driver" where
  "collect_frames fuel_trap 0 k acc = DReturn (Err (annotate fuel_trap))"
| "collect_frames fuel_trap (Suc n) k acc =
     DNext (\<lambda>f. case f of None \<Rightarrow> k acc | Some c \<Rightarrow> collect_frames fuel_trap n k (acc @ [c]))"

definition response_driver ::
  "wasm_error \<Rightarrow> nat \<Rightarrow> (rstr \<Rightarrow> rstr) \<Rightarrow> (u16 \<Rightarrow> bytes \<Rightarrow> bytes) \<Rightarrow> driver" where
  "response_driver fuel_trap n dbg out =
     DNext (\<lambda>f. case f of
       None \<Rightarrow> DReturn (Ok [])
     | Some head \<Rightarrow>
         (case parse_response_head dbg head of
            Inl _ \<Rightarrow> DReturn (Ok [])
          | Inr rh \<Rightarrow> collect_frames fuel_trap n
              (\<lambda>fs. DReturn (Ok (out (of_nat (rh_status rh)) (concat fs)))) []))"

fun out_items :: "out_event list \<Rightarrow> out_item list" where
  "out_items [] = []"
| "out_items (OutChunk bs # evs) = OChunk bs # out_items evs"
| "out_items (OutEnd # evs) = OEnd # out_items evs"

lemma deliver_emit: "deliver (emit_events evs d) ins = apfst ((@) (out_items evs)) (deliver d ins)"
  by (induction evs rule: out_items.induct) (simp_all add: prod_eq_iff split: prod.split)

lemma deliver_collect:
  "length ins < n \<Longrightarrow> deliver (collect_frames t n k acc) ins = deliver (k (acc @ ins)) []"
proof (induction n arbitrary: ins acc)
  case (Suc n)
  then show ?case by (cases ins) simp_all
qed simp

lemma deliver_response:
  "length ins \<le> n \<Longrightarrow>
     deliver (response_driver t n dbg out) ins = ([], Completed (Ok (response_output out dbg ins)))"
  by (cases ins) (auto simp: response_driver_def response_output_def deliver_collect split: sum.split)

lemma work_collect:
  "(\<And>acc. work (k acc) [] = 1) \<Longrightarrow> work (collect_frames t n k acc) ins \<le> length ins + 2"
proof (induction n arbitrary: ins acc)
  case (Suc n)
  then show ?case by (cases ins) simp_all
qed simp

lemma work_response: "work (response_driver t n dbg out) ins \<le> length ins + 2"
proof -
  have "work (collect_frames t n (\<lambda>fs. DReturn (f fs)) []) rest \<le> Suc (Suc (length rest))" for f rest
    using work_collect [of "\<lambda>fs. DReturn (f fs)" t n "[]" rest] by simp
  then show ?thesis by (cases ins) (auto simp: response_driver_def split: sum.split)
qed

section \<open>A concrete engine\<close>

text \<open>Streams are their bytes, a trailers future is what its writer wrote, and everything is ready at once.\<close>

definition demo_engine :: "(bytes, trailers_value option, unit) guest_engine" where
  "demo_engine =
     \<lparr>host_env =
        \<lparr>env_minter = \<lparr>mint_stream = Ok, mint_trailers = (\<lambda>v. Ok (Some v)), mint_transmit = (\<lambda>_. Ok ())\<rparr>,
         pipe_body = (\<lambda>s. Ok [\<lparr>poll_finish = False, poll_available = length s, poll_read = Ok s\<rparr>]),
         pipe_trailers = (\<lambda>t. Ok (map_option
            (\<lambda>v. (0, \<lparr>poll_finish = False, poll_available = 1, poll_read = Ok [v]\<rparr>)) t)),
         mint_producer = (\<lambda>fs. Ok (concat fs)), debug_fmt = id\<rparr>,
      written_stream = (\<lambda>bs. bs), trailers_future = (\<lambda>t. t), collect_all = (\<lambda>s. s)\<rparr>"

lemma demo_engine_ok: "engine_ok demo_engine"
proof -
  have now: "await_trailers_bounded (trailers_rx (Some (0, \<lparr>poll_finish = False, poll_available = 1,
      poll_read = Ok [v]\<rparr>))) = Some (Ok v)" for v
    by (simp add: await_trailers_bounded_def select_rounds.simps trailers_rx_def trailers_poll_consume_def)
  have never: "await_trailers_bounded (trailers_rx None) = None"
    by (simp add: await_trailers_bounded_def select_rounds_None trailers_rx_def)
  have body: "concat (body_batches [\<lparr>poll_finish = False, poll_available = length bs, poll_read = Ok bs\<rparr>]) = bs"
    for bs by (cases bs) (simp_all add: body_poll_consume_def)
  show ?thesis by (simp add: engine_ok_def demo_engine_def now [simplified] never body del: body_batches.simps)
qed

lemma demo_answer: "response_output echo_status_body dbg (blit ''201'' # rest) = 201 # 0 # concat rest"
proof -
  have "blit ''201'' = as_bytes (response_head_text 201 [] None)"
    by (simp add: response_head_text_def dec_digits.simps lit_def blit_def as_bytes_def utf8_char_def
        utf8_code_def)
  then have "parse_response_head dbg (blit ''201'') = Ok \<lparr>rh_status = 201, rh_headers = [], rh_trailers = None\<rparr>"
    using response_text_split [of "[]" 201 None] parse_unsigned_dec [of 201 65535]
    by (simp add: parse_response_head_def dec_digits_line)
  then show ?thesis by (simp add: response_output_def u16_to_le_bytes_def)
qed

section \<open>Properties\<close>

text \<open>
  C14. The three transport guests: on a fresh session, whatever frames the caller answers with, each
  sends exactly its request (the GET head; the POST head with the body in BODY frames; the GET head
  and the trailers in hexadecimal) and the end mark.  When the first frame is a well-formed response
  head, the GET and POST guests return its status followed by the concatenation of the other frames,
  and the trailers guest, which drains the body unread, its status alone; with no frame, or a first
  frame that is no head, each returns no bytes.
\<close>

theorem http_guests_exchange:
  assumes "engine_ok g"
  shows "(\<exists>h. http_guest_run g (http_host_with_transport [] ins) =
        (Got (response_output echo_status_body (debug_fmt (host_env g)) ins), h) \<and>
      sent h = [OutChunk (encode Head (blit ''GET https://example.com/'')), OutEnd]) \<and>
    (\<exists>h frames. post_guest_run g (http_host_with_transport [] ins) =
        (Got (response_output echo_status_body (debug_fmt (host_env g)) ins), h) \<and>
      sent h = map OutChunk frames @ [OutEnd] \<and>
      parse_request_frames frames = Ok \<lparr>rf_head = blit ''POST https://example.com/submit'',
        rf_body = blit ''req-body-123'', rf_trailers = None\<rparr>) \<and>
    (\<exists>h. req_trailers_guest_run g (http_host_with_transport [] ins) =
        (Got (response_output (\<lambda>status _. u16_to_le_bytes status) (debug_fmt (host_env g)) ins), h) \<and>
      sent h = [OutChunk (encode Head (blit ''GET https://example.com/'')),
        OutChunk (encode Trailers (blit ''x-trace=7265712d747261696c65722d31'')), OutEnd])"
  by (intro conjI; rule http_guest_exchange [OF assms, of ins] post_guest_exchange [OF assms, of ins]
      req_trailers_guest_exchange [OF assms, of ins]) blast+

theorem http_guests_exchange_witness:
  "fst (http_guest_run demo_engine (http_host_with_transport [] [blit ''201'', [7], [8]])) =
     Got [201, 0, 7, 8]"
  using http_guests_exchange [OF demo_engine_ok, of "[blit ''201'', [7], [8]]"] demo_answer by auto

end
