(* ===== verification/Http_Live.thy ===== *)
theory Http_Live
  imports Http_Guests
begin

text \<open>
  Guests of \<open>wasi:http@0.3\<close> as they run in a streaming session: a guest is the tree of its host calls,
  and \<open>live_run\<close> runs it on the host of \<open>Wasi_Http_Types\<close> and \<open>Wasi_Http_Handle\<close> as a driver of the
  bridge.  \<open>handle\<close> sends its frames as events and awaits the response head from the inbound
  receiver; the response body is that receiver, read when the guest drains it.
\<close>

section \<open>Guests as trees of host calls\<close>

text \<open>The getters of the four resources, beside the calls of \<open>http_call\<close>.\<close>

datatype http_query =
    FieldsGet u32 rstr
  | FieldsHas u32 rstr
  | FieldsCopyAll u32
  | RequestGetMethod u32
  | RequestGetPath u32
  | RequestGetScheme u32
  | RequestGetAuthority u32
  | ResponseGetStatus u32
  | OptionsGetConnect u32
  | OptionsGetFirstByte u32
  | OptionsGetBetweenBytes u32

datatype ('s, 't) http_op = Do "('s, 't) http_call" | Ask http_query

datatype ('s, 't, 'x) http_reply =
    RUnit
  | RHandle u32
  | RMade u32 'x
  | RFields "(u32, HeaderError) result"
  | RSet "(unit, unit) result"
  | RHeader "(unit, HeaderError) result"
  | RTaken "(bytes list, HeaderError) result"
  | ROption "(unit, RequestOptionsError) result"
  | ROptions "u32 option"
  | RBody 's 't
  | RValues "bytes list"
  | RBool bool
  | REntries field_list
  | RMethod Method
  | RText "rstr option"
  | RScheme "Scheme option"
  | RStatus u16
  | RDuration "u64 option"

fun http_ask :: "http_query \<Rightarrow> ('s, 't) WasiHttpHost \<Rightarrow> ('s, 't, 'x) http_reply" where
  "http_ask (FieldsGet r n) h = RValues (fields_get h r n)"
| "http_ask (FieldsHas r n) h = RBool (fields_has h r n)"
| "http_ask (FieldsCopyAll r) h = REntries (fields_copy_all h r)"
| "http_ask (RequestGetMethod r) h = RMethod (request_get_method h r)"
| "http_ask (RequestGetPath r) h = RText (request_get_path_with_query h r)"
| "http_ask (RequestGetScheme r) h = RScheme (request_get_scheme h r)"
| "http_ask (RequestGetAuthority r) h = RText (request_get_authority h r)"
| "http_ask (ResponseGetStatus r) h = RStatus (response_get_status_code h r)"
| "http_ask (OptionsGetConnect r) h = RDuration (options_get_connect_timeout h r)"
| "http_ask (OptionsGetFirstByte r) h = RDuration (options_get_first_byte_timeout h r)"
| "http_ask (OptionsGetBetweenBytes r) h = RDuration (options_get_between_bytes_timeout h r)"

fun http_do ::
  "('s, 't, 'x) minter \<Rightarrow> ('s, 't) http_call \<Rightarrow> ('s, 't) WasiHttpHost \<Rightarrow>
    ('s, 't, 'x) http_reply outcome \<times> ('s, 't) WasiHttpHost" where
  "http_do m FieldsNew h = apfst (\<lambda>r. Returned (RHandle r)) (fields_new h)"
| "http_do m (FieldsFromList es) h = apfst (\<lambda>r. Returned (RFields r)) (fields_from_list es h)"
| "http_do m (FieldsSet r n vs) h = apfst (\<lambda>r. Returned (RHeader r)) (fields_set r n vs h)"
| "http_do m (FieldsDelete r n) h = apfst (\<lambda>r. Returned (RHeader r)) (fields_delete r n h)"
| "http_do m (FieldsGetAndDelete r n) h = apfst (\<lambda>r. Returned (RTaken r)) (fields_get_and_delete r n h)"
| "http_do m (FieldsAppend r n v) h = apfst (\<lambda>r. Returned (RHeader r)) (fields_append r n v h)"
| "http_do m (FieldsClone r) h = apfst (\<lambda>r. Returned (RHandle r)) (fields_clone r h)"
| "http_do m (FieldsDrop r) h = (Returned RUnit, fields_drop r h)"
| "http_do m (RequestSetMethod r x) h = apfst (\<lambda>r. Returned (RSet r)) (request_set_method r x h)"
| "http_do m (RequestSetPath r p) h = apfst (\<lambda>r. Returned (RSet r)) (request_set_path_with_query r p h)"
| "http_do m (RequestSetScheme r s) h = apfst (\<lambda>r. Returned (RSet r)) (request_set_scheme r s h)"
| "http_do m (RequestSetAuthority r a) h = apfst (\<lambda>r. Returned (RSet r)) (request_set_authority r a h)"
| "http_do m (RequestGetOptions r) h = apfst (\<lambda>r. Returned (ROptions r)) (request_get_options r h)"
| "http_do m (RequestGetHeaders r) h = apfst (\<lambda>r. Returned (RHandle r)) (request_get_headers r h)"
| "http_do m (RequestDrop r) h = (Returned RUnit, request_drop r h)"
| "http_do m (RequestNew fs b t o') h =
     apfst (map_outcome (\<lambda>(r, x). RMade r x)) (request_new m fs b t o' h)"
| "http_do m (RequestConsumeBody r) h =
     apfst (map_outcome (\<lambda>(s, t). RBody s t)) (request_consume_body m r h)"
| "http_do m (ResponseSetStatus r c) h = apfst (\<lambda>r. Returned (RSet r)) (response_set_status_code r c h)"
| "http_do m (ResponseGetHeaders r) h = apfst (\<lambda>r. Returned (RHandle r)) (response_get_headers r h)"
| "http_do m (ResponseDrop r) h = (Returned RUnit, response_drop r h)"
| "http_do m (ResponseNew fs b t) h =
     apfst (map_outcome (\<lambda>(r, x). RMade r x)) (response_new m fs b t h)"
| "http_do m (ResponseConsumeBody r) h =
     apfst (map_outcome (\<lambda>(s, t). RBody s t)) (response_consume_body m r h)"
| "http_do m OptionsNew h = apfst (\<lambda>r. Returned (RHandle r)) (options_new h)"
| "http_do m (OptionsSetConnect r d) h = apfst (\<lambda>r. Returned (ROption r)) (options_set_connect_timeout r d h)"
| "http_do m (OptionsSetFirstByte r d) h = apfst (\<lambda>r. Returned (ROption r)) (options_set_first_byte_timeout r d h)"
| "http_do m (OptionsSetBetweenBytes r d) h =
     apfst (\<lambda>r. Returned (ROption r)) (options_set_between_bytes_timeout r d h)"
| "http_do m (OptionsClone r) h = apfst (\<lambda>r. Returned (RHandle r)) (options_clone r h)"
| "http_do m (OptionsDrop r) h = (Returned RUnit, options_drop r h)"

lemma http_do_step: "snd (http_do m c h) = http_step m c h"
  by (cases c) simp_all

fun http_exec ::
  "('s, 't, 'x) minter \<Rightarrow> ('s, 't) http_op \<Rightarrow> ('s, 't) WasiHttpHost \<Rightarrow>
    ('s, 't, 'x) http_reply outcome \<times> ('s, 't) WasiHttpHost" where
  "http_exec m (Do c) h = http_do m c h"
| "http_exec m (Ask q) h = (Returned (http_ask q h), h)"

text \<open>
  The body streams of a session: those the engine minted, and the inbound receiver.  A guest makes
  requests of streams it minted itself; one that passes the response body on is not modelled.
\<close>

datatype 's http_stream = Minted 's | FromCaller

text \<open>
  A guest returns, traps, calls the types interface, calls \<open>handle\<close>, or drains a stream, for which
  its fuel lasts \<open>n\<close> reads.
\<close>

datatype ('s, 't, 'x) http_prog =
    HReturn bytes
  | HTrap wasm_error
  | HCall "('s, 't) http_op" "('s http_stream, 't, 'x) http_reply \<Rightarrow> ('s, 't, 'x) http_prog"
  | HHandle u32 "(u32, ErrorCode) result \<Rightarrow> ('s, 't, 'x) http_prog"
  | HDrain "'s http_stream" nat "bytes \<Rightarrow> ('s, 't, 'x) http_prog"

section \<open>Running a guest on the bridge\<close>

definition live_env :: "('s, 't, 'x) http_env \<Rightarrow> ('s http_stream, 't, 'x) http_env" where
  "live_env env =
     \<lparr>env_minter = \<lparr>mint_stream = (\<lambda>bs. map_ok Minted (mint_stream (env_minter env) bs)),
        mint_trailers = mint_trailers (env_minter env), mint_transmit = mint_transmit (env_minter env)\<rparr>,
      pipe_body = (\<lambda>s. case s of Minted s \<Rightarrow> pipe_body env s | FromCaller \<Rightarrow> Err []),
      pipe_trailers = pipe_trailers env,
      mint_producer = (\<lambda>fs. map_ok (\<lambda>_. FromCaller) (mint_producer env fs)), debug_fmt = debug_fmt env\<rparr>"

text \<open>The events of a call go out as it makes them.\<close>

definition flush :: "('s, 't) WasiHttpHost \<Rightarrow> ('s, 't) WasiHttpHost \<Rightarrow> driver \<Rightarrow> driver" where
  "flush h h' d = emit_events (drop (length (sent h)) (sent h')) d"

text \<open>\<open>handle\<close> with \<open>in_rx.next().await\<close> for the head; the rest of the receiver becomes the body.\<close>

definition live_handle ::
  "('s http_stream, 't, 'x) http_env \<Rightarrow> u32 \<Rightarrow> ('s http_stream, 't) WasiHttpHost \<Rightarrow>
    ((u32, ErrorCode) result \<Rightarrow> ('s http_stream, 't) WasiHttpHost \<Rightarrow> driver) \<Rightarrow> driver" where
  "live_handle env request h k =
     (if transport h = None then (case handle_echo env request h of (r, h') \<Rightarrow> k r h')
      else case transport_request env request h of
        (Inl e, h') \<Rightarrow> flush h h' (k (Err e) h')
      | (Inr inbound, h') \<Rightarrow>
          flush h h'
            (case inbound of
               None \<Rightarrow> (case read_response env None h' of (r, h'') \<Rightarrow> k r h'')
             | Some _ \<Rightarrow> DNext (\<lambda>frame.
                 case read_response env (Some (case frame of None \<Rightarrow> [] | Some f \<Rightarrow> [f])) h' of
                   (r, h'') \<Rightarrow> k r h'')))"

record ('s, 't, 'x) live_engine =
  guest_side :: "('s, 't, 'x) guest_engine"
  out_of_fuel :: wasm_error

primrec live_run ::
  "('s, 't, 'x) live_engine \<Rightarrow> ('s, 't, 'x) http_prog \<Rightarrow> ('s http_stream, 't) WasiHttpHost \<Rightarrow> driver" where
  "live_run L (HReturn out) = (\<lambda>h. DReturn (Ok out))"
| "live_run L (HTrap e) = (\<lambda>h. DReturn (Err (annotate e)))"
| "live_run L (HCall c k) = (\<lambda>h.
     case http_exec (env_minter (live_env (host_env (guest_side L)))) (map_http_op Minted id c) h of
       (Panicked, h') \<Rightarrow> DPanic
     | (Returned reply, h') \<Rightarrow> live_run L (k reply) h')"
| "live_run L (HHandle request k) = (\<lambda>h.
     live_handle (live_env (host_env (guest_side L))) request h (\<lambda>r h'. live_run L (k r) h'))"
| "live_run L (HDrain s n k) = (\<lambda>h.
     case s of
       Minted s \<Rightarrow> live_run L (k (collect_all (guest_side L) s)) h
     | FromCaller \<Rightarrow> collect_frames (out_of_fuel L) n (\<lambda>fs. live_run L (k (concat fs)) h) [])"

section \<open>The shipped guests as trees\<close>

text \<open>\<open>.unwrap()\<close> traps; a reply of another kind than the call's does not occur.\<close>

definition unwrap_call ::
  "wasm_error \<Rightarrow> ('s, 't) http_call \<Rightarrow> ('s, 't, 'x) http_prog \<Rightarrow> ('s, 't, 'x) http_prog" where
  "unwrap_call trap c p =
     HCall (Do c) (\<lambda>reply. case reply of RSet (Inr _) \<Rightarrow> p | RHeader (Inr _) \<Rightarrow> p | _ \<Rightarrow> HTrap trap)"

definition new_fields :: "wasm_error \<Rightarrow> (u32 \<Rightarrow> ('s, 't, 'x) http_prog) \<Rightarrow> ('s, 't, 'x) http_prog" where
  "new_fields trap k = HCall (Do FieldsNew) (\<lambda>reply. case reply of RHandle r \<Rightarrow> k r | _ \<Rightarrow> HTrap trap)"

definition new_request ::
  "wasm_error \<Rightarrow> u32 \<Rightarrow> 's option \<Rightarrow> 't \<Rightarrow> (u32 \<Rightarrow> ('s, 't, 'x) http_prog) \<Rightarrow> ('s, 't, 'x) http_prog" where
  "new_request trap headers body trailers k =
     HCall (Do (RequestNew headers body trailers None))
       (\<lambda>reply. case reply of RMade r _ \<Rightarrow> k r | _ \<Rightarrow> HTrap trap)"

definition finish_prog ::
  "wasm_error \<Rightarrow> nat \<Rightarrow> (u16 \<Rightarrow> bytes \<Rightarrow> bytes) \<Rightarrow> (u32, ErrorCode) result \<Rightarrow> ('s, 't, 'x) http_prog" where
  "finish_prog trap n out result =
     (case result of
        Inl _ \<Rightarrow> HReturn []
      | Inr response \<Rightarrow>
          HCall (Ask (ResponseGetStatus response)) (\<lambda>reply. case reply of
            RStatus status \<Rightarrow>
              HCall (Do (ResponseConsumeBody response)) (\<lambda>reply. case reply of
                RBody body_stream _ \<Rightarrow> HDrain body_stream n (\<lambda>body. HReturn (out status body))
              | _ \<Rightarrow> HTrap trap)
          | _ \<Rightarrow> HTrap trap))"

datatype shipped_guest = GetGuest | PostGuest | TrailersGuest

fun shipped_output :: "shipped_guest \<Rightarrow> u16 \<Rightarrow> bytes \<Rightarrow> bytes" where
  "shipped_output TrailersGuest status body = u16_to_le_bytes status"
| "shipped_output _ status body = u16_to_le_bytes status @ body"

text \<open>
  The three guests of \<open>Http_Guests\<close>.  The task the trailers guest spawns may run at any time before
  the host reads the trailers; here it runs before the request is made.
\<close>

fun shipped_prog ::
  "('s, 't, 'x) guest_engine \<Rightarrow> wasm_error \<Rightarrow> nat \<Rightarrow> shipped_guest \<Rightarrow> ('s, 't, 'x) http_prog" where
  "shipped_prog g trap n GetGuest =
     new_fields trap (\<lambda>headers.
     new_request trap headers None (trailers_future g None) (\<lambda>request.
     unwrap_call trap (RequestSetAuthority request (Some (lit ''example.com'')))
     (unwrap_call trap (RequestSetPath request (Some (lit ''/'')))
     (HHandle request (finish_prog trap n (shipped_output GetGuest))))))"
| "shipped_prog g trap n PostGuest =
     new_fields trap (\<lambda>headers.
     new_request trap headers (Some (written_stream g (blit ''req-body-123''))) (trailers_future g None) (\<lambda>request.
     unwrap_call trap (RequestSetMethod request MPost)
     (unwrap_call trap (RequestSetAuthority request (Some (lit ''example.com'')))
     (unwrap_call trap (RequestSetPath request (Some (lit ''/submit'')))
     (HHandle request (finish_prog trap n (shipped_output PostGuest)))))))"
| "shipped_prog g trap n TrailersGuest =
     new_fields trap (\<lambda>headers.
     new_fields trap (\<lambda>t.
     unwrap_call trap (FieldsSet t (lit ''x-trace'') [blit ''req-trailer-1''])
     (new_request trap headers None (trailers_future g (Some (Ok (Some t)))) (\<lambda>request.
     unwrap_call trap (RequestSetAuthority request (Some (lit ''example.com'')))
     (unwrap_call trap (RequestSetPath request (Some (lit ''/'')))
     (HHandle request (finish_prog trap n (shipped_output TrailersGuest))))))))"

fun shipped_run ::
  "('s, 't, 'x) guest_engine \<Rightarrow> shipped_guest \<Rightarrow> ('s, 't) WasiHttpHost \<Rightarrow>
    bytes guest_outcome \<times> ('s, 't) WasiHttpHost" where
  "shipped_run g GetGuest = http_guest_run g"
| "shipped_run g PostGuest = post_guest_run g"
| "shipped_run g TrailersGuest = req_trailers_guest_run g"

section \<open>What the driver of a guest is\<close>

lemma live_env_simps [simp]:
  "mint_transmit (env_minter (live_env env)) = mint_transmit (env_minter env)"
  "mint_trailers (env_minter (live_env env)) = mint_trailers (env_minter env)"
  "debug_fmt (live_env env) = debug_fmt env" "pipe_trailers (live_env env) = pipe_trailers env"
  "pipe_body (live_env env) (Minted s) = pipe_body env s"
  "mint_producer (live_env env) fs = map_ok (\<lambda>_. FromCaller) (mint_producer env fs)"
  by (simp_all add: live_env_def)

lemma live_batches: "guest_batches (live_env env) (map_option Minted b) = guest_batches env b"
  by (cases b) (simp_all add: guest_batches_def)

lemma live_trailers:
  "fields_tab h = fields_tab h' \<Longrightarrow> guest_trailers (live_env env) h t = guest_trailers env h' t"
proof -
  assume tabs: "fields_tab h = fields_tab h'"
  have "resolved_trailers h = resolved_trailers h'"
    by (intro ext) (simp only: resolved_trailers_def tabs)
  then show ?thesis by (cases t) (simp_all add: guest_trailers_def)
qed

text \<open>From a stored request on, every guest is its events followed by the reading of the response.\<close>

lemma live_exchange:
  assumes "engine_ok g" and g: "guest_side L = g"
    and "table_inv (fields_tab h)" "table_inv (responses h)"
    and "1 < table_room (fields_tab h)" "0 < table_room (responses h)"
    and "table_get (requests h) r = Some req" "request_head h req = Ok head"
    and "transport h = Some \<lparr>tr_out = [], tr_inbound = Some ins\<rparr>"
    and "guest_batches (live_env (host_env g)) (rq_body req) = Ok bs"
    and "guest_trailers (live_env (host_env g)) h (rq_trailers req) = Ok tv"
  shows "live_run L (HHandle r (finish_prog trap n out)) h =
    emit_events (map OutChunk (request_frames head (filter (\<lambda>b. b \<noteq> []) bs) (map_option as_bytes tv)) @ [OutEnd])
      (response_driver (out_of_fuel L) n (debug_fmt (host_env g)) out)"
proof -
  let ?env = "live_env (host_env g)"
  obtain h1 where req: "transport_request ?env r h = (Ok (Some ins), h1)"
    and out: "sent h1 = sent h @
       map OutChunk (request_frames head (filter (\<lambda>b. b \<noteq> []) bs) (map_option as_bytes tv)) @ [OutEnd]"
    and tabs: "fields_tab h1 = fields_tab h" "responses h1 = responses h"
    using handle_reads [OF assms(7-11)] by (metis HttpTransport.select_convs(2))
  have "sent h = []" using assms(9) by (simp add: sent_def)
  have answer: "(case read_response ?env (Some (case frame of None \<Rightarrow> [] | Some f \<Rightarrow> [f])) h1 of
      (r, h2) \<Rightarrow> live_run L (finish_prog trap n out r) h2) =
    (case frame of
       None \<Rightarrow> DReturn (Ok [])
     | Some head \<Rightarrow>
         (case parse_response_head (debug_fmt (host_env g)) head of
            Inl _ \<Rightarrow> DReturn (Ok [])
          | Inr rh \<Rightarrow> collect_frames (out_of_fuel L) n
              (\<lambda>fs. DReturn (Ok (out (of_nat (rh_status rh)) (concat fs)))) []))" for frame
  proof (cases frame)
    case None
    then show ?thesis by (simp add: read_response_def finish_prog_def)
  next
    case (Some f)
    show ?thesis
    proof (cases "parse_response_head (debug_fmt (host_env g)) f")
      case (Inl e)
      with Some show ?thesis by (simp add: read_response_def finish_prog_def)
    next
      case (Inr rh)
      obtain fut x where fut: "\<And>v. mint_trailers (env_minter (host_env g)) v = Ok (fut v)"
        using engine_okD [OF assms(1)] by metis
      obtain s where "mint_producer (host_env g) [] = Ok s"
        using assms(1) unfolding engine_ok_def by metis
      then have "mint_producer ?env [] = Ok FromCaller" by simp
      from build_response_Ok [OF _ _ _ _ this, of h1 "\<lambda>v. fut (Ok v)" rh] fut assms(3-6) tabs
      obtain rep hdr trep h2 where
        ok: "build_response ?env rh [] h1 = (Ok rep, h2)"
        and get: "table_get (responses h2) rep = Some \<lparr>rs_status_code = of_nat (rh_status rh),
          rs_headers = hdr, rs_body = Some FromCaller, rs_trailers = Some (fut (Ok trep))\<rparr>"
        by auto
      with Some Inr g show ?thesis
        by (simp add: read_response_def finish_prog_def response_get_status_code_def
            response_consume_body_def consume_or_mint_def)
    qed
  qed
  show ?thesis
    using assms(9) req out \<open>sent h = []\<close> g
    by (simp add: live_handle_def flush_def response_driver_def answer)
qed

text \<open>
  A guest that comes to \<open>handle\<close> with the same request on the live host and on the host of
  \<open>Http_Guests\<close> sends the same and returns the same.
\<close>

lemma live_agrees:
  fixes g :: "('s, 't, 'x) guest_engine" and b :: "'s option"
  assumes ok: "engine_ok g" and L: "guest_side L = g"
    and run: "shipped_run g which (http_host_with_transport [] ins) =
      finish_with f g (handle (host_env g) 1 (session_host ins (guest_request m path b t) extra))"
    and live: "live_run L (shipped_prog g trap n which) (http_host_with_transport [] ins') =
      live_run L (HHandle 1 (finish_prog trap n (shipped_output which)))
        (session_host ins' (guest_request m path (map_option Minted b) t) extra)"
    and head: "request_head (session_host ins (guest_request m path b t) extra) (guest_request m path b t) = Ok head"
      "request_head (session_host ins' (guest_request m path (map_option Minted b) t) extra)
        (guest_request m path (map_option Minted b) t) = Ok head"
    and bs: "guest_batches (host_env g) b = Ok bs"
    and tv: "guest_trailers (host_env g) (session_host ins (guest_request m path b t) extra) (Some t) = Ok tv"
    and reads: "reads_as g f (shipped_output which)"
    and frames: "frames = request_frames head (filter (\<lambda>b. b \<noteq> []) bs) (map_option as_bytes tv)"
  shows "live_run L (shipped_prog g trap n which) (http_host_with_transport [] ins') =
      emit_events (map OutChunk frames @ [OutEnd])
        (response_driver (out_of_fuel L) n (debug_fmt (host_env g)) (shipped_output which)) \<and>
    (\<exists>h. shipped_run g which (http_host_with_transport [] ins) =
        (Got (response_output (shipped_output which) (debug_fmt (host_env g)) ins), h) \<and>
      sent h = map OutChunk frames @ [OutEnd])"
proof
  let ?req = "guest_request m path b t"
  let ?live = "guest_request m path (map_option Minted b) t"
  have parts: "rq_body ?req = b" "rq_trailers ?req = Some t" "rq_body ?live = map_option Minted b"
    "rq_trailers ?live = Some t" by (simp_all add: guest_request_def)
  have tabs: "fields_tab (session_host ins' ?live extra) = fields_tab (session_host ins ?req extra)"
    by (simp add: session_host_def split: option.split)
  show "live_run L (shipped_prog g trap n which) (http_host_with_transport [] ins') =
      emit_events (map OutChunk frames @ [OutEnd])
        (response_driver (out_of_fuel L) n (debug_fmt (host_env g)) (shipped_output which))"
    unfolding live frames
    by (rule live_exchange [OF ok L session_host_facts(1-5) head(2) session_host_facts(8)])
      (simp_all only: parts live_batches bs live_trailers [OF tabs] tv)
  obtain h where "finish_with f g (handle (host_env g) 1 (session_host ins ?req extra)) =
      (Got (response_output (shipped_output which) (debug_fmt (host_env g)) ins), h)"
    "sent h = [] @ map OutChunk (request_frames head (filter (\<lambda>b. b \<noteq> []) bs) (map_option as_bytes tv)) @ [OutEnd]"
    by (rule guest_exchange [OF ok session_host_facts(1-5) head(1) session_host_facts(8) _ _ reads])
      (blast | simp only: parts bs tv)+
  then show "\<exists>h. shipped_run g which (http_host_with_transport [] ins) =
        (Got (response_output (shipped_output which) (debug_fmt (host_env g)) ins), h) \<and>
      sent h = map OutChunk frames @ [OutEnd]"
    by (simp add: run frames)
qed

lemmas prog_steps = new_fields_def new_request_def unwrap_call_def guest_request_def session_host_def guest_steps

lemma shipped_agrees:
  fixes g :: "('s, 't, 'x) guest_engine"
  assumes ok: "engine_ok g" and L: "guest_side L = g"
  obtains frames where "\<And>ins ins'. live_run L (shipped_prog g trap n which) (http_host_with_transport [] ins') =
      emit_events (map OutChunk frames @ [OutEnd])
        (response_driver (out_of_fuel L) n (debug_fmt (host_env g)) (shipped_output which)) \<and>
    (\<exists>h. shipped_run g which (http_host_with_transport [] ins) =
        (Got (response_output (shipped_output which) (debug_fmt (host_env g)) ins), h) \<and>
      sent h = map OutChunk frames @ [OutEnd])"
proof -
  obtain x where x: "mint_transmit (env_minter (host_env g)) (Ok ()) = Ok x"
    using engine_okD [OF ok] by metis
  show ?thesis
  proof (cases which)
    case GetGuest
    show ?thesis
      by (rule that, unfold GetGuest, rule live_agrees [OF ok L _ _ _ _ _ _ _ refl, where f = "status_and_body g"
          and m = OGet and path = "lit ''/''" and b = None and t = "trailers_future g None" and extra = None
          and head = "blit ''GET https://example.com/''" and bs = "[]" and tv = None])
        (use x L in \<open>simp_all add: http_guest_starts guest_heads unwritten_trailers [OF ok] guest_batches_def
          reads_status\<close>, simp_all add: prog_steps reads_as_def status_and_body_def)
  next
    case PostGuest
    let ?b = "written_stream g (blit ''req-body-123'')"
    obtain ps where ps: "pipe_body (host_env g) ?b = Ok ps"
      using ok unfolding engine_ok_def by metis
    show ?thesis
      by (rule that, unfold PostGuest, rule live_agrees [OF ok L _ _ _ _ _ _ _ refl, where f = "status_and_body g"
          and m = OPost and path = "lit ''/submit''" and b = "Some ?b" and t = "trailers_future g None" and extra = None
          and head = "blit ''POST https://example.com/submit''" and bs = "body_batches ps" and tv = None])
        (use x L ps in \<open>simp_all add: post_guest_starts guest_heads unwritten_trailers [OF ok] guest_batches_def
          reads_status\<close>, simp_all add: prog_steps reads_as_def status_and_body_def)
  next
    case TrailersGuest
    let ?v = "Ok (Some 2) :: trailers_value" and ?tv = "lit ''x-trace=7265712d747261696c65722d31''"
    let ?t = "trailers_future g (Some ?v)"
    obtain p where p: "pipe_trailers (host_env g) ?t = Ok p"
      "await_trailers_bounded (trailers_rx p) = Some (Ok ?v)"
      using ok unfolding engine_ok_def by metis
    have tv: "guest_trailers (host_env g) (session_host ins req (Some trace_fields)) (Some ?t) = Ok (Some ?tv)" for ins req
      using p session_host_facts(7) [of ins req "Some trace_fields"]
      by (simp add: guest_trailers_def resolved_trailers_def trace_value)
    show ?thesis
      by (rule that, unfold TrailersGuest, rule live_agrees [OF ok L _ _ _ _ _ _ _ refl, where f = status_only
          and m = OGet and path = "lit ''/''" and b = None and t = ?t and extra = "Some trace_fields"
          and head = "blit ''GET https://example.com/''" and bs = "[]" and tv = "Some ?tv"])
        (use x L in \<open>simp_all add: req_trailers_guest_starts guest_heads guest_batches_def tv\<close>,
          simp_all add: prog_steps reads_as_def status_only_def fields_default_def fd_set_def trace_fields_def)
  qed
qed

end
