(* ===== verification/Rust_Float.thy ===== *)
theory Rust_Float
  imports Rust_Text
begin

text \<open>
  Rust's \<open>Display\<close> for \<open>f32\<close>, on the bit pattern of the float: decoding, shortest digits, and
  their rendering without an exponent.
\<close>

section \<open>Decoding and digits\<close>

text \<open>
  \<open>core::num::flt2dec\<close>: the shortest digits that read back as the same float.  A finite float is
  decoded into \<open>mant\<close>, the distances \<open>minus\<close> and \<open>plus\<close> to the ends of its rounding interval, a
  binary exponent, and whether the ends belong to the interval.
\<close>

record decoded =
  d_mant :: nat
  d_minus :: nat
  d_plus :: nat
  d_exp :: int
  d_inclusive :: bool

datatype full_decoded = FNan | FInfinite | FZero | FFinite decoded

definition f32_negative :: "u32 \<Rightarrow> bool" where
  "f32_negative b \<longleftrightarrow> 2 ^ 31 \<le> unat b"

definition f32_decode :: "u32 \<Rightarrow> full_decoded" where
  "f32_decode b =
     (let e = unat b div 2 ^ 23 mod 2 ^ 8; f = unat b mod 2 ^ 23 in
      if e = 255 then (if f = 0 then FInfinite else FNan)
      else if e = 0 then
        (if f = 0 then FZero
         else FFinite \<lparr>d_mant = 2 * f, d_minus = 1, d_plus = 1, d_exp = - 150, d_inclusive = True\<rparr>)
      else if f = 0 then
        FFinite \<lparr>d_mant = 4 * 2 ^ 23, d_minus = 1, d_plus = 2, d_exp = int e - 152, d_inclusive = True\<rparr>
      else FFinite \<lparr>d_mant = 2 * (2 ^ 23 + f), d_minus = 1, d_plus = 1, d_exp = int e - 151,
        d_inclusive = even f\<rparr>)"

text \<open>\<open>a.cmp(b) < rounding\<close>.\<close>

definition rounds :: "bool \<Rightarrow> nat \<Rightarrow> nat \<Rightarrow> bool" where
  "rounds inclusive a b = (if inclusive then a \<le> b else a < b)"

text \<open>
  The decimal exponent: the least \<open>k\<close> for which \<open>num / scale\<close> stays below \<open>10 ^ k\<close>.  A zero
  operand, which decoding never gives, ends the search at once.
\<close>

function scale_up :: "bool \<Rightarrow> nat \<Rightarrow> nat \<Rightarrow> nat" where
  "scale_up incl num scale =
     (if scale = 0 \<or> \<not> rounds incl scale num then 0 else Suc (scale_up incl num (scale * 10)))"
  by auto
termination
  by (relation "measure (\<lambda>(_, num, scale). Suc num - scale)") (auto simp: rounds_def split: if_splits)

function scale_down :: "bool \<Rightarrow> nat \<Rightarrow> nat \<Rightarrow> nat" where
  "scale_down incl num scale =
     (if num = 0 \<or> rounds incl scale (num * 10) then 0 else Suc (scale_down incl (num * 10) scale))"
  by auto
termination
  by (relation "measure (\<lambda>(_, num, scale). Suc scale - num)") (auto simp: rounds_def split: if_splits)

declare scale_up.simps [simp del] scale_down.simps [simp del]

definition decimal_exponent :: "bool \<Rightarrow> nat \<Rightarrow> nat \<Rightarrow> int" where
  "decimal_exponent incl num scale =
     (if rounds incl scale num then int (scale_up incl num scale)
      else - int (scale_down incl num scale))"

text \<open>The digit loop: the digits, and whether the last is to be rounded up.\<close>

function dragon_digits :: "bool \<Rightarrow> nat \<Rightarrow> nat \<Rightarrow> nat \<Rightarrow> nat \<Rightarrow> nat list \<times> bool" where
  "dragon_digits incl mant mm mp scale =
     (let d = mant div scale; r = mant mod scale;
          down = rounds incl r mm; up = rounds incl scale (r + mp)
      in if scale = 0 \<or> mm = 0 \<or> down \<or> up then ([d], up \<and> (\<not> down \<or> scale \<le> 2 * r))
         else case dragon_digits incl (r * 10) (mm * 10) (mp * 10) scale of
           (ds, b) \<Rightarrow> (d # ds, b))"
  by auto
termination
proof (relation "measure (\<lambda>(_, _, mm, _, scale). scale - mm)", goal_cases)
  case 1
  then show ?case by simp
next
  case (2 incl mant mm mp scale d r down up)
  then have "mm \<le> mant mod scale" and "0 < scale" "0 < mm"
    by (auto simp: rounds_def split: if_splits)
  then have "mm < scale" using mod_less_divisor [of scale mant] by linarith
  then show ?case using \<open>0 < mm\<close> by simp
qed

declare dragon_digits.simps [simp del]

text \<open>\<open>round_up\<close>: the incremented digits, and whether the carry left the buffer.\<close>

fun round_up_rev :: "nat list \<Rightarrow> nat list \<times> bool" where
  "round_up_rev [] = ([], True)"
| "round_up_rev (d # ds) =
     (if d = 9 then (case round_up_rev ds of (ds', c) \<Rightarrow> (0 # ds', c)) else (Suc d # ds, False))"

definition format_shortest :: "decoded \<Rightarrow> nat list \<times> int" where
  "format_shortest d =
     (let p = (\<lambda>x. if d_exp d < 0 then x else x * 2 ^ nat (d_exp d));
          scale = (if d_exp d < 0 then 2 ^ nat (- d_exp d) else 1);
          mant = p (d_mant d); mm = p (d_minus d); mp = p (d_plus d);
          k = decimal_exponent (d_inclusive d) (mant + mp) scale;
          q = (\<lambda>x. 10 * (if k < 0 then x * 10 ^ nat (- k) else x));
          (ds, up) = dragon_digits (d_inclusive d) (q mant) (q mm) (q mp)
            (if k < 0 then scale else scale * 10 ^ nat k)
      in if up
         then (case round_up_rev (rev ds) of
             (rs, c) \<Rightarrow> if c then (1 # rev rs, k + 1) else (rev rs, k))
         else (ds, k))"

definition digits_to_dec_str :: "nat list \<Rightarrow> int \<Rightarrow> rstr" where
  "digits_to_dec_str ds k =
     (let s = map (\<lambda>d. 48 + d) ds in
      if k \<le> 0 then lit ''0.'' @ replicate (nat (- k)) 48 @ s
      else if nat k < length s then take (nat k) s @ lit ''.'' @ drop (nat k) s
      else s @ replicate (nat k - length s) 48)"

definition f32_to_string :: "u32 \<Rightarrow> rstr" where
  "f32_to_string b =
     (let sign = (if f32_negative b then lit ''-'' else []) in
      case f32_decode b of
        FNan \<Rightarrow> lit ''NaN''
      | FInfinite \<Rightarrow> sign @ lit ''inf''
      | FZero \<Rightarrow> sign @ lit ''0''
      | FFinite d \<Rightarrow> (case format_shortest d of (ds, k) \<Rightarrow> sign @ digits_to_dec_str ds k))"

text \<open>\<open>0.7\<close>, through every stage.\<close>

lemma f32_to_string_sample: "f32_to_string 0x3F333333 = lit ''0.7''"
proof -
  let ?d = "\<lparr>d_mant = 23488102, d_minus = 1, d_plus = 1, d_exp = - 25, d_inclusive = False\<rparr>"
  have decode: "f32_decode 0x3F333333 = FFinite ?d" by (simp add: f32_decode_def)
  have "decimal_exponent False 23488103 33554432 = 0"
    by (simp add: decimal_exponent_def rounds_def scale_down.simps)
  moreover have "dragon_digits False 234881020 10 10 33554432 = ([6], True)"
    by (simp add: dragon_digits.simps rounds_def)
  ultimately have "format_shortest ?d = ([7], 0)" by (simp add: format_shortest_def)
  with decode show ?thesis
    by (simp add: f32_to_string_def f32_negative_def digits_to_dec_str_def lit_def)
qed

section \<open>Its characters\<close>

lemma dec_str_no_newline: "10 \<notin> set (digits_to_dec_str ds k)"
  by (auto simp: digits_to_dec_str_def lit_def Let_def take_map drop_map)

lemma f32_no_newline: "10 \<notin> set (f32_to_string b)"
  using dec_str_no_newline
  by (auto simp: f32_to_string_def lit_def Let_def split: full_decoded.splits prod.splits)

end
