(* ===== verification/Inference.thy ===== *)
theory Inference
  imports P3_Stream Rust_Float Limits Storage_Events
begin

text \<open>
  \<open>src/inference.rs\<close>: the host side of \<open>hellohq:plugin/inference\<close>.  \<open>complete\<close> writes one
  request head to the outbound stream, ends it, and turns the inbound frames into the guest's token
  stream.  Minting that stream is the engine's work and a parameter.
\<close>

section \<open>The host\<close>

record ChatMessage =
  role :: rstr
  content :: rstr

record InferenceOpts =
  max_tokens :: u32
  temperature :: "u32 option"

text \<open>\<open>out\<close> is what has been sent; \<open>inbound\<close> the frames the caller's side delivers.\<close>

record InferenceTransport =
  it_out :: "P3sEvent list"
  it_inbound :: "bytes list option"

record InferenceHost =
  ih_transport :: "InferenceTransport option"
  ih_limits :: StoreLimits

definition inference_default :: InferenceHost where
  "inference_default = \<lparr>ih_transport = None, ih_limits = store_limits\<rparr>"

definition inference_with_transport :: "P3sEvent list \<Rightarrow> bytes list \<Rightarrow> InferenceHost" where
  "inference_with_transport out inbound =
     \<lparr>ih_transport = Some \<lparr>it_out = out, it_inbound = Some inbound\<rparr>, ih_limits = store_limits\<rparr>"

text \<open>The head: one line of options, then each message with its separator line.\<close>

definition message_text :: "ChatMessage \<Rightarrow> rstr" where
  "message_text m = role m @ lit [CHR 0x0A] @ content m @ lit [CHR 0x0A] @ lit ''---'' @ lit [CHR 0x0A]"

definition temperature_text :: "InferenceOpts \<Rightarrow> rstr" where
  "temperature_text opts =
     (case temperature opts of Some t \<Rightarrow> f32_to_string t | None \<Rightarrow> lit ''default'')"

definition completion_head :: "ChatMessage list \<Rightarrow> InferenceOpts \<Rightarrow> rstr" where
  "completion_head messages opts =
     foldl (\<lambda>head m. head @ message_text m)
       (lit ''opts: max-tokens='' @ dec_digits (unat (max_tokens opts)) @ lit '' temperature='' @
        temperature_text opts @ lit [CHR 0x0A])
       messages"

definition inference_error :: "rstr \<Rightarrow> ApiError" where
  "inference_error msg = \<lparr>code = lit ''not-found'', message = msg\<rparr>"

definition inference_complete ::
  "(bytes list \<Rightarrow> ('s, rstr) result) \<Rightarrow> ChatMessage list \<Rightarrow> InferenceOpts \<Rightarrow> InferenceHost \<Rightarrow>
     ('s, ApiError) result \<times> InferenceHost" where
  "inference_complete mint messages opts h =
     (case ih_transport h of
        None \<Rightarrow> (Err (inference_error (lit ''inference: transport missing'')), h)
      | Some tr \<Rightarrow>
          (let h' = h\<lparr>ih_transport := Some
                 \<lparr>it_out = it_out tr @ [POut (as_bytes (completion_head messages opts)), POutEnd],
                  it_inbound = None\<rparr>\<rparr>
           in case it_inbound tr of
                None \<Rightarrow> (Err (inference_error (lit ''inference: inbound stream already consumed'')), h')
              | Some inbound \<Rightarrow>
                  (map_err (\<lambda>e. inference_error (lit ''inference: failed to mint token stream: '' @ e))
                     (mint inbound), h')))"

text \<open>\<open>TokenProducer::poll_produce\<close> on the frames received so far and whether the caller closed.\<close>

datatype token_poll = TokenReady rstr | TokenEnd | TokenPending

fun token_poll_produce :: "bytes list \<Rightarrow> bool \<Rightarrow> token_poll \<times> bytes list" where
  "token_poll_produce (frame # rest) closed = (TokenReady (from_utf8_lossy frame), rest)"
| "token_poll_produce [] True = (TokenEnd, [])"
| "token_poll_produce [] False = (TokenPending, [])"

section \<open>Sequences\<close>

text \<open>The calls of one guest, in order.\<close>

fun complete_run ::
  "(bytes list \<Rightarrow> ('s, rstr) result) \<Rightarrow> (ChatMessage list \<times> InferenceOpts) list \<Rightarrow> InferenceHost \<Rightarrow>
     ('s, ApiError) result list \<times> InferenceHost" where
  "complete_run mint [] h = ([], h)"
| "complete_run mint ((ms, opts) # calls) h =
     (case inference_complete mint ms opts h of (r, h') \<Rightarrow>
        case complete_run mint calls h' of (rs, h'') \<Rightarrow> (r # rs, h''))"

text \<open>
  The token stream with its two ends: the caller pushes frames and closes, the guest polls.  A
  push after the close is lost, as in \<open>p3s_push\<close>.
\<close>

datatype token_op = TPush bytes | TClose | TPoll

record token_state =
  tk_frames :: "bytes list"
  tk_closed :: bool
  tk_tokens :: "rstr list"
  tk_ended :: bool

fun token_step :: "token_op \<Rightarrow> token_state \<Rightarrow> token_state" where
  "token_step (TPush f) s = (if tk_closed s then s else s\<lparr>tk_frames := tk_frames s @ [f]\<rparr>)"
| "token_step TClose s = s\<lparr>tk_closed := True\<rparr>"
| "token_step TPoll s =
     (case token_poll_produce (tk_frames s) (tk_closed s) of
        (TokenReady t, rest) \<Rightarrow> s\<lparr>tk_frames := rest, tk_tokens := tk_tokens s @ [t]\<rparr>
      | (TokenEnd, rest) \<Rightarrow> s\<lparr>tk_ended := True\<rparr>
      | (TokenPending, rest) \<Rightarrow> s)"

definition token_start :: token_state where
  "token_start = \<lparr>tk_frames = [], tk_closed = False, tk_tokens = [], tk_ended = False\<rparr>"

definition token_run :: "token_op list \<Rightarrow> token_state" where
  "token_run ops = fold token_step ops token_start"

fun pushed :: "token_op list \<Rightarrow> bytes list" where
  "pushed [] = []"
| "pushed (TPush f # ops) = f # pushed ops"
| "pushed (TClose # ops) = []"
| "pushed (TPoll # ops) = pushed ops"

section \<open>Lemmas\<close>

lemma completion_head_eq:
  "completion_head ms opts =
     (lit ''opts: max-tokens='' @ dec_digits (unat (max_tokens opts)) @ lit '' temperature='' @
      temperature_text opts) @ 10 # concat (map message_text ms)"
proof -
  have "foldl (\<lambda>head m. head @ message_text m) acc ms = acc @ concat (map message_text ms)" for acc
    by (induction ms arbitrary: acc) simp_all
  then show ?thesis by (simp add: completion_head_def lit_def)
qed

lemma complete_consumed:
  assumes "ih_transport h = Some \<lparr>it_out = out, it_inbound = None\<rparr>"
  shows "complete_run mint calls h =
    (replicate (length calls) (Err (inference_error (lit ''inference: inbound stream already consumed''))),
     h\<lparr>ih_transport := Some \<lparr>it_out = out @
         concat (map (\<lambda>(ms, opts). [POut (as_bytes (completion_head ms opts)), POutEnd]) calls),
       it_inbound = None\<rparr>\<rparr>)"
  using assms
proof (induction calls arbitrary: h out)
  case Nil
  then show ?case by simp
next
  case (Cons c calls)
  obtain ms opts where c: "c = (ms, opts)" by (cases c)
  let ?h = "h\<lparr>ih_transport := Some \<lparr>it_out = out @ [POut (as_bytes (completion_head ms opts)), POutEnd],
      it_inbound = None\<rparr>\<rparr>"
  have "inference_complete mint ms opts h =
      (Err (inference_error (lit ''inference: inbound stream already consumed'')), ?h)"
    using Cons.prems by (simp add: inference_complete_def)
  moreover note Cons.IH [of ?h "out @ [POut (as_bytes (completion_head ms opts)), POutEnd]"]
  ultimately show ?case by (simp add: c)
qed

text \<open>A separator that starts nowhere earlier is found where it was put.\<close>

lemma first_separator:
  assumes eq: "c @ sep @ r = c' @ sep @ r'" and sep: "sep \<noteq> []"
    and c: "\<not> str_contains (c @ butlast sep) sep" and c': "\<not> str_contains (c' @ butlast sep) sep"
  shows "c = c' \<and> r = r'"
proof -
  have short: "length x \<le> length y"
    if e: "x @ sep @ p = y @ sep @ q" and n: "\<not> str_contains (x @ butlast sep) sep" for x y p q
  proof (rule ccontr)
    assume "\<not> length x \<le> length y"
    then have l: "length y < length x" by simp
    have "take (length (y @ sep)) (y @ sep @ q) = y @ sep" by simp
    then have "y @ sep = take (length (y @ sep)) (x @ sep @ p)" using e by simp
    also have "\<dots> = take (length (y @ sep)) (x @ butlast sep @ last sep # p)"
      using sep by (metis append_Cons append_Nil append_assoc append_butlast_last_id)
    also have "\<dots> = take (length (y @ sep)) (x @ butlast sep)"
    proof -
      have "length (y @ sep) \<le> length (x @ butlast sep)" using l sep by (cases sep) auto
      then show ?thesis by (simp only: append_assoc [symmetric] take_append) simp
    qed
    finally obtain z where "x @ butlast sep = (y @ sep) @ z"
      by (metis append_take_drop_id)
    then have "str_contains (x @ butlast sep) sep" unfolding str_contains_iff by (metis append_assoc)
    with n show False by simp
  qed
  have "length c = length c'"
    using short [OF eq c] short [OF eq [symmetric] c'] by simp
  with eq show ?thesis by simp
qed

text \<open>A message that keeps to the framing: a one-line role, and no separator line in the content.\<close>

definition framed :: "ChatMessage \<Rightarrow> bool" where
  "framed m \<longleftrightarrow> 10 \<notin> set (role m) \<and> \<not> str_contains (content m @ [10, 45, 45, 45]) [10, 45, 45, 45, 10]"

lemma message_text_eq: "message_text m = role m @ 10 # content m @ [10, 45, 45, 45, 10]"
  by (simp add: message_text_def lit_def)

lemma first_newline: "10 \<notin> set a \<Longrightarrow> 10 \<notin> set b \<Longrightarrow> a @ (10::nat) # r = b @ 10 # r' \<Longrightarrow> a = b \<and> r = r'"
proof (induction a arbitrary: b)
  case Nil
  then show ?case by (cases b) auto
next
  case (Cons x a)
  then show ?case by (cases b) auto
qed

lemma message_text_inj:
  assumes "framed m" and "framed m'" and "message_text m @ r = message_text m' @ r'"
  shows "m = m' \<and> r = r'"
proof -
  have "role m = role m' \<and>
      content m @ [10, 45, 45, 45, 10] @ r = content m' @ [10, 45, 45, 45, 10] @ r'"
    using assms first_newline [of "role m" "role m'" "content m @ [10, 45, 45, 45, 10] @ r"
        "content m' @ [10, 45, 45, 45, 10] @ r'"]
    by (simp add: message_text_eq framed_def)
  moreover from this have "content m = content m' \<and> r = r'"
    using assms first_separator [of "content m" "[10, 45, 45, 45, 10]" r "content m'" r']
    by (simp add: framed_def)
  ultimately show ?thesis by (cases m; cases m') simp
qed

lemma messages_text_inj:
  "list_all framed ms \<Longrightarrow> list_all framed ms' \<Longrightarrow>
   concat (map message_text ms) = concat (map message_text ms') \<Longrightarrow> ms = ms'"
proof (induction ms arbitrary: ms')
  case Nil
  then show ?case by (cases ms') (simp_all add: message_text_eq)
next
  case (Cons m ms)
  then obtain m' ms'' where ms': "ms' = m' # ms''" by (cases ms') (simp_all add: message_text_eq)
  then show ?case using Cons message_text_inj [of m m'] by auto
qed

lemma dec_digits_inj: "dec_digits m = dec_digits n \<Longrightarrow> m = n"
  using parse_digits_dec by (metis option.inject)

lemma temperature_no_newline: "10 \<notin> set (temperature_text opts)"
  using f32_no_newline by (auto simp: temperature_text_def lit_def split: option.splits)

lemma dec_digits_low: "c < 48 \<Longrightarrow> c \<notin> set (dec_digits n)"
  using dec_digits_set by fastforce

lemma first_space:
  "32 \<notin> set a \<Longrightarrow> 32 \<notin> set b \<Longrightarrow> a @ lit '' temperature='' @ r = b @ lit '' temperature='' @ r' \<Longrightarrow>
   a = b \<and> r = r'"
proof (induction a arbitrary: b)
  case Nil
  then show ?case by (cases b) (auto simp: lit_def)
next
  case (Cons x a)
  then show ?case by (cases b) (auto simp: lit_def)
qed

text \<open>What the producer has handed over and still holds is what was pushed.\<close>

definition token_inv :: "bytes list \<Rightarrow> token_state \<Rightarrow> bool" where
  "token_inv fs s \<longleftrightarrow> tk_tokens s @ map from_utf8_lossy (tk_frames s) = map from_utf8_lossy fs \<and>
     (tk_ended s \<longrightarrow> tk_closed s \<and> tk_frames s = [])"

lemma token_closed_run:
  "tk_closed s \<Longrightarrow> token_inv fs s \<Longrightarrow> token_inv fs (fold token_step ops s)"
proof (induction ops arbitrary: s)
  case (Cons a ops)
  have "tk_closed (token_step a s) \<and> token_inv fs (token_step a s)"
    using Cons.prems
    by (cases a; cases "tk_frames s") (auto simp: token_inv_def)
  then show ?case using Cons.IH by simp
qed simp

lemma token_open_run:
  "\<not> tk_closed s \<Longrightarrow> token_inv fs s \<Longrightarrow> token_inv (fs @ pushed ops) (fold token_step ops s)"
proof (induction ops arbitrary: s fs)
  case (Cons a ops)
  show ?case
  proof (cases a)
    case (TPush f)
    have "token_inv (fs @ [f]) (s\<lparr>tk_frames := tk_frames s @ [f]\<rparr>)"
      using Cons.prems by (auto simp: token_inv_def)
    then show ?thesis using Cons.IH [of _ "fs @ [f]"] Cons.prems by (simp add: TPush)
  next
    case TClose
    have "token_inv fs (s\<lparr>tk_closed := True\<rparr>)" using Cons.prems by (auto simp: token_inv_def)
    then show ?thesis by (simp add: TClose token_closed_run)
  next
    case TPoll
    have "\<not> tk_closed (token_step TPoll s) \<and> token_inv fs (token_step TPoll s)"
      using Cons.prems by (cases "tk_frames s") (auto simp: token_inv_def)
    then show ?thesis using Cons.IH by (simp add: TPoll)
  qed
qed simp

lemma token_drain:
  "tk_closed s \<Longrightarrow> tk_ended (fold token_step (replicate (Suc (length (tk_frames s))) TPoll) s)"
proof (induction "tk_frames s" arbitrary: s)
  case Nil
  then show ?case by (simp flip: Nil.hyps)
next
  case (Cons f fs)
  then show ?case
    using Cons.hyps(1) [of "s\<lparr>tk_frames := fs, tk_tokens := tk_tokens s @ [from_utf8_lossy f]\<rparr>"]
    by (simp flip: Cons.hyps(2))
qed

section \<open>Properties\<close>

text \<open>
  A guest's calls of \<open>complete\<close> against one transport: the first gets the token stream over the
  caller's frames (or the mint failure), every later one fails because the inbound stream is taken,
  and each of them, the failing ones too, has sent its head followed by an end mark.
\<close>

theorem complete_single_stream:
  "complete_run mint ((ms, opts) # calls) (inference_with_transport [] frames) =
     (map_err (\<lambda>e. inference_error (lit ''inference: failed to mint token stream: '' @ e)) (mint frames) #
        replicate (length calls)
          (Err (inference_error (lit ''inference: inbound stream already consumed''))),
      \<lparr>ih_transport = Some
         \<lparr>it_out = concat (map (\<lambda>(ms, opts). [POut (as_bytes (completion_head ms opts)), POutEnd])
            ((ms, opts) # calls)),
          it_inbound = None\<rparr>,
       ih_limits = store_limits\<rparr>)"
  by (simp add: inference_with_transport_def inference_complete_def complete_consumed)

text \<open>
  C35. The request head determines the request it was made from, as far as the framing allows:
  with one-line roles and contents that hold no separator line, equal heads come from equal
  messages, the same token limit and the same temperature text.
\<close>

theorem completion_head_unambiguous:
  assumes "list_all framed ms" and "list_all framed ms'"
    and "completion_head ms opts = completion_head ms' opts'"
  shows "ms = ms' \<and> max_tokens opts = max_tokens opts' \<and> temperature_text opts = temperature_text opts'"
proof -
  let ?line = "\<lambda>o'. lit ''opts: max-tokens='' @ dec_digits (unat (max_tokens o')) @ lit '' temperature='' @
      temperature_text o'"
  have "10 \<notin> set (?line o')" for o'
    using temperature_no_newline [of o'] dec_digits_low [of 10] by (auto simp: lit_def)
  then have line: "?line opts = ?line opts'"
    and body: "concat (map message_text ms) = concat (map message_text ms')"
    using first_newline assms(3) unfolding completion_head_eq by blast+
  from line have "dec_digits (unat (max_tokens opts)) @ lit '' temperature='' @ temperature_text opts =
      dec_digits (unat (max_tokens opts')) @ lit '' temperature='' @ temperature_text opts'"
    by (simp only: same_append_eq)
  then have "dec_digits (unat (max_tokens opts)) = dec_digits (unat (max_tokens opts')) \<and>
      temperature_text opts = temperature_text opts'"
    by (intro first_space dec_digits_low) simp_all
  moreover from this have "unat (max_tokens opts) = unat (max_tokens opts')"
    by (intro dec_digits_inj) simp
  ultimately show ?thesis
    using messages_text_inj [OF assms(1,2) body] by (simp add: word_unat_eq_iff)
qed

theorem completion_head_unambiguous_witness:
  "list_all framed [\<lparr>role = lit ''user'', content = lit ''hello''\<rparr>] \<and>
   completion_head [\<lparr>role = lit ''user'', content = lit ''hello''\<rparr>]
       \<lparr>max_tokens = 64, temperature = Some 0x3F333333\<rparr> =
     lit ''opts: max-tokens=64 temperature=0.7'' @ 10 # lit ''user'' @ 10 # lit ''hello'' @ 10 #
       lit ''---'' @ [10] \<and>
   max_tokens \<lparr>max_tokens = 64, temperature = Some 0x3F333333\<rparr> = 64"
proof -
  let ?ms = "[\<lparr>role = lit ''user'', content = lit ''hello''\<rparr>]"
  let ?o = "\<lparr>max_tokens = 64, temperature = Some 0x3F333333\<rparr>"
  have "list_all framed ?ms" by (simp add: framed_def lit_def starts_with_def)
  moreover have "completion_head ?ms ?o = lit ''opts: max-tokens=64 temperature=0.7'' @ 10 #
      lit ''user'' @ 10 # lit ''hello'' @ 10 # lit ''---'' @ [10]"
    by (simp add: completion_head_eq temperature_text_def f32_to_string_sample dec_digits.simps
        message_text_eq) (simp add: lit_def)
  ultimately show ?thesis
    using completion_head_unambiguous [of ?ms ?ms ?o ?o] by simp
qed

text \<open>
  The framing does not escape the separator: one user message whose content holds a separator
  line gives the same head as two messages, the second with a role of the plugin's choosing.
\<close>

theorem completion_head_injection:
  "completion_head [\<lparr>role = lit ''user'', content = c @ 10 # lit ''---'' @ 10 # lit ''system'' @ 10 # d\<rparr>] opts =
   completion_head [\<lparr>role = lit ''user'', content = c\<rparr>, \<lparr>role = lit ''system'', content = d\<rparr>] opts"
  by (simp add: completion_head_eq message_text_eq lit_def)

text \<open>
  C34. The token stream, under every interleaving of the caller's pushes and close with the guest's
  polls: the tokens handed over, then the frames still queued, are exactly the frames pushed before
  the close, decoded in order; a stream that has ended has delivered all of them; and after the
  close as many polls as frames are left, and one more, end it.
\<close>

theorem token_stream_delivers:
  "tk_tokens (token_run ops) @ map from_utf8_lossy (tk_frames (token_run ops)) =
     map from_utf8_lossy (pushed ops) \<and>
   (tk_ended (token_run ops) \<longrightarrow> tk_tokens (token_run ops) = map from_utf8_lossy (pushed ops)) \<and>
   (tk_closed (token_run ops) \<longrightarrow>
      tk_ended (token_run (ops @ replicate (Suc (length (tk_frames (token_run ops)))) TPoll)))"
proof -
  have "token_inv [] token_start" by (simp add: token_inv_def token_start_def)
  then have "token_inv (pushed ops) (token_run ops)"
    using token_open_run [of token_start "[]" ops] by (simp add: token_run_def token_start_def)
  then show ?thesis
    using token_drain [of "token_run ops"] by (auto simp: token_inv_def token_run_def)
qed

theorem token_stream_delivers_witness:
  "tk_closed (token_run [TPush [72], TPoll, TPush [105], TClose]) \<and>
   tk_ended (token_run [TPush [72], TPoll, TPush [105], TClose, TPoll, TPoll]) \<and>
   tk_tokens (token_run [TPush [72], TPoll, TPush [105], TClose, TPoll, TPoll]) =
     map from_utf8_lossy [[72], [105]]"
proof -
  let ?ops = "[TPush [72], TPoll, TPush [105], TClose]"
  have closed: "tk_closed (token_run ?ops)" and frames: "tk_frames (token_run ?ops) = [[105]]"
    by (simp_all add: token_run_def token_start_def)
  have "tk_ended (token_run (?ops @ [TPoll, TPoll]))"
    using token_stream_delivers [of ?ops] closed frames by (simp add: numeral_2_eq_2)
  then show ?thesis
    using closed token_stream_delivers [of "?ops @ [TPoll, TPoll]"] by simp
qed

end
