(* ===== verification/Inference_Guest.thy ===== *)
theory Inference_Guest
  imports Inference Http_Guests
begin

text \<open>
  The inference guest (\<open>test-guest-inference\<close>): one completion request, then the token stream
  drained into its result; over the host of \<open>Inference\<close> and as a driver of the streaming bridge.
\<close>

section \<open>The guest\<close>

definition guest_messages :: "ChatMessage list" where
  "guest_messages = [\<lparr>role = lit ''user'', content = lit ''hello''\<rparr>]"

definition guest_opts :: InferenceOpts where
  "guest_opts = \<lparr>max_tokens = 64, temperature = None\<rparr>"

text \<open>\<open>mint\<close> makes the token stream over the caller's frames, \<open>collect\<close> drains it.\<close>

definition inference_guest_run ::
  "(bytes list \<Rightarrow> ('s, rstr) result) \<Rightarrow> ('s \<Rightarrow> rstr list) \<Rightarrow> InferenceHost \<Rightarrow> bytes \<times> InferenceHost" where
  "inference_guest_run mint collect h =
     (case inference_complete mint guest_messages guest_opts h of
        (Inl _, h) \<Rightarrow> ([], h)
      | (Inr token_stream, h) \<Rightarrow>
          (let tokens = collect token_stream; txt = foldl (@) [] tokens in (as_bytes txt, h)))"

text \<open>
  Any guest of the interface as it runs in a streaming session: the tree of its calls.  The token
  stream it gets is the inbound receiver; \<open>n\<close> is how many reads its fuel lasts for.
\<close>

datatype token_stream = CallerTokens

datatype inference_prog =
    IReturn bytes
  | ITrap wasm_error
  | IComplete "ChatMessage list" InferenceOpts "(token_stream, ApiError) result \<Rightarrow> inference_prog"
  | ITokens token_stream nat "rstr list \<Rightarrow> inference_prog"

record inference_engine =
  token_mint :: "(token_stream, rstr) result"
  tokens_out_of_fuel :: wasm_error

fun emit_sent :: "P3sEvent list \<Rightarrow> driver \<Rightarrow> driver" where
  "emit_sent [] d = d"
| "emit_sent (POut bs # evs) d = DChunk bs (emit_sent evs d)"
| "emit_sent (POutEnd # evs) d = DEnd (emit_sent evs d)"
| "emit_sent (PDone r # evs) d = emit_sent evs d"

definition inference_sent :: "InferenceHost \<Rightarrow> P3sEvent list" where
  "inference_sent h = (case ih_transport h of Some tr \<Rightarrow> it_out tr | None \<Rightarrow> [])"

primrec inference_live :: "inference_engine \<Rightarrow> inference_prog \<Rightarrow> InferenceHost \<Rightarrow> driver" where
  "inference_live E (IReturn out) = (\<lambda>h. DReturn (Ok out))"
| "inference_live E (ITrap e) = (\<lambda>h. DReturn (Err (annotate e)))"
| "inference_live E (IComplete ms opts k) = (\<lambda>h.
     case inference_complete (\<lambda>_. token_mint E) ms opts h of
       (r, h') \<Rightarrow> emit_sent (drop (length (inference_sent h)) (inference_sent h')) (inference_live E (k r) h'))"
| "inference_live E (ITokens s n k) = (\<lambda>h.
     collect_frames (tokens_out_of_fuel E) n
       (\<lambda>fs. inference_live E (k (map from_utf8_lossy fs)) h) [])"

definition inference_guest_prog :: "nat \<Rightarrow> inference_prog" where
  "inference_guest_prog n =
     IComplete guest_messages guest_opts (\<lambda>r. case r of
       Inl _ \<Rightarrow> IReturn []
     | Inr token_stream \<Rightarrow> ITokens token_stream n (\<lambda>tokens. IReturn (as_bytes (foldl (@) [] tokens))))"

definition inference_guest_driver :: "wasm_error \<Rightarrow> nat \<Rightarrow> driver" where
  "inference_guest_driver fuel_trap n =
     inference_live \<lparr>token_mint = Ok CallerTokens, tokens_out_of_fuel = fuel_trap\<rparr> (inference_guest_prog n)
       (inference_with_transport [] [])"

section \<open>Lemmas\<close>

fun event_items :: "P3sEvent list \<Rightarrow> out_item list" where
  "event_items [] = []"
| "event_items (POut bs # evs) = OChunk bs # event_items evs"
| "event_items (POutEnd # evs) = OEnd # event_items evs"
| "event_items (PDone r # evs) = event_items evs"

lemma foldl_append: "foldl (@) acc xs = acc @ concat xs"
  by (induction xs arbitrary: acc) simp_all

lemma inference_guest_driver_eq:
  "inference_guest_driver fuel_trap n =
     DChunk (as_bytes (completion_head guest_messages guest_opts)) (DEnd
       (collect_frames fuel_trap n
         (\<lambda>fs. DReturn (Ok (as_bytes (concat (map from_utf8_lossy fs))))) []))"
  by (simp add: inference_guest_driver_def inference_guest_prog_def inference_complete_def
      inference_with_transport_def inference_sent_def foldl_append)

lemma guest_head: "completion_head guest_messages guest_opts =
    lit ''opts: max-tokens=64 temperature=default'' @ 10 # lit ''user'' @ 10 # lit ''hello'' @ 10 #
      lit ''---'' @ [10]"
  by (simp add: completion_head_eq temperature_text_def dec_digits.simps message_text_eq
      guest_messages_def guest_opts_def) (simp add: lit_def)

lemma inference_guest_eq:
  assumes "mint ins = Ok s" and "collect s = map from_utf8_lossy ins"
  shows "inference_guest_run mint collect (inference_with_transport [] ins) =
    (as_bytes (concat (map from_utf8_lossy ins)),
     \<lparr>ih_transport = Some \<lparr>it_out = [POut (as_bytes (completion_head guest_messages guest_opts)), POutEnd],
        it_inbound = None\<rparr>, ih_limits = store_limits\<rparr>)"
  using assms
  by (simp add: inference_guest_run_def inference_complete_def inference_with_transport_def foldl_append)

text \<open>Frames that hold whole characters come back as they were pushed.\<close>

lemma whole_tokens:
  "list_all valid_str ts \<Longrightarrow> as_bytes (concat (map from_utf8_lossy (map as_bytes ts))) = concat (map as_bytes ts)"
  by (induction ts) (simp_all add: from_utf8_lossy_as_bytes)

text \<open>A character split over two frames does not: each half is replaced.\<close>

lemma split_character:
  "concat (map from_utf8_lossy [[0xC3], [0xA9]]) = [0xFFFD, 0xFFFD]"
  "from_utf8_lossy [0xC3, 0xA9] = [0xE9]"
  by (simp_all add: from_utf8_lossy_def lossy_step_def is_cont_def)

section \<open>Properties\<close>

text \<open>
  The inference guest through the streaming stack: under every schedule, a finished session has
  sent one request head (the single user message and its options) and the end mark, and its result
  is the text of all the token frames in order, as the sequential run of the guest computes it; for
  frames that are whole strings those are the very bytes the caller pushed.
\<close>

theorem inference_guest_stream:
  assumes "mint ins = Ok s" and "collect s = map from_utf8_lossy ins" and "length ins < n"
    and "(p3s_step ^^ k) (p3s_start (inference_guest_driver fuel_trap n) ins) c"
  shows "\<exists>out h. inference_guest_run mint collect (inference_with_transport [] ins) = (out, h) \<and>
    (s_finished (stream (world c)) \<longrightarrow> p3s_session_result (world c) = out \<and>
       seen c = [OChunk (as_bytes (lit ''opts: max-tokens=64 temperature=default'' @ 10 # lit ''user'' @
         10 # lit ''hello'' @ 10 # lit ''---'' @ [10])), OEnd]) \<and>
    (s_finished (stream (world c)) \<or> (\<exists>c'. p3s_step c c')) \<and>
    (list_all valid_str ts \<and> ins = map as_bytes ts \<longrightarrow> out = concat ins)"
proof -
  let ?out = "as_bytes (concat (map from_utf8_lossy ins))"
  have "deliver (inference_guest_driver fuel_trap n) ins =
      ([OChunk (as_bytes (completion_head guest_messages guest_opts)), OEnd], Completed (Ok ?out))"
    by (simp add: inference_guest_driver_eq deliver_collect [OF assms(3)])
  with p3s_run_refines [OF assms(4)] inference_guest_eq [where mint = mint and collect = collect, OF assms(1,2)]
  show ?thesis
    using whole_tokens [of ts] by (auto simp: guest_head)
qed

theorem inference_guest_stream_witness:
  "\<exists>k c. (p3s_step ^^ k) (p3s_start (inference_guest_driver
       \<lparr>err_display = [], err_alternate = [], err_sources = []\<rparr> 4) [blit ''he'', blit ''llo'']) c \<and>
     s_finished (stream (world c)) \<and> p3s_session_result (world c) = blit ''hello''"
proof -
  let ?ins = "[blit ''he'', blit ''llo'']" and ?e = "\<lparr>err_display = [], err_alternate = [], err_sources = []\<rparr>"
  obtain k c where run: "(p3s_step ^^ k) (p3s_start (inference_guest_driver ?e 4) ?ins) c"
    and fin: "s_finished (stream (world c))" using p3s_runs_to_end by blast
  have ts: "list_all valid_str [lit ''he'', lit ''llo'']" "?ins = map as_bytes [lit ''he'', lit ''llo'']"
    "concat ?ins = blit ''hello''"
    by (simp_all add: valid_str_def valid_char_def lit_def blit_def as_bytes_def utf8_char_def utf8_code_def)
  have "p3s_session_result (world c) = blit ''hello''"
    using inference_guest_stream [of Ok ?ins ?ins "map from_utf8_lossy" 4 k ?e c "[lit ''he'', lit ''llo'']"]
      run fin ts by simp
  with run fin show ?thesis by blast
qed

end
