(* ===== verification/C_Abi.thy ===== *)
theory C_Abi
  imports Embedded_Wasm Plugin_Host Http_Live Inference_Guest
begin

text \<open>
  The handle-based C ABI of \<open>src/lib.rs\<close>: engines, instances and precompilation, the entry points
  that start a session, and the wrappers around the session operations.  A handle is \<open>None\<close> when the
  pointer is null and otherwise the object behind it (the callers' contract is that it is live); a
  byte pointer with its length is \<open>None\<close> when null and otherwise the bytes.  What the loaded guests
  do is the record \<open>guests\<close>.
\<close>

section \<open>Engines and instances\<close>

record 'eng HwrEngine =
  he_engine :: 'eng

record ('store, 'inst) HwrInstance =
  hi_store :: 'store
  hi_instance :: 'inst

text \<open>\<open>catch_unwind(..).ok().flatten().unwrap_or(null)\<close>: the value of an \<open>Ok\<close> run, else null.\<close>

fun run_ok :: "'a run \<Rightarrow> 'a option" where
  "run_ok (Returned (Inr x)) = Some x"
| "run_ok _ = None"

definition act_ok :: "'a act \<Rightarrow> jit_state \<Rightarrow> 'a option \<times> jit_state" where
  "act_ok m st = (case m st of (r, st) \<Rightarrow> (run_ok r, st))"

definition hwr_set_fuel_budget :: "u64 \<Rightarrow> u64 \<Rightarrow> u64" where
  "hwr_set_fuel_budget fuel override = set_fuel_budget fuel override"

definition hwr_engine_new :: "('cfg, 'eng, 'mod, 'code, 'store, 'inst, 'fn) W \<Rightarrow> i32 \<Rightarrow> 'eng HwrEngine option" where
  "hwr_engine_new W use_pulley =
     map_option (\<lambda>e. \<lparr>he_engine = e\<rparr>)
       (run_ok (build W (pulley_target W (use_pulley \<noteq> 0) (configure_engine W (configure W (config_new W))))))"

text \<open>Both instance constructors, after the null checks: load, make a store with fuel, instantiate.\<close>

definition instance_of ::
  "('cfg, 'eng, 'mod, 'code, 'store, 'inst, 'fn) W \<Rightarrow> u64 \<Rightarrow> 'eng \<Rightarrow> 'code act \<Rightarrow> jit_state \<Rightarrow>
    ('store, 'inst) HwrInstance option \<times> jit_state" where
  "instance_of W override eng loaded =
     act_ok (act_bind loaded (\<lambda>component.
       act_bind (eff (set_fuel W (fuel_budget override) (store_new W eng))) (\<lambda>s.
       act_bind (eff (instantiate W eng component None s)) (\<lambda>(inst, s).
       act_return \<lparr>hi_store = s, hi_instance = inst\<rparr>))))"

definition hwr_instance_new ::
  "('cfg, 'eng, 'mod, 'code, 'store, 'inst, 'fn) W \<Rightarrow> u64 \<Rightarrow> 'eng HwrEngine option \<Rightarrow> bytes option \<Rightarrow> jit_state \<Rightarrow>
    ('store, 'inst) HwrInstance option \<times> jit_state" where
  "hwr_instance_new W override engine wasm st =
     (case (engine, wasm) of
        (Some e, Some bs) \<Rightarrow>
          instance_of W override (he_engine e) (compile_component W (he_engine e) (Binary bs)) st
      | _ \<Rightarrow> (None, st))"

definition hwr_instance_new_precompiled ::
  "('cfg, 'eng, 'mod, 'code, 'store, 'inst, 'fn) W \<Rightarrow> u64 \<Rightarrow> 'eng HwrEngine option \<Rightarrow> bytes option \<Rightarrow> jit_state \<Rightarrow>
    ('store, 'inst) HwrInstance option \<times> jit_state" where
  "hwr_instance_new_precompiled W override engine artifact st =
     (case (engine, artifact) of
        (Some e, Some bs) \<Rightarrow>
          instance_of W override (he_engine e) (deserialize_component W (he_engine e) bs) st
      | _ \<Rightarrow> (None, st))"

text \<open>The call with a fresh budget; the store changes also when the call fails.\<close>

definition hwr_instance_call_add ::
  "('cfg, 'eng, 'mod, 'code, 'store, 'inst, 'fn) W \<Rightarrow> u64 \<Rightarrow> ('store, 'inst) HwrInstance option \<Rightarrow> i32 \<Rightarrow> i32 \<Rightarrow>
    i64 \<times> ('store, 'inst) HwrInstance option" where
  "hwr_instance_call_add W override inst a b =
     (case inst of
        None \<Rightarrow> (i64_MIN, None)
      | Some h \<Rightarrow>
          (case run_ok (set_fuel W (fuel_budget override) (hi_store h)) of
             None \<Rightarrow> (i64_MIN, Some h)
           | Some s \<Rightarrow>
               (case run_ok (get_typed_func W (hi_instance h) ''add'') of
                  None \<Rightarrow> (i64_MIN, Some (h\<lparr>hi_store := s\<rparr>))
                | Some f \<Rightarrow>
                    (case call_func W f [a, b] s of
                       (r, s') \<Rightarrow>
                         (case run_ok r of Some v \<Rightarrow> i32_as_i64 v | None \<Rightarrow> i64_MIN,
                          Some (h\<lparr>hi_store := s'\<rparr>))))))"

text \<open>The artifact buffer and \<open>*out_len\<close>, which is written on success only.\<close>

definition hwr_precompile_component ::
  "('cfg, 'eng, 'mod, 'code, 'store, 'inst, 'fn) W \<Rightarrow> 'eng HwrEngine option \<Rightarrow> bytes option \<Rightarrow> nat option \<Rightarrow>
    bytes option \<times> nat option" where
  "hwr_precompile_component W engine wasm out_len =
     (case (engine, wasm, out_len) of
        (Some e, Some bs, Some len) \<Rightarrow>
          (case run_ok (precompile W (he_engine e) (Binary bs)) of
             Some v \<Rightarrow> (Some v, Some (length v))
           | None \<Rightarrow> (None, Some len))
      | _ \<Rightarrow> (None, out_len))"

section \<open>Guests\<close>

text \<open>
  What a loaded component does when it runs with the given fuel.  A streaming one is linked against
  its host interface and instantiated first, which may fail; then its \<open>run\<close> is a tree of host calls.
\<close>

record ('eng, 'code, 's, 't, 'x) guests =
  json_wire :: serde
  trapped_import :: "rstr \<Rightarrow> wasm_error"
  probe_run :: "'eng \<Rightarrow> 'code \<Rightarrow> u64 \<Rightarrow> bytes \<Rightarrow> component_run"
  workspace_run :: "'eng \<Rightarrow> 'code \<Rightarrow> u64 \<Rightarrow> ws_call typed_run"
  storage_events_run :: "'eng \<Rightarrow> 'code \<Rightarrow> u64 \<Rightarrow> se_call typed_run"
  plugin_run :: "'eng \<Rightarrow> 'code \<Rightarrow> u64 \<Rightarrow> bytes \<Rightarrow> plugin_call typed_run"
  http_engine :: "('s, 't, 'x) live_engine"
  http_run_of :: "'eng \<Rightarrow> 'code \<Rightarrow> u64 \<Rightarrow> (('s, 't, 'x) http_prog, wasm_error) result"
  inference_engine_of :: inference_engine
  inference_run_of :: "'eng \<Rightarrow> 'code \<Rightarrow> u64 \<Rightarrow> (inference_prog, wasm_error) result"

section \<open>Starting a session\<close>

text \<open>
  The shape of every start: null for a null component, an engine that does not build, code that
  does not load or a panic, and otherwise the spawned session.
\<close>

definition start_with ::
  "'eng run \<Rightarrow> ('eng \<Rightarrow> bytes \<Rightarrow> 'code act) \<Rightarrow> bytes option \<Rightarrow> ('eng \<Rightarrow> 'code \<Rightarrow> 'w) \<Rightarrow> jit_state \<Rightarrow>
    'w option \<times> jit_state" where
  "start_with mk_engine load_code component spawn st =
     (case component of
        None \<Rightarrow> (None, st)
      | Some bs \<Rightarrow>
          act_ok (act_bind (eff mk_engine) (\<lambda>engine.
            act_bind (load_code engine bs) (\<lambda>code. act_return (spawn engine code)))) st)"

abbreviation compile_bytes where
  "compile_bytes W eng bs \<equiv> compile_component W eng (Binary bs)"

definition hwr_p3_start where
  "hwr_p3_start W G override use_pulley component input =
     start_with (p3_engine W (use_pulley \<noteq> (0 :: i32))) (deserialize_component W) component (\<lambda>eng code.
       p3_run_session (p3_drive (trapped_import G)
         (probe_run G eng code (fuel_budget override) (unwrap_or [] input))))"

definition hwr_p3_start_compile where
  "hwr_p3_start_compile W G override use_pulley component input =
     start_with (p3_engine W (use_pulley \<noteq> (0 :: i32))) (compile_bytes W) component (\<lambda>eng code.
       p3_run_session (p3_drive (trapped_import G)
         (probe_run G eng code (fuel_budget override) (unwrap_or [] input))))"

text \<open>\<open>p3_run_session_sync\<close>: the same session over a drive that blocks on its host calls.\<close>

definition p3_run_session_sync :: "guest \<Rightarrow> p3_world" where
  "p3_run_session_sync drive = p3_run_session drive"

definition hwr_p3_start_workspace_compile where
  "hwr_p3_start_workspace_compile W G override use_pulley component =
     start_with (p3_engine W (use_pulley \<noteq> (0 :: i32))) (compile_bytes W) component (\<lambda>eng code.
       p3_run_session_sync (drive_workspace_run (json_wire G)
         (workspace_run G eng code (fuel_budget override))))"

definition hwr_p3_start_workspace where
  "hwr_p3_start_workspace W G override use_pulley component =
     start_with (p3_engine W (use_pulley \<noteq> (0 :: i32))) (deserialize_component W) component (\<lambda>eng code.
       p3_run_session_sync (drive_workspace_run (json_wire G)
         (workspace_run G eng code (fuel_budget override))))"

definition hwr_p3_start_storage_events_compile where
  "hwr_p3_start_storage_events_compile W G override use_pulley component =
     start_with (p3_engine W (use_pulley \<noteq> (0 :: i32))) (compile_bytes W) component (\<lambda>eng code.
       p3_run_session_sync (drive_storage_events_run (json_wire G)
         (storage_events_run G eng code (fuel_budget override))))"

definition hwr_p3_start_storage_events where
  "hwr_p3_start_storage_events W G override use_pulley component =
     start_with (p3_engine W (use_pulley \<noteq> (0 :: i32))) (deserialize_component W) component (\<lambda>eng code.
       p3_run_session_sync (drive_storage_events_run (json_wire G)
         (storage_events_run G eng code (fuel_budget override))))"

definition hwr_p3_start_plugin_compile where
  "hwr_p3_start_plugin_compile W G override use_pulley component input =
     start_with (p3_engine W (use_pulley \<noteq> (0 :: i32))) (compile_bytes W) component (\<lambda>eng code.
       p3_run_session_sync (drive_plugin_run (json_wire G)
         (plugin_run G eng code (fuel_budget override) (unwrap_or [] input))))"

definition hwr_p3_start_plugin where
  "hwr_p3_start_plugin W G override use_pulley component input =
     start_with (p3_engine W (use_pulley \<noteq> (0 :: i32))) (deserialize_component W) component (\<lambda>eng code.
       p3_run_session_sync (drive_plugin_run (json_wire G)
         (plugin_run G eng code (fuel_budget override) (unwrap_or [] input))))"

text \<open>The streaming starts: \<open>p3s_engine\<close> has no error value, only its absence.\<close>

fun ok_or_none :: "'a option outcome \<Rightarrow> wasm_error \<Rightarrow> 'a run" where
  "ok_or_none (Returned (Some x)) e = Returned (Ok x)"
| "ok_or_none (Returned None) e = Returned (Err e)"
| "ok_or_none Panicked e = Panicked"

definition no_engine :: wasm_error where
  "no_engine = \<lparr>err_display = [], err_alternate = [], err_sources = []\<rparr>"

text \<open>
  The two closures: every failure before the call, and of the call, is the annotated error; the
  guest runs on the host made from the session's outbound and inbound ends.  The receiver starts
  without frames: they come through the session (\<open>live_run\<close>).
\<close>

definition p3s_http_session where
  "p3s_http_session G override eng component =
     p3s_run_session
       (case http_run_of G eng component (fuel_budget override) of
          Inl e \<Rightarrow> DReturn (Err (annotate e))
        | Inr run \<Rightarrow> live_run (http_engine G) run (http_host_with_transport [] []))"

definition p3s_inference_session where
  "p3s_inference_session G override eng component =
     p3s_run_session
       (case inference_run_of G eng component (fuel_budget override) of
          Inl e \<Rightarrow> DReturn (Err (annotate e))
        | Inr run \<Rightarrow> inference_live (inference_engine_of G) run (inference_with_transport [] []))"

definition hwr_p3s_start_http where
  "hwr_p3s_start_http W G override use_pulley component =
     start_with (ok_or_none (p3s_engine W (use_pulley \<noteq> (0 :: i32))) no_engine) (compile_bytes W) component
       (p3s_http_session G override)"

definition hwr_p3s_start_http_precompiled where
  "hwr_p3s_start_http_precompiled W G override use_pulley component =
     start_with (ok_or_none (p3s_engine W (use_pulley \<noteq> (0 :: i32))) no_engine) (deserialize_component W)
       component (p3s_http_session G override)"

definition hwr_p3s_start_inference where
  "hwr_p3s_start_inference W G override use_pulley component =
     start_with (ok_or_none (p3s_engine W (use_pulley \<noteq> (0 :: i32))) no_engine) (compile_bytes W) component
       (p3s_inference_session G override)"

definition hwr_p3s_start_inference_precompiled where
  "hwr_p3s_start_inference_precompiled W G override use_pulley component =
     start_with (ok_or_none (p3s_engine W (use_pulley \<noteq> (0 :: i32))) no_engine) (deserialize_component W)
       component (p3s_inference_session G override)"

section \<open>Session wrappers\<close>

text \<open>\<open>None\<close> is a call that blocks.\<close>

definition hwr_p3_poll :: "p3_world option \<Rightarrow> (i32 \<times> p3_world option) option" where
  "hwr_p3_poll hdl =
     (case hdl of
        None \<Rightarrow> Some (HWR_P3_ERROR, None)
      | Some w \<Rightarrow> map_option (\<lambda>(status, w). (status, Some w)) (p3_poll w))"

definition hwr_p3_request_ptr :: "p3_world option \<Rightarrow> bytes option" where
  "hwr_p3_request_ptr hdl = map_option p3_request hdl"

definition hwr_p3_request_len :: "p3_world option \<Rightarrow> nat" where
  "hwr_p3_request_len hdl = (case hdl of None \<Rightarrow> 0 | Some w \<Rightarrow> length (p3_request w))"

definition hwr_p3_resolve :: "p3_world option \<Rightarrow> bytes option \<Rightarrow> p3_world option" where
  "hwr_p3_resolve hdl response =
     (case hdl of None \<Rightarrow> None | Some w \<Rightarrow> Some (p3_resolve (unwrap_or [] response) w))"

definition hwr_p3_result_ptr :: "p3_world option \<Rightarrow> bytes option" where
  "hwr_p3_result_ptr hdl = map_option p3_session_result hdl"

definition hwr_p3_result_len :: "p3_world option \<Rightarrow> nat" where
  "hwr_p3_result_len hdl = (case hdl of None \<Rightarrow> 0 | Some w \<Rightarrow> length (p3_session_result w))"

text \<open>Freeing drops the session; the drop ends with the join (\<open>p3_join\<close>).\<close>

definition hwr_p3_free :: "p3_world option \<Rightarrow> p3_world option" where
  "hwr_p3_free hdl = map_option p3_drop hdl"

definition hwr_p3s_poll :: "p3s_world option \<Rightarrow> (i32 \<times> p3s_world option) option" where
  "hwr_p3s_poll hdl =
     (case hdl of
        None \<Rightarrow> Some (HWR_P3S_ERROR, None)
      | Some w \<Rightarrow> map_option (\<lambda>(status, w). (status, Some w)) (p3s_poll w))"

definition hwr_p3s_out_ptr :: "p3s_world option \<Rightarrow> bytes option" where
  "hwr_p3s_out_ptr hdl = map_option p3s_out_chunk hdl"

definition hwr_p3s_out_len :: "p3s_world option \<Rightarrow> nat" where
  "hwr_p3s_out_len hdl = (case hdl of None \<Rightarrow> 0 | Some w \<Rightarrow> length (p3s_out_chunk w))"

definition hwr_p3s_push :: "p3s_world option \<Rightarrow> bytes option \<Rightarrow> p3s_world option" where
  "hwr_p3s_push hdl chunk =
     (case hdl of None \<Rightarrow> None | Some w \<Rightarrow> Some (p3s_push (unwrap_or [] chunk) w))"

definition hwr_p3s_push_end :: "p3s_world option \<Rightarrow> p3s_world option" where
  "hwr_p3s_push_end hdl = map_option p3s_push_end hdl"

definition hwr_p3s_result_ptr :: "p3s_world option \<Rightarrow> bytes option" where
  "hwr_p3s_result_ptr hdl = map_option p3s_session_result hdl"

definition hwr_p3s_result_len :: "p3s_world option \<Rightarrow> nat" where
  "hwr_p3s_result_len hdl = (case hdl of None \<Rightarrow> 0 | Some w \<Rightarrow> length (p3s_session_result w))"

definition hwr_p3s_free :: "p3s_world option \<Rightarrow> p3s_world option" where
  "hwr_p3s_free hdl = map_option p3s_drop hdl"

section \<open>Lemmas\<close>

lemma start_with_Some:
  "fst (start_with mk load_code c spawn st) = Some w \<longleftrightarrow>
     (\<exists>bs eng comp. c = Some bs \<and> mk = Returned (Ok eng) \<and>
        fst (load_code eng bs st) = Returned (Ok comp) \<and> w = spawn eng comp)"
proof (cases c)
  case (Some bs)
  show ?thesis
  proof (cases mk)
    case (Returned r)
    show ?thesis
    proof (cases r)
      case (Inr eng)
      obtain res st' where "load_code eng bs st = (res, st')" by fastforce
      with Some Returned Inr show ?thesis
        by (cases res; cases "case res of Returned x \<Rightarrow> x | Panicked \<Rightarrow> undefined")
          (auto simp: start_with_def act_ok_def act_bind_def eff_def act_return_def)
    qed (use Some Returned in \<open>simp add: start_with_def act_ok_def\<close>)
  qed (use Some in \<open>simp add: start_with_def act_ok_def\<close>)
qed (simp add: start_with_def)

lemma start_with_None:
  "fst (start_with mk load_code c spawn st) = None \<longleftrightarrow>
     (\<nexists>bs eng comp. c = Some bs \<and> mk = Returned (Ok eng) \<and> fst (load_code eng bs st) = Returned (Ok comp))"
proof -
  have "fst (start_with mk load_code c spawn st) = None \<longleftrightarrow>
      (\<nexists>w. fst (start_with mk load_code c spawn st) = Some w)"
    by (cases "fst (start_with mk load_code c spawn st)") simp_all
  then show ?thesis unfolding start_with_Some by blast
qed

lemma ok_or_none_Ok: "ok_or_none r e = Returned (Ok eng) \<longleftrightarrow> r = Returned (Some eng)"
  by (cases "(r, e)" rule: ok_or_none.cases) auto

lemmas start_defs = hwr_p3_start_def hwr_p3_start_compile_def hwr_p3_start_workspace_compile_def
  hwr_p3_start_workspace_def hwr_p3_start_storage_events_compile_def hwr_p3_start_storage_events_def
  hwr_p3_start_plugin_compile_def hwr_p3_start_plugin_def hwr_p3s_start_http_def
  hwr_p3s_start_http_precompiled_def hwr_p3s_start_inference_def hwr_p3s_start_inference_precompiled_def

text \<open>
  Null handles are harmless: on a null session every wrapper returns its error value, null or
  zero, and creates nothing; a null byte pointer counts as empty.
\<close>

lemma abi_null_handles:
  "hwr_p3_poll None = Some (HWR_P3_ERROR, None) \<and> hwr_p3s_poll None = Some (HWR_P3S_ERROR, None) \<and>
   hwr_p3_request_ptr None = None \<and> hwr_p3_request_len None = 0 \<and> hwr_p3_resolve None r = None \<and>
   hwr_p3_result_ptr None = None \<and> hwr_p3_result_len None = 0 \<and> hwr_p3_free None = None \<and>
   hwr_p3s_out_ptr None = None \<and> hwr_p3s_out_len None = 0 \<and> hwr_p3s_push None r = None \<and>
   hwr_p3s_push_end None = None \<and> hwr_p3s_result_ptr None = None \<and> hwr_p3s_result_len None = 0 \<and>
   hwr_p3_resolve (Some w) None = hwr_p3_resolve (Some w) (Some []) \<and>
   hwr_p3s_push (Some v) None = hwr_p3s_push (Some v) (Some []) \<and>
   hwr_instance_call_add W override None a b = (i64_MIN, None) \<and>
   fst (hwr_instance_new W override None wasm st) = None \<and> fst (hwr_instance_new W override e None st) = None \<and>
   fst (hwr_precompile_component W e wasm None) = None"
  by (simp add: hwr_p3_poll_def hwr_p3s_poll_def hwr_p3_request_ptr_def hwr_p3_request_len_def
      hwr_p3_resolve_def hwr_p3_result_ptr_def hwr_p3_result_len_def hwr_p3_free_def hwr_p3s_out_ptr_def
      hwr_p3s_out_len_def hwr_p3s_push_def hwr_p3s_push_end_def hwr_p3s_result_ptr_def hwr_p3s_result_len_def
      hwr_instance_call_add_def hwr_instance_new_def hwr_precompile_component_def split: option.splits)

section \<open>Properties\<close>

text \<open>
  C17. A plugin session end to end: when \<open>hwr_p3_start_plugin\<close> returns a handle, the engine was
  built and the artifact loaded, and however the worker and a caller that answers each pending
  request with \<open>svc\<close> interleave, the session finishes after four steps per host call plus two, and the
  bytes behind \<open>hwr_p3_result_ptr\<close> and the caller's state are those of the plugin run over the
  typed hosts.
\<close>

theorem plugin_session_end_to_end:
  assumes "fst (hwr_p3_start_plugin W G override p component input st) = Some w"
    and "(p3_step svc ^^ n) (app, w) (app', w')"
  shows "\<exists>bs eng comp g. component = Some bs \<and> p3_engine W (p \<noteq> 0) = Returned (Ok eng) \<and>
    fst (deserialize_component W eng bs st) = Returned (Ok comp) \<and>
    g = drive_plugin_run (json_wire G) (plugin_run G eng comp (fuel_budget override) (unwrap_or [] input)) \<and>
    (finished (session w') \<longleftrightarrow> 4 * host_calls_made svc g app + 2 \<le> n) \<and>
    (finished (session w') \<longrightarrow> app' = snd (interp svc g app) \<and> (\<exists>out. hwr_p3_result_ptr (Some w') = Some out \<and>
       hwr_p3_result_len (Some w') = length out \<and> reported (fst (interp svc g app)) out))"
proof -
  from assms(1) obtain bs eng comp where start: "component = Some bs" "p3_engine W (p \<noteq> 0) = Returned (Ok eng)"
    "fst (deserialize_component W eng bs st) = Returned (Ok comp)"
    "w = p3_run_session (drive_plugin_run (json_wire G)
       (plugin_run G eng comp (fuel_budget override) (unwrap_or [] input)))"
    unfolding hwr_p3_start_plugin_def start_with_Some p3_run_session_sync_def by blast
  from p3_run_refines [OF assms(2) [unfolded start(4)]] start(1-3) show ?thesis
    by (intro exI [of _ bs] exI [of _ eng] exI [of _ comp] exI conjI refl)
      (auto simp: hwr_p3_result_ptr_def hwr_p3_result_len_def)
qed

text \<open>A plugin that logs one line and returns its input.\<close>

definition demo_guests :: "(bool, wasm_src, bytes, trailers_value option, unit) guests" where
  "demo_guests =
     \<lparr>json_wire = demo_serde, trapped_import = (\<lambda>m. \<lparr>err_display = m, err_alternate = m, err_sources = []\<rparr>),
      probe_run = (\<lambda>_ _ _ input. Finish input), workspace_run = (\<lambda>_ _ _. TFinish (Ok [])),
      storage_events_run = (\<lambda>_ _ _. TFinish (Ok [])),
      plugin_run = (\<lambda>_ _ _ input. TCall (PLog Info (lit ''hi'')) (\<lambda>_. TFinish (Ok input))),
      http_engine = \<lparr>guest_side = demo_engine, out_of_fuel = no_engine\<rparr>,
      http_run_of = (\<lambda>_ _ _. Ok (shipped_prog demo_engine no_engine 2 GetGuest)),
      inference_engine_of = \<lparr>token_mint = Ok CallerTokens, tokens_out_of_fuel = no_engine\<rparr>,
      inference_run_of = (\<lambda>_ _ _. Ok (inference_guest_prog 4))\<rparr>"

theorem plugin_session_end_to_end_witness:
  "\<exists>w w'. fst (hwr_p3_start_plugin demo_wasmtime demo_guests 0 1 (Some [0]) (Some [1, 2]) jit_init) = Some w \<and>
     (p3_step (\<lambda>n _. ([], Suc n)) ^^ 6) (0, w) (1 :: nat, w') \<and> finished (session w') \<and> hwr_p3_result_ptr (Some w') = Some [1, 2]"
proof -
  let ?g = "drive_plugin_run demo_serde (TCall (PLog Info (lit ''hi'')) (\<lambda>_. TFinish (Ok [1, 2])))"
  have start: "fst (hwr_p3_start_plugin demo_wasmtime demo_guests 0 1 (Some [0]) (Some [1, 2]) jit_init) =
      Some (p3_run_session ?g)"
    by (simp add: hwr_p3_start_plugin_def start_with_Some p3_engine_def pulley_target_def
        deserialize_component_def stock_def demo_wasmtime_def demo_guests_def p3_run_session_sync_def)
  let ?f = "\<lambda>(n :: nat) (_ :: bytes). ([] :: bytes, Suc n)"
  have calls: "host_calls_made ?f ?g 0 = 1" and res: "interp ?f ?g 0 = (Completed (Ok [1, 2]), 1)"
    by (simp_all add: drive_plugin_run_def tp_log_write_def plugin_forward_def send_request_def demo_serde_def)
  obtain n w' where w': "(p3_step ?f ^^ 6) (0, p3_run_session ?g) (n, w')"
    using p3_step_exists [of 6 ?f 0 ?g] by blast
  from plugin_session_end_to_end [OF start w']
  have "finished (session w') \<and> n = 1 \<and> hwr_p3_result_ptr (Some w') = Some [1, 2]"
    using calls res by (auto simp: demo_guests_def)
  with start w' show ?thesis by blast
qed

text \<open>
  Every start entry point fails cleanly: it returns a non-null session exactly when the component
  pointer is non-null, the engine builds and the code loads, and null on every error and panic.
\<close>

theorem start_null_iff:
  "(fst (hwr_p3_start W G override p c i st) = None \<longleftrightarrow>
      (\<nexists>bs eng comp. c = Some bs \<and> p3_engine W (p \<noteq> 0) = Returned (Ok eng) \<and>
         fst (deserialize_component W eng bs st) = Returned (Ok comp))) \<and>
   (fst (hwr_p3_start_compile W G override p c i st) = None \<longleftrightarrow>
      (\<nexists>bs eng comp. c = Some bs \<and> p3_engine W (p \<noteq> 0) = Returned (Ok eng) \<and>
         fst (compile_component W eng (Binary bs) st) = Returned (Ok comp))) \<and>
   (fst (hwr_p3_start_plugin_compile W G override p c i st) = None \<longleftrightarrow>
      (\<nexists>bs eng comp. c = Some bs \<and> p3_engine W (p \<noteq> 0) = Returned (Ok eng) \<and>
         fst (compile_component W eng (Binary bs) st) = Returned (Ok comp))) \<and>
   (fst (hwr_p3s_start_http W G override p c st) = None \<longleftrightarrow>
      (\<nexists>bs eng comp. c = Some bs \<and> p3s_engine W (p \<noteq> 0) = Returned (Some eng) \<and>
         fst (compile_component W eng (Binary bs) st) = Returned (Ok comp))) \<and>
   (fst (hwr_p3s_start_inference_precompiled W G override p c st) = None \<longleftrightarrow>
      (\<nexists>bs eng comp. c = Some bs \<and> p3s_engine W (p \<noteq> 0) = Returned (Some eng) \<and>
         fst (deserialize_component W eng bs st) = Returned (Ok comp)))"
  by (simp only: start_defs start_with_None ok_or_none_Ok simp_thms)

end
