(* ===== verification/Wasi_Guests.thy ===== *)
theory Wasi_Guests
  imports Fetch_Gate Request_Policy Capstone
begin

text \<open>
  \<open>src/wasi_guests.rs\<close>: the store state of a JS or Go guest and the hooks its \<open>wasi:http@0.2\<close>
  requests go through: gate, header policy, the injectable send, response policy.  The header map,
  the response builder and the network sender belong to \<open>hyper\<close> and \<open>wasmtime-wasi-http\<close>; they are
  parameters, and \<open>header_map_laws\<close> states what is documented of the first.
\<close>

section \<open>Futures, bodies and errors\<close>

text \<open>
  A future is what its polls show; it may stay pending for ever.  A body is the sequence of its
  frames and errors.
\<close>

codatatype 'a future = Ready 'a | Pending "'a future"

codatatype ('f, 'e) wasi_body =
    BodyEnd
  | BodyPending "('f, 'e) wasi_body"
  | BodyItem "('f, 'e) result" "('f, 'e) wasi_body"

text \<open>The value a future has after \<open>n\<close> pending polls.\<close>

primrec resolve_at :: "nat \<Rightarrow> 'a future \<Rightarrow> 'a option" where
  "resolve_at 0 fut = (case fut of Ready x \<Rightarrow> Some x | Pending _ \<Rightarrow> None)"
| "resolve_at (Suc n) fut = (case fut of Ready x \<Rightarrow> Some x | Pending f \<Rightarrow> resolve_at n f)"

datatype ErrorKind = AddrNotAvailable | OtherKind nat

record io_error =
  io_kind :: ErrorKind
  io_text :: rstr

text \<open>
  \<open>wasmtime_wasi_http::Error\<close>: the \<open>error-code\<close> variants of \<open>wit-wasi-02/deps/http.wit\<close> and the
  connect error of the embedder-level type.  \<open>'x\<close> stands for whatever other variants that
  non-exhaustive type has.
\<close>

record FieldSizePayload =
  fs_field_name :: "rstr option"
  fs_field_size :: "32 word option"

datatype 'x HttpError =
    DnsTimeout
  | DnsErr (rcode: "rstr option") (info_code: "u16 option")
  | DestinationNotFound
  | DestinationUnavailable
  | DestinationIpProhibited
  | DestinationIpUnroutable
  | ConnectionRefused
  | ConnectionTerminated
  | ConnectionTimeout
  | ConnectionReadTimeout
  | ConnectionWriteTimeout
  | ConnectionLimitReached
  | TlsProtocolError
  | TlsCertificateError
  | TlsAlertReceived (alert_id: "u8 option") (alert_message: "rstr option")
  | HttpRequestDenied
  | HttpRequestLengthRequired
  | HttpRequestBodySize "64 word option"
  | HttpRequestMethodInvalid
  | HttpRequestUriInvalid
  | HttpRequestUriTooLong
  | HttpRequestHeaderSectionSize "32 word option"
  | HttpRequestHeaderSize "FieldSizePayload option"
  | HttpRequestTrailerSectionSize "32 word option"
  | HttpRequestTrailerSize FieldSizePayload
  | HttpResponseIncomplete
  | HttpResponseHeaderSectionSize "32 word option"
  | HttpResponseHeaderSize FieldSizePayload
  | HttpResponseBodySize "64 word option"
  | HttpResponseTrailerSectionSize "32 word option"
  | HttpResponseTrailerSize FieldSizePayload
  | HttpResponseTransferCoding "rstr option"
  | HttpResponseContentCoding "rstr option"
  | HttpResponseTimeout
  | HttpUpgradeFailed
  | HttpProtocolError
  | LoopDetected
  | ConfigurationError
  | InternalErr "rstr option"
  | Connect io_error
  | OtherHttpError 'x

text \<open>The guest-facing \<open>ErrorCode\<close> of \<open>wasi:http\<close> 0.2, as far as the hooks build one themselves.\<close>

record DnsErrorPayload =
  dns_rcode :: "rstr option"
  dns_info_code :: "u16 option"

datatype 'x p2_ErrorCode = DnsError DnsErrorPayload | OtherErrorCode 'x

section \<open>Requests and responses\<close>

record 'm header_map =
  hdr_keys :: "'m \<Rightarrow> rstr list"
  hdr_get_all :: "'m \<Rightarrow> rstr \<Rightarrow> bytes list"
  hdr_iter :: "'m \<Rightarrow> (rstr \<times> bytes) list"
  hdr_contains_key :: "'m \<Rightarrow> rstr \<Rightarrow> bool"
  hdr_remove :: "'m \<Rightarrow> rstr \<Rightarrow> 'm"
  hdr_insert :: "'m \<Rightarrow> rstr \<Rightarrow> bytes \<Rightarrow> 'm"

text \<open>What the hooks read of a URI.\<close>

record uri =
  uri_scheme_str :: "rstr option"
  uri_host :: "rstr option"
  uri_authority :: "rstr option"

text \<open>\<open>'b\<close> is what no policy looks at: method, version, body.\<close>

record ('m, 'b) request =
  rq_uri :: uri
  rq_headers :: 'm
  rq_rest :: 'b

record ('m, 'f, 'x) response =
  rs_status :: u16
  rs_headers :: 'm
  rs_body :: "('f, 'x HttpError) wasi_body"

type_synonym 'x IoFuture = "(unit, 'x HttpError) result future"

type_synonym ('m, 'f, 'x) SendFuture =
  "(('m, 'f, 'x) response \<times> 'x IoFuture, 'x HttpError) result future"

text \<open>The send step, with the state its closure captures; it may panic.\<close>

type_synonym ('m, 'b, 'o, 'f, 'x, 's) SendFn =
  "'s \<Rightarrow> ('m, 'b) request \<Rightarrow> 'o option \<Rightarrow> (('m, 'f, 'x) SendFuture \<times> 's) outcome"

definition failed_send :: "'x HttpError \<Rightarrow> ('m, 'f, 'x) SendFuture" where
  "failed_send err = Ready (Err err)"

definition HOST :: rstr where "HOST = lit ''host''"

text \<open>
  \<open>from_str\<close> is \<open>HeaderValue::from_str\<close>, \<open>turnkey\<close> is \<open>wasmtime_wasi_http::default_send_request\<close>.
\<close>

definition default_sender ::
  "'m header_map \<Rightarrow> (rstr \<Rightarrow> bytes option) \<Rightarrow>
   (('m, 'b) request \<Rightarrow> 'o option \<Rightarrow> ('m, 'f, 'x) SendFuture) \<Rightarrow> ('m, 'b, 'o, 'f, 'x, unit) SendFn" where
  "default_sender ops from_str turnkey s request options =
     (let request =
        (if \<not> hdr_contains_key ops (rq_headers request) HOST
         then (case Option.bind (uri_authority (rq_uri request)) from_str of
             Some v \<Rightarrow> request\<lparr>rq_headers := hdr_insert ops (rq_headers request) HOST v\<rparr>
           | None \<Rightarrow> request)
         else request)
      in Returned (turnkey request options, s))"

text \<open>
  The canned senders.  \<open>build\<close> is the chain of \<open>hyper::Response::builder\<close> with an empty body, which
  fails on an invalid status or header; the closure then panics.
\<close>

definition canned_response_sender ::
  "'m header_map \<Rightarrow> (u16 \<Rightarrow> (rstr \<times> rstr) list \<Rightarrow> ('m, 'f, 'x) response option) \<Rightarrow>
   u16 \<Rightarrow> (rstr \<times> rstr) list \<Rightarrow> ('m, 'b, 'o, 'f, 'x, (rstr \<times> rstr) list option) SendFn" where
  "canned_response_sender ops build status response_headers seen req options =
     (let headers = map (\<lambda>(n, v). (n, from_utf8_lossy v)) (hdr_iter ops (rq_headers req)) in
      case build status response_headers of
        None \<Rightarrow> Panicked
      | Some resp \<Rightarrow> Returned (Ready (Ok (resp, Ready (Ok ()))), Some headers))"

definition canned_status_sender ::
  "'m header_map \<Rightarrow> (u16 \<Rightarrow> (rstr \<times> rstr) list \<Rightarrow> ('m, 'f, 'x) response option) \<Rightarrow>
   u16 \<Rightarrow> ('m, 'b, 'o, 'f, 'x, bool) SendFn" where
  "canned_status_sender ops build status reached req options =
     (case canned_response_sender ops build status [] None req options of
        Returned (fut, _) \<Rightarrow> Returned (fut, True)
      | Panicked \<Rightarrow> Panicked)"

section \<open>Hooks\<close>

record ('m, 'b, 'o, 'f, 'x, 's) GatedHttpHooks =
  allowlist :: "rstr list"
  send :: "('m, 'b, 'o, 'f, 'x, 's) SendFn"
  send_state :: 's
  dropped_request_headers :: nat

definition with_sender ::
  "rstr list \<Rightarrow> ('m, 'b, 'o, 'f, 'x, 's) SendFn \<Rightarrow> 's \<Rightarrow> ('m, 'b, 'o, 'f, 'x, 's) GatedHttpHooks" where
  "with_sender origins f s =
     \<lparr>allowlist = origins, send = f, send_state = s, dropped_request_headers = 0\<rparr>"

definition hooks_new ::
  "'m header_map \<Rightarrow> (rstr \<Rightarrow> bytes option) \<Rightarrow>
   (('m, 'b) request \<Rightarrow> 'o option \<Rightarrow> ('m, 'f, 'x) SendFuture) \<Rightarrow> rstr list \<Rightarrow>
   ('m, 'b, 'o, 'f, 'x, unit) GatedHttpHooks" where
  "hooks_new ops from_str turnkey origins = with_sender origins (default_sender ops from_str turnkey) ()"

definition denial_to_error :: "FetchDenial \<Rightarrow> 'x HttpError" where
  "denial_to_error denial = HttpRequestDenied"

definition gate ::
  "'m header_map \<Rightarrow> ('m, 'b, 'o, 'f, 'x, 's) GatedHttpHooks \<Rightarrow> ('m, 'b) request \<Rightarrow>
   (unit, 'x HttpError) result" where
  "gate ops hooks request =
     (let scheme = unwrap_or [] (uri_scheme_str (rq_uri request));
          host = unwrap_or [] (uri_host (rq_uri request))
      in case check_request scheme host (allowlist hooks) of
           Inl denial \<Rightarrow> Err (denial_to_error denial)
         | Inr _ \<Rightarrow>
             if list_ex is_reserved_credential_header (hdr_keys ops (rq_headers request))
             then Err (denial_to_error CredentialUnsupportedTransport)
             else Ok ())"

definition retain_allowed_request_headers :: "'m header_map \<Rightarrow> 'm \<Rightarrow> nat \<times> 'm" where
  "retain_allowed_request_headers ops headers =
     (let disallowed = filter (\<lambda>name. \<not> is_allowed_request_header name) (hdr_keys ops headers) in
      foldl (\<lambda>(dropped, h) name. (dropped + length (hdr_get_all ops h name), hdr_remove ops h name))
        (0, headers) disallowed)"

definition strip_response_headers :: "'m header_map \<Rightarrow> 'm \<Rightarrow> 'm" where
  "strip_response_headers ops headers = foldl (hdr_remove ops) headers STRIPPED_RESPONSE_HEADERS"

definition is_forbidden :: "rstr list \<Rightarrow> rstr \<Rightarrow> bool" where
  "is_forbidden default_forbidden name \<longleftrightarrow>
     List.member default_forbidden name \<or> is_stripped_response_header name"

definition is_dns_like_connect_error :: "io_error \<Rightarrow> bool" where
  "is_dns_like_connect_error e \<longleftrightarrow>
     io_kind e = AddrNotAvailable \<or>
     starts_with (io_text e) (lit ''failed to lookup address information'')"

fun scrub_error :: "'x HttpError \<Rightarrow> 'x HttpError" where
  "scrub_error (InternalErr _) = InternalErr None"
| "scrub_error (DnsErr _ info) = DnsErr None info"
| "scrub_error (TlsAlertReceived alert _) = TlsAlertReceived alert None"
| "scrub_error (Connect e) = (if is_dns_like_connect_error e then DnsErr None None else Connect e)"
| "scrub_error other = other"

text \<open>The body of the wrapped future: what becomes of the result once the inner send resolves.\<close>

fun sanitize_result ::
  "'m header_map \<Rightarrow> (('m, 'f, 'x) response \<times> 'x IoFuture, 'x HttpError) result \<Rightarrow>
   (('m, 'f, 'x) response \<times> 'x IoFuture, 'x HttpError) result" where
  "sanitize_result ops (Inr (response, io)) =
     Ok (response\<lparr>rs_headers := strip_response_headers ops (rs_headers response),
           rs_body := map_wasi_body (\<lambda>f. f) scrub_error (rs_body response)\<rparr>,
         map_future (map_err scrub_error) io)"
| "sanitize_result ops (Inl err) = Err (scrub_error err)"

definition sanitize_send ::
  "'m header_map \<Rightarrow> ('m, 'f, 'x) SendFuture \<Rightarrow> ('m, 'f, 'x) SendFuture" where
  "sanitize_send ops fut = map_future (sanitize_result ops) fut"

definition send_sanitized ::
  "'m header_map \<Rightarrow> ('m, 'b, 'o, 'f, 'x, 's) GatedHttpHooks \<Rightarrow> ('m, 'b) request \<Rightarrow> 'o option \<Rightarrow>
   (('m, 'f, 'x) SendFuture \<times> ('m, 'b, 'o, 'f, 'x, 's) GatedHttpHooks) outcome" where
  "send_sanitized ops hooks request options =
     (let (dropped, headers) = retain_allowed_request_headers ops (rq_headers request);
          hooks = hooks\<lparr>dropped_request_headers := dropped_request_headers hooks + dropped\<rparr>
      in case send hooks (send_state hooks) (request\<lparr>rq_headers := headers\<rparr>) options of
           Returned (fut, s) \<Rightarrow> Returned (sanitize_send ops fut, hooks\<lparr>send_state := s\<rparr>)
         | Panicked \<Rightarrow> Panicked)"

definition send_request ::
  "'m header_map \<Rightarrow> ('m, 'b, 'o, 'f, 'x, 's) GatedHttpHooks \<Rightarrow> ('m, 'b) request \<Rightarrow> 'o option \<Rightarrow>
   (('m, 'f, 'x) SendFuture \<times> ('m, 'b, 'o, 'f, 'x, 's) GatedHttpHooks) outcome" where
  "send_request ops hooks request options =
     (case gate ops hooks request of
        Inl err \<Rightarrow> Returned (failed_send err, hooks)
      | Inr _ \<Rightarrow> send_sanitized ops hooks request options)"

text \<open>The two forms of the forbidden-header predicate, and the DNS error of the hooks.\<close>

definition is_forbidden_header :: "rstr list \<Rightarrow> rstr \<Rightarrow> bool" where
  "is_forbidden_header default_forbidden name = is_forbidden default_forbidden name"

definition forbidden_header_filter :: "rstr list \<Rightarrow> rstr \<Rightarrow> bool" where
  "forbidden_header_filter default_forbidden = is_forbidden default_forbidden"

definition p2_error_from_dns :: "'e \<Rightarrow> 'x p2_ErrorCode" where
  "p2_error_from_dns err = DnsError \<lparr>dns_rcode = None, dns_info_code = None\<rparr>"

section \<open>The store state\<close>

text \<open>\<open>'t\<close>, \<open>'c\<close> and \<open>'h\<close> are the resource table and the two contexts of the WASI crates.\<close>

record ('t, 'c, 'h, 'm, 'b, 'o, 'f, 'x, 's) GoGuestState =
  gs_table :: 't
  gs_ctx :: 'c
  gs_http_ctx :: 'h
  http_hooks :: "('m, 'b, 'o, 'f, 'x, 's) GatedHttpHooks"
  harness :: CapstoneHarness

record ('t, 'c, 'h) wasi_defaults =
  table_new :: 't
  wasi_ctx_built :: 'c
  wasi_http_ctx_new :: 'h

definition with_origins_and_sender ::
  "('t, 'c, 'h) wasi_defaults \<Rightarrow> bool \<Rightarrow> rstr list \<Rightarrow> ('m, 'b, 'o, 'f, 'x, 's) SendFn \<Rightarrow> 's \<Rightarrow>
   ('t, 'c, 'h, 'm, 'b, 'o, 'f, 'x, 's) GoGuestState" where
  "with_origins_and_sender W grant origins f s =
     \<lparr>gs_table = table_new W, gs_ctx = wasi_ctx_built W, gs_http_ctx = wasi_http_ctx_new W,
      http_hooks = with_sender origins f s, harness = capstone_new grant\<rparr>"

definition with_origins ::
  "'m header_map \<Rightarrow> (rstr \<Rightarrow> bytes option) \<Rightarrow>
   (('m, 'b) request \<Rightarrow> 'o option \<Rightarrow> ('m, 'f, 'x) SendFuture) \<Rightarrow> ('t, 'c, 'h) wasi_defaults \<Rightarrow> bool \<Rightarrow>
   rstr list \<Rightarrow> ('t, 'c, 'h, 'm, 'b, 'o, 'f, 'x, unit) GoGuestState" where
  "with_origins ops from_str turnkey W grant origins =
     \<lparr>gs_table = table_new W, gs_ctx = wasi_ctx_built W, gs_http_ctx = wasi_http_ctx_new W,
      http_hooks = hooks_new ops from_str turnkey origins, harness = capstone_new grant\<rparr>"

definition go_guest_new ::
  "'m header_map \<Rightarrow> (rstr \<Rightarrow> bytes option) \<Rightarrow>
   (('m, 'b) request \<Rightarrow> 'o option \<Rightarrow> ('m, 'f, 'x) SendFuture) \<Rightarrow> ('t, 'c, 'h) wasi_defaults \<Rightarrow> bool \<Rightarrow>
   ('t, 'c, 'h, 'm, 'b, 'o, 'f, 'x, unit) GoGuestState" where
  "go_guest_new ops from_str turnkey W grant = with_origins ops from_str turnkey W grant []"

section \<open>The header map\<close>

text \<open>
  What \<open>hyper\<close> documents of its \<open>HeaderMap\<close>: \<open>keys\<close> yields each name present once, names are
  normalised, \<open>remove\<close> drops every value of a name and \<open>insert\<close> replaces them by one.
\<close>

definition header_map_laws :: "'m header_map \<Rightarrow> bool" where
  "header_map_laws ops \<longleftrightarrow>
     (\<forall>m. distinct (hdr_keys ops m)) \<and>
     (\<forall>m n. n \<in> set (hdr_keys ops m) \<longleftrightarrow> hdr_get_all ops m n \<noteq> []) \<and>
     (\<forall>m n. hdr_contains_key ops m n \<longleftrightarrow> hdr_get_all ops m n \<noteq> []) \<and>
     (\<forall>m n. hdr_get_all ops m n \<noteq> [] \<longrightarrow> header_key n = n) \<and>
     (\<forall>m k n. hdr_get_all ops (hdr_remove ops m k) n = (if n = k then [] else hdr_get_all ops m n)) \<and>
     (\<forall>m k v n. header_key k = k \<longrightarrow>
        hdr_get_all ops (hdr_insert ops m k v) n = (if n = k then [v] else hdr_get_all ops m n))"

lemma header_map_lawsD:
  assumes "header_map_laws ops"
  shows "distinct (hdr_keys ops m)"
    and "n \<in> set (hdr_keys ops m) \<longleftrightarrow> hdr_get_all ops m n \<noteq> []"
    and "hdr_contains_key ops m n \<longleftrightarrow> hdr_get_all ops m n \<noteq> []"
    and "hdr_get_all ops m n \<noteq> [] \<Longrightarrow> header_key n = n"
    and "hdr_get_all ops (hdr_remove ops m k) n = (if n = k then [] else hdr_get_all ops m n)"
    and "header_key k = k \<Longrightarrow>
      hdr_get_all ops (hdr_insert ops m k v) n = (if n = k then [v] else hdr_get_all ops m n)"
  using assms unfolding header_map_laws_def by blast+

lemma remove_all:
  assumes laws: "header_map_laws ops"
  shows "hdr_get_all ops (foldl (hdr_remove ops) m names) n =
    (if n \<in> set names then [] else hdr_get_all ops m n)"
  by (induction names arbitrary: m) (auto simp: header_map_lawsD(5) [OF laws])

lemma retain_fold:
  assumes laws: "header_map_laws ops" and "distinct names"
  shows "foldl (\<lambda>(dropped, h) name. (dropped + length (hdr_get_all ops h name), hdr_remove ops h name))
      (d, m) names =
    (d + (\<Sum>n\<leftarrow>names. length (hdr_get_all ops m n)), foldl (hdr_remove ops) m names)"
  using assms(2)
proof (induction names arbitrary: d m)
  case (Cons k names)
  have "(\<Sum>n\<leftarrow>names. length (hdr_get_all ops (hdr_remove ops m k) n)) =
      (\<Sum>n\<leftarrow>names. length (hdr_get_all ops m n))"
    using Cons.prems
    by (intro arg_cong [of _ _ sum_list] map_cong) (auto simp: header_map_lawsD(5) [OF laws])
  then show ?case using Cons by simp
qed simp

definition dropped_values :: "'m header_map \<Rightarrow> 'm \<Rightarrow> nat" where
  "dropped_values ops m =
     (\<Sum>n\<leftarrow>filter (\<lambda>n. \<not> is_allowed_request_header n) (hdr_keys ops m). length (hdr_get_all ops m n))"

lemma retain_allowed:
  assumes laws: "header_map_laws ops"
  shows "fst (retain_allowed_request_headers ops m) = dropped_values ops m"
    and "hdr_get_all ops (snd (retain_allowed_request_headers ops m)) n =
      (if is_allowed_request_header n then hdr_get_all ops m n else [])"
proof -
  let ?names = "filter (\<lambda>name. \<not> is_allowed_request_header name) (hdr_keys ops m)"
  have "retain_allowed_request_headers ops m =
      (dropped_values ops m, foldl (hdr_remove ops) m ?names)"
    using retain_fold [OF laws, of ?names 0 m] header_map_lawsD(1) [OF laws]
    by (simp add: retain_allowed_request_headers_def dropped_values_def)
  then show "fst (retain_allowed_request_headers ops m) = dropped_values ops m"
    and "hdr_get_all ops (snd (retain_allowed_request_headers ops m)) n =
      (if is_allowed_request_header n then hdr_get_all ops m n else [])"
    using header_map_lawsD(2) [OF laws, of n m] by (auto simp: remove_all [OF laws])
qed

lemma strip_removes:
  assumes laws: "header_map_laws ops" and "is_stripped_response_header n"
  shows "hdr_get_all ops (strip_response_headers ops m) n = []"
proof (rule ccontr)
  assume *: "hdr_get_all ops (strip_response_headers ops m) n \<noteq> []"
  then have "n \<notin> set STRIPPED_RESPONSE_HEADERS"
    by (auto simp: strip_response_headers_def remove_all [OF laws])
  moreover have "header_key n = n" using header_map_lawsD(4) [OF laws *] .
  ultimately show False using assms(2) by (simp add: is_stripped_response_header_def)
qed

section \<open>The hooks\<close>

definition request_scheme :: "('m, 'b) request \<Rightarrow> rstr" where
  "request_scheme r = unwrap_or [] (uri_scheme_str (rq_uri r))"

definition request_host :: "('m, 'b) request \<Rightarrow> rstr" where
  "request_host r = unwrap_or [] (uri_host (rq_uri r))"

lemma gate_Ok_iff:
  assumes laws: "header_map_laws ops"
  shows "gate ops hooks r = Ok () \<longleftrightarrow>
    check_request (request_scheme r) (request_host r) (allowlist hooks) = Ok () \<and>
    (\<forall>n. is_reserved_credential_header n \<longrightarrow> hdr_get_all ops (rq_headers r) n = [])"
  using header_map_lawsD(2) [OF laws]
  by (auto simp: gate_def request_scheme_def request_host_def denial_to_error_def list_ex_iff
      split: sum.splits)

lemma gate_Err: "gate ops hooks r = Inl e \<Longrightarrow> e = HttpRequestDenied"
  by (auto simp: gate_def denial_to_error_def Let_def split: sum.splits if_splits)

text \<open>The request the sender gets for \<open>r\<close>.\<close>

definition policed :: "'m header_map \<Rightarrow> ('m, 'b) request \<Rightarrow> ('m, 'b) request" where
  "policed ops r = r\<lparr>rq_headers := snd (retain_allowed_request_headers ops (rq_headers r))\<rparr>"

lemma policed_fields [simp]:
  "rq_uri (policed ops r) = rq_uri r" "rq_rest (policed ops r) = rq_rest r"
  by (simp_all add: policed_def)

lemma policed_headers:
  "header_map_laws ops \<Longrightarrow>
   hdr_get_all ops (rq_headers (policed ops r)) n =
     (if is_allowed_request_header n then hdr_get_all ops (rq_headers r) n else [])"
  by (simp add: policed_def retain_allowed)

lemma send_request_denied:
  "gate ops hooks r = Inl e \<Longrightarrow>
   send_request ops hooks r options = Returned (Ready (Err HttpRequestDenied), hooks)"
  using gate_Err [of ops hooks r e] by (simp add: send_request_def failed_send_def)

lemma send_request_passed:
  "header_map_laws ops \<Longrightarrow> gate ops hooks r = Ok () \<Longrightarrow>
   send_request ops hooks r options =
     (case send hooks (send_state hooks) (policed ops r) options of
        Returned (fut, s) \<Rightarrow> Returned (sanitize_send ops fut,
          hooks\<lparr>dropped_request_headers := dropped_request_headers hooks + dropped_values ops (rq_headers r),
            send_state := s\<rparr>)
      | Panicked \<Rightarrow> Panicked)"
  by (simp add: send_request_def send_sanitized_def policed_def retain_allowed split_beta
      split: outcome.splits)

section \<open>What the guest sees\<close>

text \<open>
  The free text an error would carry to the guest.  \<open>diagnostic_text\<close> is the text that describes the
  failure: internal messages, DNS rcodes, TLS alert messages, and what a connect error that looks
  like a DNS failure is turned into.  \<open>field_text\<close> is the text taken from the message: coding tokens
  and the names of oversized fields; \<open>xt\<close> gives that of the variants the WIT does not list.
\<close>

primrec option_list :: "'a option \<Rightarrow> 'a list" where
  "option_list None = []"
| "option_list (Some x) = [x]"

fun diagnostic_text :: "'x HttpError \<Rightarrow> rstr list" where
  "diagnostic_text (InternalErr t) = option_list t"
| "diagnostic_text (DnsErr t _) = option_list t"
| "diagnostic_text (TlsAlertReceived _ t) = option_list t"
| "diagnostic_text (Connect e) = (if is_dns_like_connect_error e then [io_text e] else [])"
| "diagnostic_text _ = []"

fun field_text :: "('x \<Rightarrow> rstr list) \<Rightarrow> 'x HttpError \<Rightarrow> rstr list" where
  "field_text xt (HttpResponseTransferCoding t) = option_list t"
| "field_text xt (HttpResponseContentCoding t) = option_list t"
| "field_text xt (HttpRequestHeaderSize p) = option_list (Option.bind p fs_field_name)"
| "field_text xt (HttpRequestTrailerSize p) = option_list (fs_field_name p)"
| "field_text xt (HttpResponseHeaderSize p) = option_list (fs_field_name p)"
| "field_text xt (HttpResponseTrailerSize p) = option_list (fs_field_name p)"
| "field_text xt (OtherHttpError x) = xt x"
| "field_text xt _ = []"

definition error_text :: "('x \<Rightarrow> rstr list) \<Rightarrow> 'x HttpError \<Rightarrow> rstr list" where
  "error_text xt e = diagnostic_text e @ field_text xt e"

lemma diagnostic_text_scrub [simp]: "diagnostic_text (scrub_error e) = []"
  by (cases e) simp_all

lemma field_text_scrub [simp]: "field_text xt (scrub_error e) = field_text xt e"
  by (cases e) simp_all

text \<open>
  So the text that still reaches the guest is the field text, all of it: the comment on
  \<open>scrub_error\<close> promises that no upstream detail does.
\<close>

lemma scrub_error_text: "error_text xt (scrub_error e) = field_text xt e"
  by (simp add: error_text_def)

lemma scrub_error_leaves_upstream_text:
  "error_text xt (scrub_error (HttpResponseTransferCoding (Some t))) = [t]"
  "error_text xt (scrub_error (HttpResponseHeaderSize \<lparr>fs_field_name = Some t, fs_field_size = n\<rparr>)) = [t]"
  by (simp_all add: error_text_def)

lemma scrub_error_idem [simp]: "scrub_error (scrub_error e) = scrub_error e"
  by (cases e) simp_all

definition clean_result ::
  "'m header_map \<Rightarrow> (('m, 'f, 'x) response \<times> 'x IoFuture, 'x HttpError) result \<Rightarrow> bool" where
  "clean_result ops r =
     (case r of
        Inl e \<Rightarrow> diagnostic_text e = []
      | Inr (response, io) \<Rightarrow>
          (\<forall>n. is_stripped_response_header n \<longrightarrow> hdr_get_all ops (rs_headers response) n = []) \<and>
          (\<forall>e. e \<in> set2_wasi_body (rs_body response) \<longrightarrow> diagnostic_text e = []) \<and>
          (\<forall>e. Inl e \<in> set_future io \<longrightarrow> diagnostic_text e = []))"

lemma map_err_Err_eq: "Inl e = map_err f r \<longleftrightarrow> (\<exists>e'. r = Inl e' \<and> e = f e')"
  by (cases r) auto

lemma sanitize_result_clean: "header_map_laws ops \<Longrightarrow> clean_result ops (sanitize_result ops r)"
  by (cases "(ops, r)" rule: sanitize_result.cases)
    (auto simp: clean_result_def strip_removes wasi_body.set_map future.set_map map_err_Err_eq)

lemma sanitize_send_clean:
  "header_map_laws ops \<Longrightarrow> r \<in> set_future (sanitize_send ops fut) \<Longrightarrow> clean_result ops r"
  by (auto simp: sanitize_send_def future.set_map sanitize_result_clean)

lemma resolve_at_map: "resolve_at n (map_future f fut) = map_option f (resolve_at n fut)"
  by (induction n arbitrary: fut) (auto split: future.splits)

section \<open>Runs\<close>

text \<open>A sender that also keeps the requests it was handed.\<close>

definition recording ::
  "('m, 'b, 'o, 'f, 'x, 's) SendFn \<Rightarrow> ('m, 'b, 'o, 'f, 'x, 's \<times> ('m, 'b) request list) SendFn" where
  "recording f st r options =
     (case f (fst st) r options of
        Returned (fut, s) \<Rightarrow> Returned (fut, (s, snd st @ [r]))
      | Panicked \<Rightarrow> Panicked)"

text \<open>The requests of one guest, in order, and the futures it gets for them.\<close>

fun send_run ::
  "'m header_map \<Rightarrow> (('m, 'b) request \<times> 'o option) list \<Rightarrow> ('m, 'b, 'o, 'f, 'x, 's) GatedHttpHooks \<Rightarrow>
   (('m, 'f, 'x) SendFuture list \<times> ('m, 'b, 'o, 'f, 'x, 's) GatedHttpHooks) outcome" where
  "send_run ops [] hooks = Returned ([], hooks)"
| "send_run ops ((r, options) # rs) hooks =
     (case send_request ops hooks r options of
        Panicked \<Rightarrow> Panicked
      | Returned (fut, hooks') \<Rightarrow>
          (case send_run ops rs hooks' of
             Panicked \<Rightarrow> Panicked
           | Returned (futs, hooks'') \<Rightarrow> Returned (fut # futs, hooks'')))"

text \<open>A request that may reach the network.\<close>

definition may_leave :: "'m header_map \<Rightarrow> rstr list \<Rightarrow> ('m, 'b) request \<Rightarrow> bool" where
  "may_leave ops origins r \<longleftrightarrow>
     check_request (request_scheme r) (request_host r) origins = Ok () \<and>
     (\<forall>n. hdr_get_all ops (rq_headers r) n \<noteq> [] \<longrightarrow>
        is_allowed_request_header n \<and> \<not> is_credential_header_name n \<and> \<not> is_reserved_credential_header n)"

lemma policed_may_leave:
  "header_map_laws ops \<Longrightarrow> gate ops hooks r = Ok () \<Longrightarrow> may_leave ops (allowlist hooks) (policed ops r)"
  using allowed_not_credential reserved_not_allowed
  by (auto simp: may_leave_def policed_headers gate_Ok_iff request_scheme_def request_host_def)

lemma recorded_step:
  assumes laws: "header_map_laws ops" and send: "send hooks = recording f"
    and step: "send_request ops hooks r options = Returned (fut, hooks')"
  shows "send hooks' = recording f \<and> allowlist hooks' = allowlist hooks \<and>
    (\<forall>res \<in> set_future fut. clean_result ops res) \<and>
    (snd (send_state hooks') = snd (send_state hooks) \<or>
     may_leave ops (allowlist hooks) (policed ops r) \<and>
       snd (send_state hooks') = snd (send_state hooks) @ [policed ops r])"
proof (cases "gate ops hooks r")
  case (Inl e)
  then show ?thesis
    using step send send_request_denied [of ops hooks r e options] by (auto simp: clean_result_def)
next
  case (Inr u)
  then have pass: "gate ops hooks r = Ok ()" by simp
  show ?thesis
    using step send policed_may_leave [OF laws pass] sanitize_send_clean [OF laws]
    by (auto simp: send_request_passed [OF laws pass] recording_def split: outcome.splits prod.splits)
qed

lemma recorded_run:
  assumes laws: "header_map_laws ops"
  shows "send hooks = recording f \<Longrightarrow> send_run ops rs hooks = Returned (futs, hooks') \<Longrightarrow>
    list_all (may_leave ops (allowlist hooks)) (snd (send_state hooks)) \<Longrightarrow>
    list_all (may_leave ops (allowlist hooks)) (snd (send_state hooks')) \<and>
    (\<forall>fut \<in> set futs. \<forall>res \<in> set_future fut. clean_result ops res)"
proof (induction rs arbitrary: hooks futs)
  case (Cons c rs)
  obtain r options where c: "c = (r, options)" by (cases c)
  from Cons.prems(2) obtain fut mid futs' where
    step: "send_request ops hooks r options = Returned (fut, mid)"
    and rest: "send_run ops rs mid = Returned (futs', hooks')" and futs: "futs = fut # futs'"
    by (auto simp: c split: outcome.splits prod.splits)
  note one = recorded_step [OF laws Cons.prems(1) step]
  then have "list_all (may_leave ops (allowlist mid)) (snd (send_state mid))"
    using Cons.prems(3) by auto
  then show ?case using Cons.IH [OF _ rest] one futs by auto
qed simp

section \<open>Guests\<close>

text \<open>A guest interleaves its HTTP requests with its capability calls.\<close>

datatype ('m, 'b, 'o) guest_call = GuestHttp "('m, 'b) request" "'o option" | GuestCap cap_call

fun guest_run ::
  "'m header_map \<Rightarrow> ('m, 'b, 'o) guest_call list \<Rightarrow> ('t, 'c, 'h, 'm, 'b, 'o, 'f, 'x, 's) GoGuestState \<Rightarrow>
   (('m, 'f, 'x) SendFuture list \<times> ('t, 'c, 'h, 'm, 'b, 'o, 'f, 'x, 's) GoGuestState) outcome" where
  "guest_run ops [] g = Returned ([], g)"
| "guest_run ops (GuestCap c # cs) g = guest_run ops cs (g\<lparr>harness := capstone_step c (harness g)\<rparr>)"
| "guest_run ops (GuestHttp r options # cs) g =
     (case send_request ops (http_hooks g) r options of
        Panicked \<Rightarrow> Panicked
      | Returned (fut, hooks') \<Rightarrow>
          (case guest_run ops cs (g\<lparr>http_hooks := hooks'\<rparr>) of
             Panicked \<Rightarrow> Panicked
           | Returned (futs, g') \<Rightarrow> Returned (fut # futs, g')))"

fun http_calls :: "('m, 'b, 'o) guest_call list \<Rightarrow> (('m, 'b) request \<times> 'o option) list" where
  "http_calls [] = []"
| "http_calls (GuestHttp r options # cs) = (r, options) # http_calls cs"
| "http_calls (GuestCap c # cs) = http_calls cs"

fun cap_calls :: "('m, 'b, 'o) guest_call list \<Rightarrow> cap_call list" where
  "cap_calls [] = []"
| "cap_calls (GuestHttp r options # cs) = cap_calls cs"
| "cap_calls (GuestCap c # cs) = c # cap_calls cs"

text \<open>The two halves of the store state do not see each other.\<close>

lemma guest_run_split:
  "guest_run ops cs g =
     (case send_run ops (http_calls cs) (http_hooks g) of
        Panicked \<Rightarrow> Panicked
      | Returned (futs, hooks') \<Rightarrow>
          Returned (futs, g\<lparr>http_hooks := hooks', harness := capstone_run (cap_calls cs) (harness g)\<rparr>))"
proof (induction ops cs g rule: guest_run.induct)
  case (2 ops c cs g)
  then show ?case by (auto split: outcome.splits prod.splits)
next
  case (3 ops r options cs g)
  then show ?case by (auto split: outcome.splits prod.splits)
qed simp

lemma no_origin: "check_request scheme host [] \<noteq> Ok ()"
  by (simp add: check_request_def origin_allowed_def)

lemma send_run_denied:
  "allowlist hooks = [] \<Longrightarrow>
   send_run ops rs hooks = Returned (replicate (length rs) (Ready (Err HttpRequestDenied)), hooks)"
proof (induction rs)
  case (Cons c rs)
  obtain r options where c: "c = (r, options)" by (cases c)
  have "gate ops hooks r \<noteq> Ok ()"
    using Cons.prems no_origin by (auto simp: gate_def Let_def split: sum.splits)
  then have "send_request ops hooks r options = Returned (Ready (Err HttpRequestDenied), hooks)"
    using send_request_denied [of ops hooks r _ options] by (cases "gate ops hooks r") auto
  then show ?case using Cons by (simp add: c)
qed simp

section \<open>An association-list header map\<close>

definition alist_headers :: "(rstr \<times> bytes) list header_map" where
  "alist_headers =
     \<lparr>hdr_keys = (\<lambda>m. remdups (filter (\<lambda>n. header_key n = n) (map fst m))),
      hdr_get_all = (\<lambda>m n. if header_key n = n then map snd (filter (\<lambda>e. fst e = n) m) else []),
      hdr_iter = (\<lambda>m. filter (\<lambda>e. header_key (fst e) = fst e) m),
      hdr_contains_key = (\<lambda>m n. header_key n = n \<and> n \<in> set (map fst m)),
      hdr_remove = (\<lambda>m k. filter (\<lambda>e. fst e \<noteq> k) m),
      hdr_insert = (\<lambda>m k v. filter (\<lambda>e. fst e \<noteq> k) m @ [(k, v)])\<rparr>"

lemma alist_headers_laws: "header_map_laws alist_headers"
proof -
  have both: "filter (\<lambda>e. fst e \<noteq> k \<and> fst e = n) m = filter (\<lambda>e. fst e = n) m" if "n \<noteq> k"
    for n k :: rstr and m :: "(rstr \<times> bytes) list"
    using that by (intro filter_cong) auto
  have present: "filter (\<lambda>e. fst e = n) m = [] \<longleftrightarrow> n \<notin> fst ` set m" for n :: rstr and m :: "(rstr \<times> bytes) list"
    by (auto simp: filter_empty_conv)
  show ?thesis
    by (auto simp: header_map_laws_def alist_headers_def both present)
qed

definition demo_request :: "((rstr \<times> bytes) list, unit) request" where
  "demo_request =
     \<lparr>rq_uri = \<lparr>uri_scheme_str = Some (lit ''https''), uri_host = Some (lit ''x.io''),
        uri_authority = Some (lit ''x.io'')\<rparr>,
      rq_headers = [(lit ''accept'', [42]), (lit ''host'', [97])], rq_rest = ()\<rparr>"

definition leaky_sender :: "((rstr \<times> bytes) list, unit, unit, u8, unit, nat) SendFn" where
  "leaky_sender s r options = Returned (Ready (Err (InternalErr (Some (lit ''secret'')))), Suc s)"

definition demo_turnkey ::
  "((rstr \<times> bytes) list, unit) request \<Rightarrow> unit option \<Rightarrow> ((rstr \<times> bytes) list, u8, unit) SendFuture" where
  "demo_turnkey r options = Pending (Ready (Err HttpRequestDenied))"

lemmas name_eval = trim_def trim_start_def trim_end_def is_whitespace_def to_ascii_lowercase_def
  ascii_lower_def is_ascii_uppercase_def eq_ignore_ascii_case_def

lemma demo_check: "check_request (lit ''https'') (lit ''x.io'') [lit ''x.io''] = Ok ()"
proof -
  have "parse_ip_addr (lit ''x.io'') = None"
    using parse_not_address [of 120 "lit ''.io''"] by (simp add: lit_def to_digit_def)
  then show ?thesis
    by (simp add: check_request_def origin_allowed_def origin_matches_def lit_def name_eval ends_with_def
        starts_with_def)
qed

lemma demo_gate: "allowlist hooks = [lit ''x.io''] \<Longrightarrow> gate alist_headers hooks demo_request = Ok ()"
  by (simp add: gate_def demo_request_def demo_check alist_headers_def)
    (simp add: name_eval is_reserved_credential_header_def RESERVED_CREDENTIAL_HEADER_def lit_def)

section \<open>Properties\<close>

text \<open>
  C18. One outbound request through the hooks.  A refused request resolves at once to
  \<open>HttpRequestDenied\<close>, whatever it was refused for, and neither the sender nor the hooks' state is
  touched.  A request passes exactly when the fetch gate takes its scheme and host and no reserved
  credential header is present; the sender then gets the same URI and body with the headers cut to
  the allowlist, the counter grows by the values cut, and the guest gets the sanitised send.
\<close>

theorem send_request_policy:
  assumes "header_map_laws ops"
  shows "(gate ops hooks r = Ok () \<longleftrightarrow>
      check_request (request_scheme r) (request_host r) (allowlist hooks) = Ok () \<and>
      (\<forall>n. is_reserved_credential_header n \<longrightarrow> hdr_get_all ops (rq_headers r) n = [])) \<and>
    (gate ops hooks r \<noteq> Ok () \<longrightarrow>
      send_request ops hooks r options = Returned (Ready (Err HttpRequestDenied), hooks)) \<and>
    (gate ops hooks r = Ok () \<longrightarrow>
      (\<exists>r'. rq_uri r' = rq_uri r \<and> rq_rest r' = rq_rest r \<and>
        (\<forall>n. hdr_get_all ops (rq_headers r') n =
           (if is_allowed_request_header n then hdr_get_all ops (rq_headers r) n else [])) \<and>
        send_request ops hooks r options =
          (case send hooks (send_state hooks) r' options of
             Returned (fut, s) \<Rightarrow> Returned (sanitize_send ops fut,
               hooks\<lparr>dropped_request_headers :=
                   dropped_request_headers hooks + dropped_values ops (rq_headers r),
                 send_state := s\<rparr>)
           | Panicked \<Rightarrow> Panicked)))"
proof -
  have denied: "send_request ops hooks r options = Returned (Ready (Err HttpRequestDenied), hooks)"
    if "gate ops hooks r \<noteq> Ok ()"
    using that send_request_denied [of ops hooks r _ options] by (cases "gate ops hooks r") auto
  show ?thesis
    using gate_Ok_iff [OF assms, of hooks r] denied policed_headers [OF assms, of r]
      send_request_passed [OF assms, of hooks r options] policed_fields [of ops r]
    by blast
qed

theorem send_request_policy_witness:
  "gate alist_headers (with_sender [lit ''x.io''] leaky_sender 0) demo_request = Ok () \<and>
   send_request alist_headers (with_sender [lit ''x.io''] leaky_sender 0) demo_request None =
     Returned (sanitize_send alist_headers (Ready (Err (InternalErr (Some (lit ''secret''))))),
       (with_sender [lit ''x.io''] leaky_sender 0)
         \<lparr>dropped_request_headers := dropped_values alist_headers (rq_headers demo_request),
          send_state := 1\<rparr>)"
proof -
  let ?h = "with_sender [lit ''x.io''] leaky_sender 0"
  have gate: "gate alist_headers ?h demo_request = Ok ()" by (simp add: demo_gate with_sender_def)
  then show ?thesis
    using send_request_policy [OF alist_headers_laws, of ?h demo_request None]
    by (auto simp: leaky_sender_def with_sender_def)
qed

text \<open>
  C2. Nothing else leaves and nothing else comes back.  Whatever requests a guest makes in
  whatever order, and whatever the sender does, every request the sender was handed passes the fetch
  gate against the allowlist and carries allowlisted, non-credential headers only; and every
  result any of the guest's futures can resolve to has no cookie-setting header, and its error, the
  errors of its body stream and a late connection error carry no internal message, DNS rcode or TLS
  alert message, nor a connect error the runtime would turn into a DNS rcode.  The other text an
  error can carry is not removed (\<open>scrub_error_text\<close>).
\<close>

theorem sender_sees_only_policed:
  assumes "header_map_laws ops"
    and "send_run ops rs (with_sender origins (recording f) (s, [])) = Returned (futs, hooks')"
  shows "list_all (may_leave ops origins) (snd (send_state hooks')) \<and>
    (\<forall>fut res. fut \<in> set futs \<longrightarrow> res \<in> set_future fut \<longrightarrow> clean_result ops res)"
proof -
  let ?hooks = "with_sender origins (recording f) (s, [])"
  have "send ?hooks = recording f" "list_all (may_leave ops (allowlist ?hooks)) (snd (send_state ?hooks))"
    by (simp_all add: with_sender_def)
  then show ?thesis
    using recorded_run [OF assms(1) _ assms(2)] by (simp add: with_sender_def)
qed

theorem sender_sees_only_policed_witness:
  "\<exists>futs hooks'.
     send_run alist_headers [(demo_request, None)]
       (with_sender [lit ''x.io''] (recording leaky_sender) (0, [])) = Returned (futs, hooks') \<and>
     length (snd (send_state hooks')) = 1 \<and>
     list_all (may_leave alist_headers [lit ''x.io'']) (snd (send_state hooks'))"
proof -
  let ?h = "with_sender [lit ''x.io''] (recording leaky_sender) (0, [])"
  have "gate alist_headers ?h demo_request = Ok ()" by (simp add: demo_gate with_sender_def)
  note sent = send_request_passed [OF alist_headers_laws this, of None]
  obtain futs hooks' where run: "send_run alist_headers [(demo_request, None)] ?h = Returned (futs, hooks')"
    and "length (snd (send_state hooks')) = 1"
    by (simp add: sent) (simp add: with_sender_def recording_def leaky_sender_def)
  with sender_sees_only_policed [OF alist_headers_laws run] show ?thesis by blast
qed

text \<open>
  The \<open>Host\<close> header is the host's, not the plugin's: with the production sender, a request that
  passes the gate reaches the network with one \<open>Host\<close> value, made from the authority of the URI that
  was checked, whatever \<open>Host\<close> values the plugin set.
\<close>

theorem host_from_authority:
  assumes laws: "header_map_laws ops"
    and "gate ops (hooks_new ops from_str turnkey origins) r = Ok ()"
    and "uri_authority (rq_uri r) = Some a" and "from_str a = Some v"
  shows "\<exists>r' hooks'. send_request ops (hooks_new ops from_str turnkey origins) r options =
      Returned (sanitize_send ops (turnkey r' options), hooks') \<and>
    hdr_get_all ops (rq_headers r') HOST = [v] \<and> rq_uri r' = rq_uri r"
proof -
  have key: "header_key HOST = HOST"
    by (simp add: HOST_def lit_def trim_def trim_start_def trim_end_def is_whitespace_def
        to_ascii_lowercase_def ascii_lower_def is_ascii_uppercase_def)
  have "HOST \<notin> set ALLOWED_REQUEST_HEADERS"
    by (simp add: HOST_def ALLOWED_REQUEST_HEADERS_def lit_def)
  then have "\<not> is_allowed_request_header HOST" by (simp add: is_allowed_iff key)
  then have none: "hdr_get_all ops (rq_headers (policed ops r)) HOST = []"
    by (simp add: policed_headers [OF laws])
  let ?r = "(policed ops r)\<lparr>rq_headers := hdr_insert ops (rq_headers (policed ops r)) HOST v\<rparr>"
  have "default_sender ops from_str turnkey () (policed ops r) options = Returned (turnkey ?r options, ())"
    using assms none header_map_lawsD(3) [OF laws, of "rq_headers (policed ops r)" HOST]
    by (simp add: default_sender_def)
  then have sent: "send_request ops (hooks_new ops from_str turnkey origins) r options =
      Returned (sanitize_send ops (turnkey ?r options),
        (hooks_new ops from_str turnkey origins)\<lparr>dropped_request_headers :=
          dropped_values ops (rq_headers r)\<rparr>)"
    unfolding send_request_passed [OF laws assms(2)] by (simp add: hooks_new_def with_sender_def)
  have "hdr_get_all ops (rq_headers ?r) HOST = [v]"
    using header_map_lawsD(6) [OF laws key, of "rq_headers (policed ops r)" v HOST] by simp
  moreover have "rq_uri ?r = rq_uri r" by simp
  ultimately show ?thesis using sent by blast
qed

theorem host_from_authority_witness:
  "\<exists>r' hooks'. send_request alist_headers
       (hooks_new alist_headers (\<lambda>a. Some (as_bytes a)) demo_turnkey [lit ''x.io'']) demo_request None =
     Returned (sanitize_send alist_headers (demo_turnkey r' None), hooks') \<and>
   hdr_get_all alist_headers (rq_headers r') HOST = [as_bytes (lit ''x.io'')] \<and>
   rq_uri r' = rq_uri demo_request"
proof -
  let ?h = "hooks_new alist_headers (\<lambda>a. Some (as_bytes a)) demo_turnkey [lit ''x.io'']"
  have "gate alist_headers ?h demo_request = Ok ()"
    by (simp add: demo_gate hooks_new_def with_sender_def)
  moreover have "uri_authority (rq_uri demo_request) = Some (lit ''x.io'')"
    by (simp add: demo_request_def)
  ultimately show ?thesis
    by (rule host_from_authority [OF alist_headers_laws, of "\<lambda>a. Some (as_bytes a)"]) simp
qed

text \<open>
  C19. The default store state is locked down: a guest started without a grant and without origins
  has every HTTP request refused before the sender is reached, in any interleaving with its
  capability calls, keeps nothing in the store, and leaves the WASI contexts as they were built.
\<close>

theorem guest_locked_down:
  "\<exists>g'. guest_run ops cs (go_guest_new ops from_str turnkey W False) =
       Returned (replicate (length (http_calls cs)) (Ready (Err HttpRequestDenied)), g') \<and>
     http_hooks g' = hooks_new ops from_str turnkey [] \<and>
     harness g' = capstone_run (cap_calls cs) (capstone_new False) \<and>
     capstone_stored_value (harness g') = Map.empty \<and>
     gs_ctx g' = wasi_ctx_built W \<and> gs_http_ctx g' = wasi_http_ctx_new W"
proof -
  let ?g = "go_guest_new ops from_str turnkey W False"
  have hooks: "http_hooks ?g = hooks_new ops from_str turnkey []" "allowlist (http_hooks ?g) = []"
    and harness: "harness ?g = capstone_new False"
    by (simp_all add: go_guest_new_def with_origins_def hooks_new_def with_sender_def)
  let ?g' = "?g\<lparr>harness := capstone_run (cap_calls cs) (harness ?g)\<rparr>"
  have "guest_run ops cs ?g = Returned (replicate (length (http_calls cs)) (Ready (Err HttpRequestDenied)), ?g')"
    unfolding guest_run_split send_run_denied [OF hooks(2)] by simp
  moreover have "http_hooks ?g' = hooks_new ops from_str turnkey []"
    "harness ?g' = capstone_run (cap_calls cs) (capstone_new False)"
    by (simp_all add: hooks harness)
  moreover have "gs_ctx ?g' = wasi_ctx_built W" "gs_http_ctx ?g' = wasi_http_ctx_new W"
    by (simp_all add: go_guest_new_def with_origins_def)
  ultimately show ?thesis using capstone_closed_run(1) [of "cap_calls cs"] by metis
qed

end
