(* ===== verification/Guest_Programs.thy ===== *)
theory Guest_Programs
  imports Plugin_Host
begin

text \<open>
  The typed guest programs of the repository (\<open>test-guest*/src/lib.rs\<close>) and what they compute: the
  host-call probe, the two workspace guests and the storage and events guest.  A program over typed
  imports runs on the in-memory hosts of the crate, or over the JSON wire against a caller; the two
  are compared for every program, and the programs are then evaluated on either.
\<close>

section \<open>The programs\<close>

text \<open>
  A reply has the type of the import it answers; the canonical ABI delivers no other, so these
  readers have one equation each.
\<close>

fun reply_unit :: "reply \<Rightarrow> (unit, ApiError) result" where
  "reply_unit (RUnit r) = r"

fun reply_bytes :: "reply \<Rightarrow> (bytes option, ApiError) result" where
  "reply_bytes (RBytes r) = r"

fun reply_keys :: "reply \<Rightarrow> (rstr list, ApiError) result" where
  "reply_keys (RKeys r) = r"

fun reply_names :: "reply \<Rightarrow> (PortfolioName list, ApiError) result" where
  "reply_names (RNames r) = r"

text \<open>\<open>test-guest-p3\<close>: forward the input through \<open>hostcall\<close> and return the answer.\<close>

definition p3_guest_run :: "bytes \<Rightarrow> component_run" where
  "p3_guest_run input = Import input Finish"

text \<open>\<open>test-guest\<close>: hand the typed list back, or an empty one on an error.\<close>

definition read_names :: "(PortfolioName list, ApiError) result \<Rightarrow> PortfolioName list" where
  "read_names imported = (case imported of Inr names \<Rightarrow> names | Inl _ \<Rightarrow> [])"

definition err_marker :: "ApiError \<Rightarrow> bytes" where
  "err_marker e = as_bytes (lit ''ERR:'' @ code e)"

text \<open>\<open>test-guest-workspace-run\<close>: \<open><id>=<name>;<id>=<name>\<close>.\<close>

definition names_summary :: "PortfolioName list \<Rightarrow> rstr" where
  "names_summary names = join (lit '';'') (map (\<lambda>n. pn_id n @ lit ''='' @ pn_name n) names)"

definition workspace_guest_run :: "ws_call typed_run" where
  "workspace_guest_run = TCall ReadPortfolioNames (\<lambda>r.
     case reply_names r of
       Inr names \<Rightarrow> TFinish (Ok (as_bytes (names_summary names)))
     | Inl e \<Rightarrow> TFinish (Ok (err_marker e)))"

text \<open>\<open>test-guest-storage-events\<close>: any error ends the run with its marker.\<close>

definition or_marker :: "('a, ApiError) result \<Rightarrow> ('a \<Rightarrow> 'c typed_run) \<Rightarrow> 'c typed_run" where
  "or_marker r k = (case r of Inl e \<Rightarrow> TFinish (Ok (err_marker e)) | Inr x \<Rightarrow> k x)"

definition storage_guest_run :: "se_call typed_run" where
  "storage_guest_run =
     TCall (StorageSet (lit ''greeting'') (blit ''hello'')) (\<lambda>r. or_marker (reply_unit r) (\<lambda>_.
     TCall (StorageSet (lit ''count'') [7]) (\<lambda>r. or_marker (reply_unit r) (\<lambda>_.
     TCall (StorageGet (lit ''greeting'')) (\<lambda>r. or_marker (reply_bytes r) (\<lambda>v.
       let greeting = unwrap_or [] v in
     TCall StorageListKeys (\<lambda>r. or_marker (reply_keys r) (\<lambda>keys.
       let count1 = length keys in
     TCall (StorageDelete (lit ''count'')) (\<lambda>r. or_marker (reply_unit r) (\<lambda>_.
     TCall StorageListKeys (\<lambda>r. or_marker (reply_keys r) (\<lambda>keys.
       let count2 = length keys in
     TCall (EventsEmit \<lparr>kind = lit ''ready'', payload = blit ''ok''\<rparr>) (\<lambda>r. or_marker (reply_unit r) (\<lambda>_.
       TFinish (Ok (greeting @
         as_bytes (lit ''|'' @ dec_digits count1 @ lit ''|'' @ dec_digits count2)))))))))))))))))"

section \<open>Running on the hosts in memory\<close>

text \<open>A program whose imports are served by a host in the same store.\<close>

primrec run_hosted ::
  "('c \<Rightarrow> 'h \<Rightarrow> reply \<times> 'h) \<Rightarrow> 'c typed_run \<Rightarrow> 'h \<Rightarrow> (bytes, rstr) result \<times> 'h" where
  "run_hosted host (TFinish r) h = (r, h)"
| "run_hosted host (TTrap e) h = (Err (annotate e), h)"
| "run_hosted host (TCall c k) h = (case host c h of (rep, h') \<Rightarrow> run_hosted host (k rep) h')"

primrec calls_hosted :: "('c \<Rightarrow> 'h \<Rightarrow> reply \<times> 'h) \<Rightarrow> 'c typed_run \<Rightarrow> 'h \<Rightarrow> nat" where
  "calls_hosted host (TFinish r) h = 0"
| "calls_hosted host (TTrap e) h = 0"
| "calls_hosted host (TCall c k) h = (case host c h of (rep, h') \<Rightarrow> Suc (calls_hosted host (k rep) h'))"

text \<open>\<open>storage::Host\<close> and \<open>events::Host\<close> of \<open>StorageEventsHost\<close>.\<close>

fun storage_events_serve :: "se_call \<Rightarrow> StorageEventsHost \<Rightarrow> reply \<times> StorageEventsHost" where
  "storage_events_serve (StorageGet k) h = (RBytes (kv_get h k), h)"
| "storage_events_serve (StorageSet k v) h = apfst RUnit (kv_set h k v)"
| "storage_events_serve (StorageDelete k) h = apfst RUnit (kv_delete h k)"
| "storage_events_serve StorageClear h = apfst RUnit (kv_clear h)"
| "storage_events_serve StorageListKeys h = (RKeys (kv_list_keys h), h)"
| "storage_events_serve (EventsEmit e) h = apfst RUnit (events_emit h e)"

text \<open>\<open>workspace::Host\<close> of \<open>CapstoneHarness\<close>.\<close>

fun capstone_workspace_serve :: "ws_call \<Rightarrow> CapstoneHarness \<Rightarrow> reply \<times> CapstoneHarness" where
  "capstone_workspace_serve ReadPortfolioNames c = (RNames (read_portfolio_names c), c)"
| "capstone_workspace_serve (ReadSheetStructure pid) c = (RSheets (read_sheet_structure c pid), c)"
| "capstone_workspace_serve (ReadAssetCount pid) c = (RCounts (read_asset_count c pid), c)"
| "capstone_workspace_serve ReadCurrencyRates c = (RRates (read_currency_rates c), c)"
| "capstone_workspace_serve (ReadAggregatedValues pid) c = (RTotals (read_aggregated_values c pid), c)"
| "capstone_workspace_serve (WriteExternalFile n b) c = (RUnit (write_external_file c n b), c)"

text \<open>\<open>storage::Host\<close>, \<open>events::Host\<close> and the whole plugin world on \<open>CapstoneHarness\<close>.\<close>

fun capstone_storage_serve :: "se_call \<Rightarrow> CapstoneHarness \<Rightarrow> reply \<times> CapstoneHarness" where
  "capstone_storage_serve (StorageGet k) c = (RBytes (cap_get c k), c)"
| "capstone_storage_serve (StorageSet k v) c = apfst RUnit (cap_set c k v)"
| "capstone_storage_serve (StorageDelete k) c = apfst RUnit (cap_delete c k)"
| "capstone_storage_serve StorageClear c = apfst RUnit (cap_clear c)"
| "capstone_storage_serve StorageListKeys c = (RKeys (cap_list_keys c), c)"
| "capstone_storage_serve (EventsEmit e) c = apfst RUnit (cap_emit c e)"

fun capstone_serve :: "plugin_call \<Rightarrow> CapstoneHarness \<Rightarrow> reply \<times> CapstoneHarness" where
  "capstone_serve (PWorkspace w) c = capstone_workspace_serve w c"
| "capstone_serve (PStorage s) c = capstone_storage_serve s c"
| "capstone_serve (PLog l m) c = (RLogged, log_write c l m)"

section \<open>The wire protocol\<close>

text \<open>The request each wired call sends.\<close>

fun se_request :: "se_call \<Rightarrow> json" where
  "se_request (StorageGet k) = method_req ''storage_get'' [(lit ''key'', JStr k)]"
| "se_request (StorageSet k v) = method_req ''storage_set'' [(lit ''key'', JStr k), (lit ''value'', b64_str v)]"
| "se_request (StorageDelete k) = method_req ''storage_delete'' [(lit ''key'', JStr k)]"
| "se_request StorageClear = method_req ''storage_clear'' []"
| "se_request StorageListKeys = method_req ''storage_list_keys'' []"
| "se_request (EventsEmit e) = method_req ''emit_event''
     [(lit ''name'', JStr (kind e)), (lit ''payload'', b64_str (payload e))]"

fun ws_request :: "ws_call \<Rightarrow> json" where
  "ws_request ReadPortfolioNames = method_req ''read:portfolio_names'' []"
| "ws_request (ReadSheetStructure pid) = method_req ''read:sheet_structure'' [(lit ''portfolio_id'', JStr pid)]"
| "ws_request (ReadAssetCount pid) = method_req ''read:asset_count'' [(lit ''portfolio_id'', JStr pid)]"
| "ws_request ReadCurrencyRates = method_req ''read:currency_rates'' []"
| "ws_request (ReadAggregatedValues pid) = method_req ''read:aggregated_values'' [(lit ''portfolio_id'', JStr pid)]"
| "ws_request (WriteExternalFile n b) = JNull"

fun plugin_request :: "plugin_call \<Rightarrow> json" where
  "plugin_request (PWorkspace w) = ws_request w"
| "plugin_request (PStorage s) = se_request s"
| "plugin_request (PLog l m) = method_req ''log'' [(lit ''level'', JStr (level_str l)), (lit ''message'', JStr m)]"

text \<open>
  The answer a caller writes for the outcome of a call: \<open>{"ok":true,"data":..}\<close>, or
  \<open>{"ok":false,"error":<message>}\<close>, which has no place for an error code.
\<close>

fun data_json :: "reply \<Rightarrow> (json, ApiError) result" where
  "data_json (RNames r) = map_ok json_of_names r"
| "data_json (RSheets r) = map_ok json_of_sheets r"
| "data_json (RCounts r) = map_ok json_of_counts r"
| "data_json (RRates r) = map_ok json_of_rates r"
| "data_json (RTotals r) = map_ok json_of_totals r"
| "data_json (RBytes r) = map_ok (\<lambda>v. case v of Some b \<Rightarrow> b64_str b | None \<Rightarrow> JNull) r"
| "data_json (RKeys r) = map_ok (\<lambda>ks. JArr (map JStr ks)) r"
| "data_json (RUnit r) = map_ok (\<lambda>_. JNull) r"
| "data_json RLogged = Ok JNull"

definition reply_json :: "reply \<Rightarrow> json" where
  "reply_json r =
     (case data_json r of
        Inr d \<Rightarrow> JObj [(lit ''ok'', JBool True), (lit ''data'', d)]
      | Inl e \<Rightarrow> JObj [(lit ''ok'', JBool False), (lit ''error'', JStr (message e))])"

text \<open>What an outcome becomes on its way over the wire: the code of every error is lost.\<close>

definition wire_err :: "ApiError \<Rightarrow> ApiError" where
  "wire_err e = api_err ''permission-denied'' (message e)"

fun wire_reply :: "reply \<Rightarrow> reply" where
  "wire_reply (RNames r) = RNames (map_err wire_err r)"
| "wire_reply (RSheets r) = RSheets (map_err wire_err r)"
| "wire_reply (RCounts r) = RCounts (map_err wire_err r)"
| "wire_reply (RRates r) = RRates (map_err wire_err r)"
| "wire_reply (RTotals r) = RTotals (map_err wire_err r)"
| "wire_reply (RBytes r) = RBytes (map_err wire_err r)"
| "wire_reply (RKeys r) = RKeys (map_err wire_err r)"
| "wire_reply (RUnit r) = RUnit (map_err wire_err r)"
| "wire_reply RLogged = RLogged"

lemma unwrap_reply_json: "unwrap_reply (reply_json r) = map_err wire_err (data_json r)"
proof -
  have "lit ''ok'' \<noteq> lit ''error''" by (simp add: lit_def)
  then show ?thesis
    by (cases "data_json r") (auto simp: reply_json_def unwrap_reply_def wire_err_def key_neqs)
qed

text \<open>
  A caller that answers the wired calls the way a host \<open>serve\<close> would, keeping that host as its state.
\<close>

definition conforms ::
  "serde \<Rightarrow> ('c \<Rightarrow> json) \<Rightarrow> ('c \<Rightarrow> 'h \<Rightarrow> reply \<times> 'h) \<Rightarrow> ('c \<Rightarrow> bool) \<Rightarrow> 'h servicer \<Rightarrow> bool" where
  "conforms S request serve wired svc \<longleftrightarrow>
     (\<forall>c h. wired c \<longrightarrow> (\<exists>bs resp. to_vec S (request c) = Ok bs \<and>
        svc h bs = (resp, snd (serve c h)) \<and> from_slice S resp = Ok (reply_json (fst (serve c h)))))"

primrec all_calls :: "('c \<Rightarrow> bool) \<Rightarrow> 'c typed_run \<Rightarrow> bool" where
  "all_calls P (TFinish r) \<longleftrightarrow> True"
| "all_calls P (TTrap e) \<longleftrightarrow> True"
| "all_calls P (TCall c k) \<longleftrightarrow> P c \<and> (\<forall>r. all_calls P (k r))"

text \<open>The in-memory host as a guest sees it through the wire.\<close>

definition over_wire :: "('c \<Rightarrow> 'h \<Rightarrow> reply \<times> 'h) \<Rightarrow> 'c \<Rightarrow> 'h \<Rightarrow> reply \<times> 'h" where
  "over_wire serve c h = apfst wire_reply (serve c h)"

section \<open>Two hosts for one interface\<close>

text \<open>
  \<open>remote\<close> is a transport-backed host and \<open>serve\<close> an in-memory one for the same calls: for every
  wired call \<open>remote\<close> sends \<open>request\<close> and reads the answer back to what \<open>serve\<close> returned.
\<close>

locale wired_host =
  fixes S :: serde
    and remote :: "'c \<Rightarrow> reply tcall"
    and request :: "'c \<Rightarrow> json"
    and serve :: "'c \<Rightarrow> 'h \<Rightarrow> reply \<times> 'h"
    and wired :: "'c \<Rightarrow> bool"
  assumes remote_law: "wired c \<Longrightarrow> \<exists>gone dec. remote c = tcall_map dec (send_request S gone (request c)) \<and>
    (\<forall>h. dec (map_err wire_err (data_json (fst (serve c h)))) = wire_reply (fst (serve c h)))"
begin

lemma remote_roundtrip:
  assumes "wired c" and "to_vec S (request c) = Ok bs"
  obtains dec where "remote c = Roundtrip bs dec"
    "\<And>h resp. from_slice S resp = Ok (reply_json (fst (serve c h))) \<Longrightarrow>
       dec (Some resp) = wire_reply (fst (serve c h))"
proof -
  from remote_law [OF assms(1)] obtain gone dec where dec:
    "remote c = tcall_map dec (send_request S gone (request c))"
    "\<And>h. dec (map_err wire_err (data_json (fst (serve c h)))) = wire_reply (fst (serve c h))" by blast
  show ?thesis
    by (rule that [of "\<lambda>r. dec (decode_reply S gone r)"])
      (use assms(2) dec in \<open>simp_all add: send_request_def decode_reply_def unwrap_reply_json\<close>)
qed

lemma remote_step:
  assumes "conforms S request serve wired svc" and "wired c"
  obtains bs dec resp where "remote c = Roundtrip bs dec" "svc h bs = (resp, snd (serve c h))"
    "dec (Some resp) = wire_reply (fst (serve c h))"
proof -
  from assms obtain bs resp where wire: "to_vec S (request c) = Ok bs"
    "svc h bs = (resp, snd (serve c h))" "from_slice S resp = Ok (reply_json (fst (serve c h)))"
    unfolding conforms_def by blast
  from remote_roundtrip [OF assms(2) wire(1)] wire that show ?thesis by metis
qed

lemma over_wire_eq: "over_wire serve c h = (wire_reply (fst (serve c h)), snd (serve c h))"
  by (simp add: over_wire_def prod_eq_iff)

lemma drive_eq_hosted:
  assumes "conforms S request serve wired svc"
  shows "all_calls wired run \<Longrightarrow>
    interp svc (drive_with remote run) h = apfst Completed (run_hosted (over_wire serve) run h)"
proof (induction run arbitrary: h)
  case (TCall c k)
  then have "wired c" by simp
  with TCall show ?case
    by (elim remote_step [OF assms, where h = h]) (simp add: over_wire_eq range_eqI)
qed simp_all

lemma calls_eq_hosted:
  assumes "conforms S request serve wired svc"
  shows "all_calls wired run \<Longrightarrow>
    host_calls_made svc (drive_with remote run) h = calls_hosted (over_wire serve) run h"
proof (induction run arbitrary: h)
  case (TCall c k)
  then have "wired c" by simp
  with TCall show ?case
    by (elim remote_step [OF assms, where h = h]) (simp add: over_wire_eq range_eqI)
qed simp_all

end

text \<open>Reading back what the answer carries.\<close>

lemma tcall_map_map: "tcall_map f (tcall_map g tc) = tcall_map (\<lambda>x. f (g x)) tc"
  by (cases tc) simp_all

lemma wire_map: "(\<And>x. g (f x) = x) \<Longrightarrow> map_ok g (map_err w (map_ok f r)) = map_err w r"
  by (cases r) simp_all

lemma wire_unit: "map_ok (\<lambda>_. ()) (map_err w (map_ok (\<lambda>_. d) r)) = map_err w r"
  by (cases r) simp_all

lemma wire_bytes:
  "and_then (map_err w (map_ok (\<lambda>v. case v of Some b \<Rightarrow> b64_str b | None \<Rightarrow> JNull) r)) decode_stored =
     map_err w r"
  by (cases r) (auto simp: decode_stored_def b64_str_def b64_roundtrip split: option.split)

lemma wire_keys: "map_ok decode_keys (map_err w (map_ok (\<lambda>ks. JArr (map JStr ks)) r)) = map_err w r"
  by (rule wire_map) (simp add: decode_keys_def strings_of_map)

lemma wire_workspace:
  "map_ok decode_portfolio_names (map_err w (map_ok json_of_names n)) = map_err w n"
  "map_ok decode_sheet_summary (map_err w (map_ok json_of_sheets s)) = map_err w s"
  "map_ok decode_asset_count (map_err w (map_ok json_of_counts c)) = map_err w c"
  "map_ok (decode_currency_rates S) (map_err w (map_ok json_of_rates r)) = map_err w r"
  "map_ok (decode_aggregated_summary S) (map_err w (map_ok json_of_totals t)) = map_err w t"
  by (rule wire_map, rule decoders_invert)+

lemma data_json_apfst: "data_json (fst (apfst RUnit p)) = map_ok (\<lambda>_. JNull) (fst p)"
  by (cases p) simp

lemma wire_reply_apfst: "wire_reply (fst (apfst RUnit p)) = RUnit (map_err wire_err (fst p))"
  by (cases p) simp

lemmas wire_replies = data_json_apfst wire_reply_apfst wire_unit wire_bytes wire_keys wire_workspace

text \<open>The three pairs of hosts of the crate.\<close>

interpretation wse: wired_host S "storage_events_host S" se_request storage_events_serve "\<lambda>_. True" for S
proof
  fix c :: se_call
  note defs = tse_get_def tse_set_def tse_delete_def tse_clear_def tse_list_keys_def tse_emit_def
    storage_call_def tcall_map_map
  show "\<exists>gone dec. storage_events_host S c = tcall_map dec (send_request S gone (se_request c)) \<and>
      (\<forall>h. dec (map_err wire_err (data_json (fst (storage_events_serve c h)))) =
        wire_reply (fst (storage_events_serve c h)))"
    by (cases c; simp only: storage_events_host.simps se_request.simps defs;
        intro exI conjI refl allI; simp; simp only: wire_replies)
qed

fun workspace_wired :: "ws_call \<Rightarrow> bool" where
  "workspace_wired (WriteExternalFile n b) \<longleftrightarrow> False"
| "workspace_wired _ \<longleftrightarrow> True"

interpretation wws: wired_host S "workspace_host S" ws_request capstone_workspace_serve workspace_wired for S
proof
  fix c assume "workspace_wired c"
  note defs = tw_read_portfolio_names_def tw_read_sheet_structure_def tw_read_asset_count_def
    tw_read_currency_rates_def tw_read_aggregated_values_def workspace_forward_def Let_def tcall_map_map
    option.case
  have set: "json_set (lit ''portfolio_id'') (JStr p) (JObj [(lit ''method'', JStr m)]) =
      JObj [(lit ''method'', JStr m), (lit ''portfolio_id'', JStr p)]" for p m
    by (simp add: lit_def)
  show "\<exists>gone dec. workspace_host S c = tcall_map dec (send_request S gone (ws_request c)) \<and>
      (\<forall>h. dec (map_err wire_err (data_json (fst (capstone_workspace_serve c h)))) =
        wire_reply (fst (capstone_workspace_serve c h)))"
    using \<open>workspace_wired c\<close>
    by (cases c; simp only: workspace_host.simps ws_request.simps defs set method_req_def;
        (simp only: workspace_wired.simps)?; (intro exI conjI refl allI; simp?; simp only: wire_replies)?)
qed

text \<open>The calls the unified host forwards; the others it refuses without asking.\<close>

fun plugin_wired :: "plugin_call \<Rightarrow> bool" where
  "plugin_wired (PWorkspace w) \<longleftrightarrow> w = ReadPortfolioNames"
| "plugin_wired (PStorage (StorageGet k)) \<longleftrightarrow> True"
| "plugin_wired (PStorage (StorageSet k v)) \<longleftrightarrow> True"
| "plugin_wired (PStorage (EventsEmit e)) \<longleftrightarrow> True"
| "plugin_wired (PStorage _) \<longleftrightarrow> False"
| "plugin_wired (PLog l m) \<longleftrightarrow> True"

interpretation wcap: wired_host S "plugin_host S" plugin_request capstone_serve plugin_wired for S
proof
  fix c assume "plugin_wired c"
  note defs = tp_read_portfolio_names_def tp_get_def tp_set_def tp_emit_def tp_log_write_def
    plugin_forward_def tcall_map_map decode_portfolio_names_def [abs_def, symmetric]
  show "\<exists>gone dec. plugin_host S c = tcall_map dec (send_request S gone (plugin_request c)) \<and>
      (\<forall>h. dec (map_err wire_err (data_json (fst (capstone_serve c h)))) =
        wire_reply (fst (capstone_serve c h)))"
    using \<open>plugin_wired c\<close>
    by (cases c rule: plugin_wired.cases;
        (simp only: plugin_wired.simps plugin_host.simps plugin_request.simps se_request.simps
           ws_request.simps defs)?;
        (intro exI conjI refl allI; simp?; simp only: wire_replies)?)
qed

section \<open>The storage guest on a fresh host\<close>

definition storage_guest_end :: "bool \<Rightarrow> StorageEventsHost" where
  "storage_guest_end g =
     (if g then \<lparr>granted = True, kv = [(lit ''greeting'', blit ''hello'')],
                 events = [\<lparr>kind = lit ''ready'', payload = blit ''ok''\<rparr>]\<rparr>
      else storage_events_new False)"

definition storage_guest_output :: "bool \<Rightarrow> bytes" where
  "storage_guest_output g = blit (if g then ''hello|2|1'' else ''ERR:permission-denied'')"

lemma guest_literals:
  "lit ''greeting'' \<noteq> lit ''count''" "length (blit ''hello'') = 5" "length (blit ''ok'') = 2"
  "as_bytes (lit ''|'' @ dec_digits (Suc (Suc 0)) @ lit ''|'' @ dec_digits (Suc 0)) = blit ''|2|1''"
  "blit ''hello'' @ blit ''|2|1'' = blit ''hello|2|1''"
  "as_bytes (lit ''ERR:'' @ lit ''permission-denied'') = blit ''ERR:permission-denied''"
  by (simp_all add: lit_def blit_def as_bytes_def utf8_char_def utf8_code_def dec_digits.simps)

lemmas storage_guest_eval = storage_guest_run_def over_wire_def storage_events_new_def kv_set_def
  kv_get_def kv_delete_def kv_list_keys_def events_emit_def hm_new_def hm_get_def hm_contains_key_def
  hm_insert_def hm_remove_def total_bytes_def STORAGE_MAX_KEYS_def STORAGE_MAX_TOTAL_BYTES_def
  EVENTS_MAX_COUNT_def EVENT_MAX_PAYLOAD_BYTES_def or_marker_def err_marker_def wire_err_def api_err_def
  denied_def guest_literals

lemma storage_guest_hosted:
  "run_hosted (over_wire storage_events_serve) storage_guest_run (storage_events_new g) =
     (Ok (storage_guest_output g), storage_guest_end g)"
  by (cases g) (simp_all add: storage_guest_eval storage_guest_output_def storage_guest_end_def
      del: as_bytes_append)

lemma storage_guest_calls:
  "calls_hosted (over_wire storage_events_serve) storage_guest_run (storage_events_new g) = (if g then 7 else 1)"
  by (cases g) (simp_all add: storage_guest_eval)

section \<open>A caller on the concrete wire\<close>

text \<open>
  A caller that reads a request back to the call, serves it on a host of its own and writes the
  answer, over the wire of \<open>demo_serde\<close>.
\<close>

definition parse_se :: "json \<Rightarrow> se_call option" where
  "parse_se j =
     (let m = field_str j ''method''; k = field_str j ''key'' in
      if m = lit ''storage_get'' then Some (StorageGet k)
      else if m = lit ''storage_set'' then map_option (StorageSet k) (b64_decode (field_str j ''value''))
      else if m = lit ''storage_delete'' then Some (StorageDelete k)
      else if m = lit ''storage_clear'' then Some StorageClear
      else if m = lit ''storage_list_keys'' then Some StorageListKeys
      else if m = lit ''emit_event'' then
        map_option (\<lambda>p. EventsEmit \<lparr>kind = field_str j ''name'', payload = p\<rparr>)
          (b64_decode (field_str j ''payload''))
      else None)"

definition parse_plugin :: "json \<Rightarrow> plugin_call option" where
  "parse_plugin j =
     (let m = field_str j ''method'' in
      if m = lit ''read:portfolio_names'' then Some (PWorkspace ReadPortfolioNames)
      else if m = lit ''log'' then
        map_option (\<lambda>l. PLog l (field_str j ''message''))
          (List.find (\<lambda>l. level_str l = field_str j ''level'') [Trace, Debug, Info, Warn, Error])
      else map_option PStorage (parse_se j))"

definition wire_app ::
  "(json \<Rightarrow> 'c option) \<Rightarrow> ('c \<Rightarrow> 'h \<Rightarrow> reply \<times> 'h) \<Rightarrow> 'h servicer" where
  "wire_app parse serve h req =
     (case parse (from_nat (length req)) of
        Some c \<Rightarrow> (case serve c h of (rep, h') \<Rightarrow> (replicate (to_nat (reply_json rep)) 0, h'))
      | None \<Rightarrow> ([], h))"

lemma wire_app_conforms:
  assumes "\<And>c. wired c \<Longrightarrow> parse (request c) = Some c"
  shows "conforms demo_serde request serve wired (wire_app parse serve)"
  unfolding conforms_def
  using assms by (auto simp: demo_serde_def wire_app_def split: prod.split)

lemma parse_se_request: "parse_se (se_request c) = Some c"
  by (cases c) (simp_all add: parse_se_def method_req_def field_str_def b64_str_def b64_roundtrip lit_def)

lemma parse_plugin_request: "plugin_wired c \<Longrightarrow> parse_plugin (plugin_request c) = Some c"
proof (cases c)
  case (PWorkspace w)
  assume "plugin_wired c"
  with PWorkspace show ?thesis by (simp add: parse_plugin_def method_req_def field_str_def)
next
  case (PStorage s)
  have "field_str (se_request s) ''method'' \<noteq> lit ''read:portfolio_names''"
    "field_str (se_request s) ''method'' \<noteq> lit ''log''"
    by (cases s; simp add: method_req_def field_str_def lit_def)+
  with PStorage show ?thesis by (simp add: parse_plugin_def parse_se_request)
next
  case (PLog l m)
  then show ?thesis
    by (cases l) (simp_all add: parse_plugin_def method_req_def field_str_def lit_def)
qed

lemmas demo_conforms = wire_app_conforms [where parse = parse_se and request = se_request, OF parse_se_request]
  wire_app_conforms [where parse = parse_plugin and request = plugin_request, OF parse_plugin_request]

section \<open>Properties\<close>

text \<open>
  C3. One plugin, two hosts: any plugin that keeps to the wired calls gives, over the JSON wire and
  under every schedule of the session, the result it gives on the in-memory harness, and leaves a
  caller that keeps such a harness in the same state.  The only difference the guest can see is
  \<open>wire_reply\<close>: an error arrives with its message, but with the code \<open>permission-denied\<close>.
\<close>

theorem plugin_wire_equals_harness:
  assumes "conforms S plugin_request capstone_serve plugin_wired svc" and "all_calls plugin_wired run"
    and "(p3_step svc ^^ n) (c, p3_run_session (drive_plugin_run S run)) (c', w)"
    and "finished (session w)"
  shows "\<exists>r. run_hosted (over_wire capstone_serve) run c = (r, c') \<and>
    reported (Completed r) (p3_session_result w)"
proof -
  have "interp svc (drive_plugin_run S run) c = apfst Completed (run_hosted (over_wire capstone_serve) run c)"
    unfolding drive_plugin_run_def by (rule wcap.drive_eq_hosted [OF assms(1,2)])
  with p3_run_refines [OF assms(3)] assms(4) show ?thesis
    by (cases "run_hosted (over_wire capstone_serve) run c") auto
qed

definition demo_plugin :: "plugin_call typed_run" where
  "demo_plugin = TCall (PLog Info (lit ''hi'')) (\<lambda>_.
     TCall (PStorage (StorageSet (lit ''k'') [0, 255])) (\<lambda>_. TFinish (Ok [2])))"

theorem plugin_wire_equals_harness_witness:
  "\<exists>n c' w. (p3_step (wire_app parse_plugin capstone_serve) ^^ n)
       (capstone_new True, p3_run_session (drive_plugin_run demo_serde demo_plugin)) (c', w) \<and>
     p3_session_result w = [2] \<and> capstone_stored_value c' (lit ''k'') = Some [0, 255] \<and>
     captured_logs c' = [\<lparr>level = Info, log_message = lit ''hi''\<rparr>]"
proof -
  let ?svc = "wire_app parse_plugin capstone_serve" and ?g = "drive_plugin_run demo_serde demo_plugin"
  obtain n c' w where w: "(p3_step ?svc ^^ n) (capstone_new True, p3_run_session ?g) (c', w)"
    "finished (session w)"
    using p3_runs_to_end [of ?svc "capstone_new True" ?g] by blast
  have "all_calls plugin_wired demo_plugin" by (simp add: demo_plugin_def)
  from plugin_wire_equals_harness [OF demo_conforms(2) this w] obtain r where r: "run_hosted (over_wire capstone_serve) demo_plugin (capstone_new True) = (r, c')"
    "reported (Completed r) (p3_session_result w)" by blast
  note defs = demo_plugin_def over_wire_def capstone_new_def storage_events_new_def log_write_def
    cap_set_def kv_set_def hm_new_def hm_contains_key_def hm_get_def hm_insert_def total_bytes_def
    STORAGE_MAX_KEYS_def STORAGE_MAX_TOTAL_BYTES_def
  from r have "p3_session_result w = [2]" "capstone_stored_value c' (lit ''k'') = Some [0, 255]"
    "captured_logs c' = [\<lparr>level = Info, log_message = lit ''hi''\<rparr>]"
    by (auto simp: defs capstone_stored_value_def stored_value_def captured_logs_def)
  with w(1) show ?thesis by blast
qed

text \<open>
  C13. The storage and events guest, end to end: against any caller that keeps a storage host and
  answers the six methods, the session of the shipped guest finishes after seven host calls with
  \<open>hello|2|1\<close>, leaving the greeting and the event behind, and without the grant after one host
  call with \<open>ERR:permission-denied\<close>, leaving nothing.
\<close>

theorem storage_guest_session:
  assumes "conforms S se_request storage_events_serve (\<lambda>_. True) svc"
    and "(p3_step svc ^^ n) (storage_events_new g, p3_run_session (drive_storage_events_run S storage_guest_run))
           (h', w)"
  shows "(finished (session w) \<longleftrightarrow> (if g then 30 else 6) \<le> n) \<and>
    (finished (session w) \<longrightarrow> p3_session_result w = storage_guest_output g \<and> h' = storage_guest_end g)"
proof -
  let ?g = "drive_storage_events_run S storage_guest_run"
  have all: "all_calls (\<lambda>_. True) run" for run :: "se_call typed_run" by (induction run) auto
  have "host_calls_made svc ?g (storage_events_new g) = (if g then 7 else 1)"
    unfolding drive_storage_events_run_def
    by (simp only: wse.calls_eq_hosted [OF assms(1) all] storage_guest_calls)
  moreover have "interp svc ?g (storage_events_new g) = (Completed (Ok (storage_guest_output g)), storage_guest_end g)"
    unfolding drive_storage_events_run_def wse.drive_eq_hosted [OF assms(1) all] storage_guest_hosted by simp
  ultimately show ?thesis using p3_run_refines [OF assms(2)] by simp
qed

theorem storage_guest_session_witness:
  "\<exists>h' w. (p3_step (wire_app parse_se storage_events_serve) ^^ 30) (storage_events_new True,
       p3_run_session (drive_storage_events_run demo_serde storage_guest_run)) (h', w) \<and>
     p3_session_result w = blit ''hello|2|1'' \<and> stored_value h' (lit ''greeting'') = Some (blit ''hello'')"
proof -
  let ?svc = "wire_app parse_se storage_events_serve"
  let ?g = "drive_storage_events_run demo_serde storage_guest_run"
  obtain h' w where w: "(p3_step ?svc ^^ 30) (storage_events_new True, p3_run_session ?g) (h', w)"
    using p3_step_exists [of 30 ?svc "storage_events_new True" ?g] by blast
  from storage_guest_session [OF demo_conforms(1) w] w show ?thesis
    by (intro exI [of _ h'] exI [of _ w])
      (simp add: storage_guest_output_def storage_guest_end_def stored_value_def hm_get_def)
qed

text \<open>
  The workspace guest, whatever the caller answers: one host call, and then the summary of the names
  when the answer says \<open>"ok": true\<close>, \<open>ERR:permission-denied\<close> when it parses and does not, and
  \<open>ERR:bad-response\<close> when it is not JSON at all.
\<close>

theorem workspace_guest_total:
  assumes "to_vec S (method_req ''read:portfolio_names'' []) = Ok bs" and "svc st bs = (resp, st')"
  shows "interp svc (drive_workspace_run S workspace_guest_run) st = (Completed (Ok
    (case from_slice S resp of
       Inl _ \<Rightarrow> blit ''ERR:bad-response''
     | Inr v \<Rightarrow> if json_get v (lit ''ok'') = Some (JBool True)
         then as_bytes (names_summary (decode_portfolio_names (unwrap_or JNull (json_get v (lit ''data'')))))
         else blit ''ERR:permission-denied'')), st')"
proof -
  have err: "err_marker (api_err ''permission-denied'' m) = blit ''ERR:permission-denied''"
    "err_marker (api_err ''bad-response'' m) = blit ''ERR:bad-response''" for m
    by (simp_all add: err_marker_def api_err_def lit_def blit_def as_bytes_def utf8_char_def utf8_code_def)
  have refused: "unwrap_reply v = Err (api_err ''permission-denied'' (unwrap_or (lit ''denied'')
      (Option.bind (json_get v (lit ''error'')) as_str)))" if "json_get v (lit ''ok'') \<noteq> Some (JBool True)" for v
    using that unwrap_reply_Ok_iff [of v "unwrap_or JNull (json_get v (lit ''data''))"]
    by (auto simp: unwrap_reply_def split: if_splits)
  note defs = drive_workspace_run_def workspace_guest_run_def tw_read_portfolio_names_def
    workspace_forward_def send_request_def decode_reply_def method_req_def
  show ?thesis
  proof (cases "from_slice S resp")
    case (Inr v)
    then show ?thesis
      using assms refused [of v] unwrap_reply_Ok_iff [of v "unwrap_or JNull (json_get v (lit ''data''))"]
      by (cases "json_get v (lit ''ok'') = Some (JBool True)") (auto simp: defs err)
  qed (use assms in \<open>simp add: defs err\<close>)
qed

theorem workspace_guest_total_witness:
  "interp (\<lambda>n _. (demo_reply (json_of_names canned_portfolios), Suc n))
     (drive_workspace_run demo_serde workspace_guest_run) 0 =
   (Completed (Ok (blit ''p1=Growth;p2=Income'')), 1)"
proof -
  let ?svc = "\<lambda>(n :: nat) (_ :: bytes). (demo_reply (json_of_names canned_portfolios), Suc n)"
  have "as_bytes (names_summary canned_portfolios) = blit ''p1=Growth;p2=Income''"
    by (simp add: names_summary_def canned_portfolios_def lit_def blit_def as_bytes_def utf8_char_def
        utf8_code_def)
  then show ?thesis
    using workspace_guest_total [of demo_serde _ ?svc 0]
    by (simp add: demo_serde_def demo_reply_def key_neqs decoders_invert)
qed

text \<open>The probe guests: the host call answered, and the gate of the harness as \<open>read-names\<close> sees it.\<close>

lemma p3_guest_forwards:
  "interp svc (p3_drive trapped (p3_guest_run input)) st =
     (case svc st input of (resp, st') \<Rightarrow> (Completed (Ok resp), st'))"
  by (simp add: p3_guest_run_def)

lemma read_names_gated:
  "read_names (read_portfolio_names (capstone_new g)) = (if g then canned_portfolios else [])"
  by (simp add: read_names_def read_portfolio_names_def capstone_new_def)

end
