(* ===== verification/Http02_Guest.thy ===== *)
theory Http02_Guest
  imports Wasi_Guests
begin

text \<open>
  The \<open>wasi:http@0.2\<close> guest (\<open>test-guest-http-02\<close>).  Its imports belong to \<open>wasmtime-wasi-http\<close>
  and are a parameter; what it relies on is that a refusal by the hooks' gate reaches it, from
  \<open>handle\<close> or from the response future.
\<close>

section \<open>Imports\<close>

datatype 'x guest_code = Denied02 | Other02 'x

datatype Scheme02 = Http02 | Https02

text \<open>
  \<open>fut_get\<close> is \<open>get()\<close> after \<open>subscribe().block()\<close>: absent, already taken, or the outcome.  A setter
  that refuses its value gives \<open>None\<close>, and the guest's \<open>unwrap\<close> traps.
\<close>

record ('l, 'q, 'u, 'r, 'x, 's) http02_imports =
  fields02_new :: 'l
  fields02_append :: "rstr \<Rightarrow> bytes \<Rightarrow> 'l \<Rightarrow> 'l option"
  request02_new :: "'l \<Rightarrow> 'q"
  set_scheme02 :: "Scheme02 \<Rightarrow> 'q \<Rightarrow> 'q option"
  set_authority02 :: "rstr \<Rightarrow> 'q \<Rightarrow> 'q option"
  set_path02 :: "rstr \<Rightarrow> 'q \<Rightarrow> 'q option"
  handle02 :: "'q \<Rightarrow> 's \<Rightarrow> ('u, 'x guest_code) result \<times> 's"
  fut_get :: "'u \<Rightarrow> (('r, 'x guest_code) result, unit) result option"
  status02 :: "'r \<Rightarrow> u16"
  header_names02 :: "'r \<Rightarrow> rstr list"

section \<open>The guest\<close>

definition build_request02 ::
  "('l, 'q, 'u, 'r, 'x, 's) http02_imports \<Rightarrow> rstr \<Rightarrow> bool \<Rightarrow> 'l \<Rightarrow> 'q option" where
  "build_request02 I authority use_https headers =
     Option.bind (set_scheme02 I (if use_https then Https02 else Http02) (request02_new I headers)) (\<lambda>q.
     Option.bind (set_authority02 I authority q) (set_path02 I (lit ''/'')))"

text \<open>\<open>None\<close> is a trap of the guest.\<close>

definition send02 ::
  "('l, 'q, 'u, 'r, 'x, 's) http02_imports \<Rightarrow> rstr \<Rightarrow> bool \<Rightarrow> 'l \<Rightarrow> ('r \<Rightarrow> 'a) \<Rightarrow> 's \<Rightarrow>
    ('a, u8) result option \<times> 's" where
  "send02 I authority use_https headers on_response s =
     (case build_request02 I authority use_https headers of
        None \<Rightarrow> (None, s)
      | Some req \<Rightarrow>
          (case handle02 I req s of
             (Inl ec, s) \<Rightarrow> (Some (Err (if ec = Denied02 then 2 else 1)), s)
           | (Inr fut, s) \<Rightarrow>
               (case fut_get I fut of
                  Some (Inr (Inr resp)) \<Rightarrow> (Some (Ok (on_response resp)), s)
                | Some (Inr (Inl ec)) \<Rightarrow> (Some (Err (if ec = Denied02 then 2 else 3)), s)
                | _ \<Rightarrow> (Some (Err 4), s))))"

definition run02 ::
  "('l, 'q, 'u, 'r, 'x, 's) http02_imports \<Rightarrow> rstr \<Rightarrow> bool \<Rightarrow> 's \<Rightarrow> (u16, u8) result option \<times> 's" where
  "run02 I authority use_https s = send02 I authority use_https (fields02_new I) (status02 I) s"

text \<open>A header the host refuses is skipped.\<close>

definition append_all02 ::
  "('l, 'q, 'u, 'r, 'x, 's) http02_imports \<Rightarrow> (rstr \<times> rstr) list \<Rightarrow> 'l" where
  "append_all02 I headers =
     foldl (\<lambda>fields (name, value). unwrap_or fields (fields02_append I name (as_bytes value) fields))
       (fields02_new I) headers"

definition run_with_headers02 ::
  "('l, 'q, 'u, 'r, 'x, 's) http02_imports \<Rightarrow> rstr \<Rightarrow> (rstr \<times> rstr) list \<Rightarrow> 's \<Rightarrow>
    (u16 \<times> rstr list, u8) result option \<times> 's" where
  "run_with_headers02 I authority headers s =
     send02 I authority True (append_all02 I headers) (\<lambda>resp. (status02 I resp, header_names02 I resp)) s"

section \<open>Its error codes\<close>

lemma send02_code:
  "send02 I authority use_https headers f s = (Some (Err e), s') \<Longrightarrow> e \<in> {1, 2, 3, 4}"
  by (auto simp: send02_def split: option.splits prod.splits sum.splits if_splits)

text \<open>
  The imports backed by the hooks: \<open>to_request\<close> is the request the hooks are shown for a guest's
  request.  A refusal by the gate reaches the guest in one of the two ways its documentation names.
\<close>

definition refusals_surface ::
  "('l, 'q, 'u, 'r, 'y, ('m, 'b, 'o, 'f, 'x, 's) GatedHttpHooks) http02_imports \<Rightarrow> 'm header_map \<Rightarrow>
    ('q \<Rightarrow> ('m, 'b) request) \<Rightarrow> bool" where
  "refusals_surface I ops to_request \<longleftrightarrow>
     (\<forall>q hooks. gate ops hooks (to_request q) \<noteq> Ok () \<longrightarrow>
        handle02 I q hooks = (Err Denied02, hooks) \<or>
        (\<exists>fut. handle02 I q hooks = (Ok fut, hooks) \<and> fut_get I fut = Some (Ok (Err Denied02))))"

text \<open>An implementation that asks the gate in \<open>handle\<close> satisfies it.\<close>

definition gate_imports ::
  "'m header_map \<Rightarrow> ('q \<Rightarrow> ('m, 'b) request) \<Rightarrow>
    (unit, 'q, unit, unit, 'y, ('m, 'b, 'o, 'f, 'x, 's) GatedHttpHooks) http02_imports \<Rightarrow>
    (unit, 'q, unit, unit, 'y, ('m, 'b, 'o, 'f, 'x, 's) GatedHttpHooks) http02_imports" where
  "gate_imports ops to_request I =
     I\<lparr>handle02 := \<lambda>q hooks. (case gate ops hooks (to_request q) of
        Inl _ \<Rightarrow> (Err Denied02, hooks) | Inr _ \<Rightarrow> (Ok (), hooks))\<rparr>"

lemma refusals_surface_holds: "refusals_surface (gate_imports ops to_request I) ops to_request"
  by (auto simp: refusals_surface_def gate_imports_def split: sum.split)

text \<open>
  The refusal is distinguishable: a guest whose request the gate refuses gets error 2, whichever way
  it surfaces, and leaves the hooks as they were.
\<close>

lemma send02_denied:
  assumes "refusals_surface I ops to_request" and "build_request02 I authority use_https headers = Some q"
    and "gate ops hooks (to_request q) \<noteq> Ok ()"
  shows "send02 I authority use_https headers f hooks = (Some (Err 2), hooks)"
  using assms unfolding refusals_surface_def send02_def by fastforce

lemma run02_locked_down:
  assumes "refusals_surface I ops to_request" and "allowlist hooks = []"
    and "build_request02 I authority use_https (fields02_new I) = Some q"
  shows "run02 I authority use_https hooks = (Some (Err 2), hooks)"
proof -
  have "gate ops hooks (to_request q) \<noteq> Ok ()"
    using no_origin [of "unwrap_or [] (uri_scheme_str (rq_uri (to_request q)))"
        "unwrap_or [] (uri_host (rq_uri (to_request q)))"]
    by (auto simp: gate_def assms(2) Let_def split: sum.splits if_splits)
  with assms show ?thesis unfolding run02_def by (intro send02_denied) auto
qed

end
