(* ===== verification/Runtime_Check.thy ===== *)
theory Runtime_Check
  imports C_Abi
begin

text \<open>
  \<open>examples/hardened_runtime_check.rs\<close>: a client of the C ABI, with its host-call service and the
  loop that drives a session.  Every schedule of the loop and the worker is shown to end, with the
  status and output of the plugin run.
\<close>

section \<open>The service\<close>

definition EXPECTED :: rstr where
  "EXPECTED = lit ''You have 2 portfolios in this workspace.''"

text \<open>A quoted JSON string, and the two replies as the bytes the source spells out.\<close>

definition quoted :: "string \<Rightarrow> bytes" where
  "quoted s = 34 # blit s @ [34]"

definition ok_reply :: bytes where
  "ok_reply = blit ''{'' @ quoted ''ok'' @ blit '':true}''"

definition names_reply :: bytes where
  "names_reply =
     blit ''{'' @ quoted ''ok'' @ blit '':true,'' @ quoted ''data'' @
     blit '':[{'' @ quoted ''id'' @ blit '':'' @ quoted ''p1'' @ blit '','' @ quoted ''name'' @ blit '':'' @ quoted ''Personal'' @
     blit ''},{'' @ quoted ''id'' @ blit '':'' @ quoted ''p2'' @ blit '','' @ quoted ''name'' @ blit '':'' @ quoted ''Business'' @
     blit ''}]}''"

text \<open>Bytes that are not JSON are read as \<open>null\<close> (\<open>unwrap_or_default\<close>).\<close>

definition service :: "serde \<Rightarrow> bytes \<Rightarrow> bytes" where
  "service S req =
     (let v = (case from_slice S req of Inr v \<Rightarrow> v | Inl _ \<Rightarrow> JNull) in
      if Option.bind (json_get v (lit ''method'')) as_str = Some (lit ''read:portfolio_names'')
      then names_reply else ok_reply)"

section \<open>The drive loop\<close>

text \<open>
  A step while the loop runs: the worker steps at any time; the request of a pending poll is serviced
  and resolved before the next poll.  A poll that would block is no step.
\<close>

inductive drive_step :: "serde \<Rightarrow> p3_world \<Rightarrow> p3_world \<Rightarrow> bool" for S where
  dl_worker: "worker_step w = Some w1 \<Longrightarrow> drive_step S w w1"
| dl_pending: "p3_poll w = Some (HWR_P3_PENDING, w1) \<Longrightarrow>
    drive_step S w (p3_resolve (service S (p3_request w1)) w1)"

text \<open>What \<open>drive\<close> makes of the end: the output, or \<open>None\<close> where it exits through \<open>fail\<close>.\<close>

definition drive_verdict :: "i32 \<Rightarrow> p3_world \<Rightarrow> rstr option" where
  "drive_verdict status w =
     (let out = from_utf8_lossy (p3_session_result w) in
      if status \<noteq> HWR_P3_DONE then None
      else if \<not> str_contains out EXPECTED then None
      else Some out)"

inductive drive_end :: "p3_world \<Rightarrow> rstr option \<Rightarrow> bool" where
  dl_break: "p3_poll w = Some (status, w') \<Longrightarrow> status = HWR_P3_DONE \<or> status = HWR_P3_ERROR \<Longrightarrow>
    drive_end w (drive_verdict status w')"
| dl_other: "p3_poll w = Some (status, w') \<Longrightarrow>
    status \<noteq> HWR_P3_PENDING \<and> status \<noteq> HWR_P3_DONE \<and> status \<noteq> HWR_P3_ERROR \<Longrightarrow> drive_end w None"

text \<open>
  From here every schedule of the loop and the worker ends, and ends with this verdict: there is no
  infinite run (the predicate is the least one), no state in which both block, and no other end.
\<close>

inductive drive_always :: "serde \<Rightarrow> rstr option \<Rightarrow> p3_world \<Rightarrow> bool" for S verdict where
  always: "(\<And>w1. drive_step S w w1 \<Longrightarrow> drive_always S verdict w1) \<Longrightarrow>
    (\<And>v. drive_end w v \<Longrightarrow> v = verdict) \<Longrightarrow>
    (\<exists>w1. drive_step S w w1) \<or> (\<exists>v. drive_end w v) \<Longrightarrow> drive_always S verdict w"

definition drives_to :: "serde \<Rightarrow> p3_world option \<Rightarrow> rstr option \<Rightarrow> bool" where
  "drives_to S hdl verdict \<longleftrightarrow>
     (case hdl of None \<Rightarrow> verdict = None | Some w \<Rightarrow> drive_always S verdict w)"

text \<open>
  \<open>main\<close>, up to its printing: \<open>passed\<close> says whether it reaches the final line or exits through \<open>fail\<close>.
  The third step and the count of published code come after the first two.
\<close>

definition check_precompiled ::
  "('cfg, 'eng, 'mod, 'code, 'store, 'inst, 'fn) W \<Rightarrow> ('eng, 'code, 's, 't, 'x) guests \<Rightarrow> serde \<Rightarrow> u64 \<Rightarrow> bytes \<Rightarrow> jit_state \<Rightarrow>
    bool \<Rightarrow> bool" where
  "check_precompiled W G S override PLUGIN_WASM st passed \<longleftrightarrow>
     (case hwr_engine_new W 0 of
        None \<Rightarrow> \<not> passed
      | Some engine \<Rightarrow>
     (case hwr_precompile_component W (Some engine) (Some PLUGIN_WASM) (Some 0) of
        (None, len) \<Rightarrow> \<not> passed
      | (Some artifact, len) \<Rightarrow>
     (case hwr_p3_start_plugin W G override 0 (Some artifact) None st of (hdl, st) \<Rightarrow>
     (\<exists>verdict. drives_to S hdl verdict \<and>
       (case verdict of
          None \<Rightarrow> \<not> passed
        | Some out \<Rightarrow>
            (if target_macos W
             then (case publish_counts True st of (map_jit, fallback) \<Rightarrow>
               passed \<longleftrightarrow> \<not> (map_jit = 0 \<or> fallback \<noteq> 0))
             else passed))))))"

definition check_main ::
  "('cfg, 'eng, 'mod, 'code, 'store, 'inst, 'fn) W \<Rightarrow> ('eng, 'code, 's, 't, 'x) guests \<Rightarrow> serde \<Rightarrow> u64 \<Rightarrow> bytes \<Rightarrow> jit_state \<Rightarrow>
    bool \<Rightarrow> bool" where
  "check_main W G S override PLUGIN_WASM st passed \<longleftrightarrow>
     (case hwr_eval_add W 0 2 3 st of (added, st) \<Rightarrow>
      if added \<noteq> 5 then \<not> passed
      else (case hwr_p3_start_plugin_compile W G override 0 (Some PLUGIN_WASM) None st of (hdl, st) \<Rightarrow>
      (\<exists>verdict. drives_to S hdl verdict \<and>
        (case verdict of
           None \<Rightarrow> \<not> passed
         | Some out \<Rightarrow> check_precompiled W G S override PLUGIN_WASM st passed))))"

section \<open>The loop and the run\<close>

abbreviation served :: "serde \<Rightarrow> nat servicer" where
  "served S \<equiv> \<lambda>k req. (service S req, k)"

fun broke_with :: "run_result \<Rightarrow> i32 \<Rightarrow> bytes \<Rightarrow> bool" where
  "broke_with (Completed (Inr out)) status res \<longleftrightarrow> status = HWR_P3_DONE \<and> res = out"
| "broke_with (Completed (Inl msg)) status res \<longleftrightarrow> status = HWR_P3_ERROR \<and> res = as_bytes msg"
| "broke_with Died status res \<longleftrightarrow> status = HWR_P3_ERROR \<and> res = []"

definition loop_head :: "serde \<Rightarrow> run_result \<times> nat \<Rightarrow> p3_world \<Rightarrow> nat \<Rightarrow> bool" where
  "loop_head S R w n \<longleftrightarrow> p3_phase (served S) R (0, w) n \<and> pending_respond (session w) = None \<and>
     \<not> finished (session w)"

lemma phase_pending_worker: "p3_phase svc R (st, w) n \<Longrightarrow> pending_respond (session w) = Some i \<Longrightarrow>
    \<exists>k. worker w = Waiting i k \<and> oneshots w i = Open \<and> n \<noteq> 0"
  by (cases rule: p3_phase.cases) (auto simp: unfinished_def split: prod.split)

lemma worker_step_keeps: "worker_step w = Some w1 \<Longrightarrow>
    pending_respond (session w1) = pending_respond (session w) \<and> finished (session w1) = finished (session w)"
  by (auto simp: worker_step_def send_def cancel_def Let_def
      split: worker_state.splits guest.splits oneshot.splits option.splits P3Event.splits)

lemma loop_worker:
  assumes "loop_head S R w n" "worker_step w = Some w1"
  obtains m where "n = Suc m" "loop_head S R w1 m"
proof -
  have "p3_step (served S) (0, w) (0, w1)" using assms(2) by (rule p3_step.worker)
  with p3_phase_step [of "served S" R "(0, w)" n] assms(1)
  consider m where "n = Suc m" "p3_phase (served S) R (0, w1) m" | "n = 0"
    unfolding loop_head_def by blast
  then show ?thesis
  proof cases
    case 1
    with assms worker_step_keeps [OF assms(2)] that show ?thesis by (simp add: loop_head_def)
  next
    case 2
    with assms(1) p3_phase_finished [of "served S" R 0 w n] show ?thesis by (simp add: loop_head_def)
  qed
qed

lemma poll_pending: "p3_poll w = Some (HWR_P3_PENDING, w1) \<Longrightarrow>
    (\<exists>i. pending_respond (session w1) = Some i) \<and> finished (session w1) = finished (session w)"
  by (auto simp: p3_poll_def p3_status cancel_def Let_def
      split: if_splits option.splits list.splits P3Event.splits sum.splits)

lemma resolve_clears: "pending_respond (session (p3_resolve resp w)) = None"
  "finished (session (p3_resolve resp w)) = finished (session w)"
  by (simp_all add: p3_resolve_def respond_def Let_def split: option.split)

lemma loop_pending:
  assumes "loop_head S R w n" "p3_poll w = Some (HWR_P3_PENDING, w1)"
  obtains m where "n = Suc (Suc m)" "loop_head S R (p3_resolve (service S (p3_request w1)) w1) m"
proof -
  obtain i where i: "pending_respond (session w1) = Some i" "\<not> finished (session w1)"
    using poll_pending [OF assms(2)] assms(1) by (auto simp: loop_head_def)
  have "p3_step (served S) (0, w) (0, w1)"
    using assms by (auto simp: loop_head_def intro: p3_step.poll)
  with p3_phase_step [of "served S" R "(0, w)" n] assms(1) p3_phase_finished [of "served S" R 0 w n]
  obtain m where m: "n = Suc m" "p3_phase (served S) R (0, w1) m" by (auto simp: loop_head_def)
  have "p3_step (served S) (0, w1) (0, p3_resolve (service S (p3_request w1)) w1)"
    using i by (auto intro: p3_step.resolve)
  with p3_phase_step [OF m(2)] p3_phase_finished [OF m(2)] i(2) obtain l where
    "m = Suc l" "p3_phase (served S) R (0, p3_resolve (service S (p3_request w1)) w1) l" by auto
  with m that i show ?thesis by (simp add: loop_head_def resolve_clears)
qed

lemma loop_break:
  assumes "loop_head S R w n" "p3_poll w = Some (status, w')" "status = HWR_P3_DONE \<or> status = HWR_P3_ERROR"
  shows "broke_with (fst R) status (p3_session_result w')"
proof -
  have ph: "p3_phase (served S) R (0, w) n" using assms(1) by (simp add: loop_head_def)
  from ph show ?thesis
  proof cases
    case (done_queued r)
    with assms show ?thesis
      by (cases r) (auto simp: loop_head_def p3_poll_def p3_session_result_def unfinished_def Let_def)
  next
    case died
    with assms show ?thesis
      by (auto simp: loop_head_def p3_poll_def p3_session_result_def unfinished_def Let_def)
  qed (use assms in \<open>auto simp: loop_head_def p3_poll_def unfinished_def p3_status Let_def\<close>)
qed

lemma loop_progress:
  assumes "loop_head S R w n"
  shows "(\<exists>w1. worker_step w = Some w1) \<or> (\<exists>w1. p3_poll w = Some (HWR_P3_PENDING, w1)) \<or>
    (\<exists>status w'. p3_poll w = Some (status, w') \<and> (status = HWR_P3_DONE \<or> status = HWR_P3_ERROR))"
proof -
  have ph: "p3_phase (served S) R (0, w) n" and nf: "\<not> finished (session w)"
    and np: "pending_respond (session w) = None" using assms by (simp_all add: loop_head_def)
  from ph show ?thesis
  proof cases
    case (running g)
    then show ?thesis by (cases g) (auto simp: worker_step_def Let_def)
  next
    case (answered i b k)
    then show ?thesis by (simp add: worker_step_def)
  next
    case (done_queued r)
    then show ?thesis by (cases r) (auto simp: p3_poll_def unfinished_def Let_def)
  qed (use nf np in \<open>auto simp: p3_poll_def unfinished_def Let_def\<close>)
qed

text \<open>The verdict a run leads to.\<close>

fun verdict_of :: "run_result \<Rightarrow> rstr option" where
  "verdict_of (Completed (Inr out)) =
     (if str_contains (from_utf8_lossy out) EXPECTED then Some (from_utf8_lossy out) else None)"
| "verdict_of (Completed (Inl msg)) = None"
| "verdict_of Died = None"

lemma verdict_of_Some: "Some out = verdict_of R \<longleftrightarrow>
    (\<exists>bs. R = Completed (Ok bs) \<and> out = from_utf8_lossy bs \<and> str_contains out EXPECTED)"
  by (cases R rule: verdict_of.cases) auto

lemma broke_verdict:
  "broke_with R status (p3_session_result w') \<Longrightarrow> drive_verdict status w' = verdict_of R"
  by (cases "(R, status, p3_session_result w')" rule: broke_with.cases)
    (auto simp: drive_verdict_def p3_status Let_def)

lemma poll_status: "p3_poll w = Some (status, w') \<Longrightarrow>
    status = HWR_P3_PENDING \<or> status = HWR_P3_DONE \<or> status = HWR_P3_ERROR"
  by (auto simp: p3_poll_def Let_def split: if_splits option.splits list.splits P3Event.splits sum.splits)

lemma loop_end:
  assumes "drive_end w v" and "loop_head S R w n"
  shows "v = verdict_of (fst R)"
  using assms(1)
proof cases
  case (dl_break status w')
  then show ?thesis using broke_verdict loop_break [OF assms(2)] by blast
next
  case (dl_other status w')
  then show ?thesis using poll_status by blast
qed

lemma loop_step:
  assumes "drive_step S w w1" and "loop_head S R w n"
  shows "\<exists>m < n. loop_head S R w1 m"
  using assms(1)
proof cases
  case dl_worker
  obtain m where "n = Suc m" "loop_head S R w1 m" using loop_worker [OF assms(2) dl_worker] .
  then show ?thesis by blast
next
  case (dl_pending w2)
  obtain m where "n = Suc (Suc m)" "loop_head S R (p3_resolve (service S (p3_request w2)) w2) m"
    using loop_pending [OF assms(2) dl_pending(2)] .
  then show ?thesis using dl_pending(1) by (intro exI [of _ m]) simp
qed

lemma loop_goes_on: "loop_head S R w n \<Longrightarrow> (\<exists>w1. drive_step S w w1) \<or> (\<exists>v. drive_end w v)"
  by (drule loop_progress) (blast intro: drive_step.intros drive_end.intros)

lemma loop_always: "loop_head S R w n \<Longrightarrow> drive_always S (verdict_of (fst R)) w"
proof (induction n arbitrary: w rule: less_induct)
  case (less n)
  show ?case
    by (rule always) (use loop_step loop_end loop_goes_on less in blast)+
qed

lemma always_verdict: "drive_always S v w \<Longrightarrow> loop_head S R w n \<Longrightarrow> v = verdict_of (fst R)"
proof (induction arbitrary: n rule: drive_always.induct)
  case (always w)
  from loop_goes_on [OF always.prems] show ?case
  proof
    assume "\<exists>w1. drive_step S w w1"
    then show ?thesis using always.IH loop_step [OF _ always.prems] by blast
  next
    assume "\<exists>u. drive_end w u"
    then show ?thesis using always.hyps loop_end [OF _ always.prems] by blast
  qed
qed

text \<open>
  On a fresh session of any guest every schedule of the loop ends, and the verdict is that of the
  guest run over the service alone.
\<close>

lemma drive_verdict_of_run:
  "drives_to S (Some (p3_run_session g)) v \<longleftrightarrow> v = verdict_of (fst (interp (served S) g 0))"
proof -
  have start: "loop_head S (interp (served S) g 0) (p3_run_session g) (4 * host_calls_made (served S) g 0 + 2)"
    using p3_phase_start [of "served S" g 0] by (simp add: loop_head_def p3_run_session_def)
  show ?thesis
    using loop_always [OF start] always_verdict [OF _ start] unfolding drives_to_def option.case by blast
qed

lemma drives_to_None: "drives_to S None v \<longleftrightarrow> v = None"
  by (simp add: drives_to_def)

text \<open>The verdict of what an entry point starts: none unless the engine builds and the code loads.\<close>

definition start_verdict ::
  "serde \<Rightarrow> 'eng run \<Rightarrow> ('eng \<Rightarrow> 'code run) \<Rightarrow> ('eng \<Rightarrow> 'code \<Rightarrow> guest) \<Rightarrow> rstr option" where
  "start_verdict S mk loaded g =
     Option.bind (run_ok mk) (\<lambda>eng. Option.bind (run_ok (loaded eng)) (\<lambda>comp.
       verdict_of (fst (interp (served S) (g eng comp) 0))))"

lemma run_ok_Some: "run_ok r = Some x \<longleftrightarrow> r = Returned (Ok x)"
  by (cases r rule: run_ok.cases) auto

lemma start_verdict_Some: "start_verdict S mk loaded g = Some out \<longleftrightarrow>
    (\<exists>eng comp bs. mk = Returned (Ok eng) \<and> loaded eng = Returned (Ok comp) \<and>
       fst (interp (served S) (g eng comp) 0) = Completed (Ok bs) \<and> out = from_utf8_lossy bs \<and>
       str_contains out EXPECTED)"
  unfolding start_verdict_def bind_eq_Some_conv run_ok_Some
  by (auto simp only: eq_commute [of "verdict_of _"] verdict_of_Some)

lemma drives_started:
  "drives_to S (fst (start_with mk load_code (Some bs) (\<lambda>eng comp. p3_run_session (g eng comp)) st)) v \<longleftrightarrow>
     v = start_verdict S mk (\<lambda>eng. fst (load_code eng bs st)) g"
proof (cases "fst (start_with mk load_code (Some bs) (\<lambda>eng comp. p3_run_session (g eng comp)) st)")
  case None
  then have "\<not> (mk = Returned (Ok eng) \<and> fst (load_code eng bs st) = Returned (Ok comp))" for eng comp
    unfolding start_with_None by blast
  then have "start_verdict S mk (\<lambda>eng. fst (load_code eng bs st)) g = None"
    by (cases "start_verdict S mk (\<lambda>eng. fst (load_code eng bs st)) g") (auto simp: start_verdict_Some)
  with None show ?thesis by (simp add: drives_to_None)
next
  case (Some w)
  then obtain eng comp where "mk = Returned (Ok eng)" "fst (load_code eng bs st) = Returned (Ok comp)"
    "w = p3_run_session (g eng comp)"
    unfolding start_with_Some by blast
  with Some show ?thesis by (simp add: drive_verdict_of_run start_verdict_def)
qed

text \<open>The two sessions of \<open>main\<close>: the plugin run over the typed hosts.\<close>

abbreviation plugin_guest where
  "plugin_guest G override \<equiv> (\<lambda>eng comp.
     drive_plugin_run (json_wire G) (plugin_run G eng comp (fuel_budget override) []))"

lemma drives_plugin:
  "drives_to S (fst (hwr_p3_start_plugin_compile W G override 0 (Some wasm) None st)) v \<longleftrightarrow>
     v = start_verdict S (p3_engine W False) (\<lambda>eng. fst (compile_component W eng (Binary wasm) st))
       (plugin_guest G override)"
  "drives_to S (fst (hwr_p3_start_plugin W G override 0 (Some wasm) None st)) v \<longleftrightarrow>
     v = start_verdict S (p3_engine W False) (\<lambda>eng. fst (deserialize_component W eng wasm st))
       (plugin_guest G override)"
  unfolding hwr_p3_start_plugin_compile_def hwr_p3_start_plugin_def p3_run_session_sync_def
  by (simp_all add: drives_started)

section \<open>Properties\<close>

text \<open>
  C15. The in-process check, from the C ABI down: driving the session that
  \<open>hwr_p3_start_plugin_compile\<close> starts for the plugin ends under every schedule of the loop and the
  worker, with one verdict, the same for all; and that verdict is a pass with some output exactly
  when the engine builds, the component compiles, and the plugin, run over the typed hosts and the
  service, returns bytes whose text is that output and holds the expected sentence.  Any error,
  panic, dead worker or other text fails under every schedule.
\<close>

theorem runtime_check_verdict:
  "(\<exists>!v. drives_to S (fst (hwr_p3_start_plugin_compile W G override 0 (Some wasm) None st)) v) \<and>
   (drives_to S (fst (hwr_p3_start_plugin_compile W G override 0 (Some wasm) None st)) (Some out) \<longleftrightarrow>
      (\<exists>eng comp bs. p3_engine W False = Returned (Ok eng) \<and>
         fst (compile_component W eng (Binary wasm) st) = Returned (Ok comp) \<and>
         fst (interp (served S) (drive_plugin_run (json_wire G)
           (plugin_run G eng comp (fuel_budget override) [])) 0) = Completed (Ok bs) \<and>
         out = from_utf8_lossy bs \<and> str_contains out EXPECTED))"
  by (simp add: drives_plugin start_verdict_Some eq_commute [of "Some _"])

lemma engine_new_eq: "hwr_engine_new W 0 = map_option (\<lambda>e. \<lparr>he_engine = e\<rparr>) (run_ok (p3_engine W False))"
  by (simp add: hwr_engine_new_def p3_engine_def)

definition all_from_map_jit :: "('cfg, 'eng, 'mod, 'code, 'store, 'inst, 'fn) W \<Rightarrow> jit_state \<Rightarrow> bool" where
  "all_from_map_jit W st \<longleftrightarrow> (if target_macos W then MAP_JIT_TOTAL st \<noteq> 0 \<and> FALLBACK_TOTAL st = 0 else True)"

lemma check_precompiled_verdict:
  "check_precompiled W G S override wasm st passed \<longleftrightarrow>
     (passed \<longleftrightarrow> (\<exists>eng artifact. p3_engine W False = Returned (Ok eng) \<and>
        precompile W eng (Binary wasm) = Returned (Ok artifact) \<and>
        (\<exists>out. start_verdict S (p3_engine W False) (\<lambda>eng. fst (deserialize_component W eng artifact st))
          (plugin_guest G override) = Some out) \<and>
        all_from_map_jit W (snd (hwr_p3_start_plugin W G override 0 (Some artifact) None st))))"
proof (cases "run_ok (p3_engine W False)")
  case None
  then show ?thesis by (simp add: check_precompiled_def engine_new_eq run_ok_Some [symmetric])
next
  case (Some eng)
  show ?thesis
  proof (cases "run_ok (precompile W eng (Binary wasm))")
    case None
    with Some show ?thesis
      by (simp add: check_precompiled_def engine_new_eq hwr_precompile_component_def run_ok_Some [symmetric])
  next
    case artifact: (Some artifact)
    obtain h st' where h: "hwr_p3_start_plugin W G override 0 (Some artifact) None st = (h, st')" by fastforce
    have drive: "drives_to S h v \<longleftrightarrow> v = start_verdict S (p3_engine W False)
        (\<lambda>eng. fst (deserialize_component W eng artifact st)) (plugin_guest G override)" for v
      using drives_plugin(2) [of S W G override artifact st v] h by simp
    show ?thesis
      using Some artifact
      by (cases "start_verdict S (p3_engine W False) (\<lambda>eng. fst (deserialize_component W eng artifact st))
          (plugin_guest G override)")
        (simp_all add: check_precompiled_def engine_new_eq hwr_precompile_component_def h drive
           publish_counts_def all_from_map_jit_def run_ok_Some [symmetric])
  qed
qed

text \<open>
  The whole check: it passes exactly when the addition gives 5, the plugin compiled in process and
  the plugin loaded from its precompiled artifact both say the expected sentence, and, on macOS,
  code was published and none of it by the fallback; otherwise it fails, and it never hangs.
\<close>

theorem check_main_verdict:
  "let st1 = snd (hwr_eval_add W 0 2 3 st);
       st2 = snd (hwr_p3_start_plugin_compile W G override 0 (Some wasm) None st1)
   in check_main W G S override wasm st passed \<longleftrightarrow>
     (passed \<longleftrightarrow> fst (hwr_eval_add W 0 2 3 st) = 5 \<and>
       (\<exists>out. start_verdict S (p3_engine W False) (\<lambda>eng. fst (compile_component W eng (Binary wasm) st1))
          (plugin_guest G override) = Some out) \<and>
       (\<exists>eng artifact. p3_engine W False = Returned (Ok eng) \<and>
          precompile W eng (Binary wasm) = Returned (Ok artifact) \<and>
          (\<exists>out. start_verdict S (p3_engine W False) (\<lambda>eng. fst (deserialize_component W eng artifact st2))
            (plugin_guest G override) = Some out) \<and>
          all_from_map_jit W (snd (hwr_p3_start_plugin W G override 0 (Some artifact) None st2))))"
proof -
  obtain added st1 where add: "hwr_eval_add W 0 2 3 st = (added, st1)" by fastforce
  obtain h st2 where h: "hwr_p3_start_plugin_compile W G override 0 (Some wasm) None st1 = (h, st2)" by fastforce
  have drive: "drives_to S h v \<longleftrightarrow> v = start_verdict S (p3_engine W False)
      (\<lambda>eng. fst (compile_component W eng (Binary wasm) st1)) (plugin_guest G override)" for v
    using drives_plugin(1) [of S W G override wasm st1 v] h by simp
  show ?thesis
    by (cases "start_verdict S (p3_engine W False) (\<lambda>eng. fst (compile_component W eng (Binary wasm) st1))
        (plugin_guest G override)")
      (simp_all add: check_main_def add h drive check_precompiled_verdict)
qed

text \<open>The check does pass: a plugin that returns the sentence, on an engine that runs WebAssembly.\<close>

lemma EXPECTED_bytes: "from_utf8_lossy (as_bytes EXPECTED) = EXPECTED"
  by (rule from_utf8_lossy_as_bytes) (simp add: EXPECTED_def lit_def valid_str_def valid_char_def)

lemma check_main_passes:
  fixes G :: "(bool, wasm_src, bytes, trailers_value option, unit) guests"
  assumes "G = demo_guests\<lparr>plugin_run := \<lambda>_ _ _ _. TFinish (Ok (as_bytes EXPECTED))\<rparr>"
  shows "check_main demo_wasmtime G S override [0] jit_init True"
proof -
  have sum: "fst (hwr_eval_add demo_wasmtime 0 2 3 jit_init) = 5"
    by (simp add: embedded_outcomes(1) [OF demo_runs_wasm])
  have "str_contains EXPECTED EXPECTED"
    unfolding str_contains_iff by (intro exI [of _ "[]"]) simp
  then have "start_verdict S (p3_engine demo_wasmtime False) (\<lambda>eng. Returned (Ok (Binary [0])))
      (plugin_guest G override) = Some EXPECTED"
    by (simp add: start_verdict_def p3_engine_def pulley_target_def demo_wasmtime_def assms
        drive_plugin_run_def EXPECTED_bytes)
  with sum show ?thesis
    using check_main_verdict [of demo_wasmtime jit_init G override "[0]" S True]
    by (simp add: Let_def compile_component_def deserialize_component_def stock_def p3_engine_def
        pulley_target_def demo_wasmtime_def all_from_map_jit_def)
qed

end
