(* ===== verification/Stream_Server.thy ===== *)
theory Stream_Server
  imports P3_Stream
begin

text \<open>
  A streaming session whose caller reacts: what it pushes depends on what it has read, as an app
  that answers a request does.  Such a run is a run of \<open>P3_Stream\<close> on the frames the caller comes to
  push, and the pair can deadlock exactly when the driver reads before it has ended its request.
\<close>

section \<open>Reacting callers\<close>

text \<open>
  From what it has read, a caller knows the frames it has to push and whether the stream is to be
  closed behind them.  It cannot take a frame back, nor add one after the close.
\<close>

type_synonym reaction = "out_item list \<Rightarrow> bytes list \<times> bool"

definition causal :: "reaction \<Rightarrow> bool" where
  "causal A \<longleftrightarrow> (\<forall>outs later. prefix (fst (A outs)) (fst (A (outs @ later))) \<and>
     (snd (A outs) \<longrightarrow> A (outs @ later) = A outs))"

record served_config =
  conn :: p3s_world
  pushed :: "bytes list"
  heard :: "out_item list"

inductive served_step :: "reaction \<Rightarrow> served_config \<Rightarrow> served_config \<Rightarrow> bool" for A where
  sv_worker: "driver_step (conn c) = Some w \<Longrightarrow> served_step A c (c\<lparr>conn := w\<rparr>)"
| sv_poll: "\<not> s_finished (stream (conn c)) \<Longrightarrow> p3s_poll (conn c) = Some (status, w) \<Longrightarrow>
    served_step A c (c\<lparr>conn := w, heard := heard c @ read_item status w\<rparr>)"
| sv_push: "prefix (pushed c @ [chunk]) (fst (A (heard c))) \<Longrightarrow>
    served_step A c (c\<lparr>conn := p3s_push chunk (conn c), pushed := pushed c @ [chunk]\<rparr>)"
| sv_close: "A (heard c) = (pushed c, True) \<Longrightarrow> s_in_tx (stream (conn c)) \<Longrightarrow>
    served_step A c (c\<lparr>conn := p3s_push_end (conn c)\<rparr>)"

definition served_start :: "p3s_world \<Rightarrow> served_config" where
  "served_start w = \<lparr>conn = w, pushed = [], heard = []\<rparr>"

section \<open>A reacting caller pushes frames\<close>

lemma driver_keeps_tx: "driver_step w = Some w' \<Longrightarrow> s_in_tx (stream w') = s_in_tx (stream w)"
  by (auto simp: driver_step_def p3s_ops split: driver_state.splits driver.splits list.splits option.splits if_splits)

lemma poll_keeps_tx: "p3s_poll w = Some (status, w') \<Longrightarrow> s_in_tx (stream w') = s_in_tx (stream w)"
  by (auto simp: p3s_poll_def Let_def split: if_splits option.splits list.splits P3sEvent.splits sum.splits)

text \<open>What a caller has pushed is what it had to, and it closes behind the last frame only.\<close>

definition in_step :: "reaction \<Rightarrow> served_config \<Rightarrow> bool" where
  "in_step A c \<longleftrightarrow> prefix (pushed c) (fst (A (heard c))) \<and>
     (s_in_tx (stream (conn c)) \<or> A (heard c) = (pushed c, True))"

lemma causalD:
  assumes "causal A"
  shows "prefix (fst (A outs)) (fst (A (outs @ later)))" "snd (A outs) \<Longrightarrow> A (outs @ later) = A outs"
  using assms unfolding causal_def by blast+

lemma served_in_step: "served_step A c c' \<Longrightarrow> causal A \<Longrightarrow> in_step A c \<Longrightarrow> in_step A c'"
proof (induction rule: served_step.induct)
  case (sv_worker c w)
  then show ?case using driver_keeps_tx [OF sv_worker.hyps] by (simp add: in_step_def)
next
  case (sv_poll c status w)
  have "prefix (pushed c) (fst (A (heard c @ read_item status w)))"
    using sv_poll.prems(2) causalD(1) [OF sv_poll.prems(1)] prefix_order.trans unfolding in_step_def by blast
  then show ?case
    using sv_poll.prems(2) poll_keeps_tx [OF sv_poll.hyps(2)] causalD(2) [OF sv_poll.prems(1), of "heard c"]
    by (auto simp: in_step_def)
next
  case (sv_push c chunk)
  then show ?case by (auto simp: in_step_def p3s_push_def prefix_def)
next
  case (sv_close c)
  then show ?case by (simp add: in_step_def)
qed

text \<open>Seen from the worker, the caller might have known its frames all along.\<close>

definition as_config :: "bytes list \<Rightarrow> served_config \<Rightarrow> p3s_config" where
  "as_config rest c = \<lparr>world = conn c, todo = rest, seen = heard c\<rparr>"

lemma served_step_known:
  assumes "served_step A c c'" and "in_step A c" and "s_in_tx (stream (conn c')) \<or> rest = []"
  obtains rest0 where "pushed c @ rest0 = pushed c' @ rest" "p3s_step (as_config rest0 c) (as_config rest c')"
    "s_in_tx (stream (conn c)) \<or> rest0 = []"
  using assms
proof (cases rule: served_step.cases)
  case (sv_worker w)
  have "p3s_step (as_config rest c) ((as_config rest c)\<lparr>world := w\<rparr>)"
    using sv_worker(2) by (intro s_worker) (simp add: as_config_def)
  with sv_worker assms(3) driver_keeps_tx [OF sv_worker(2)] show ?thesis
    by (intro that [of rest]) (simp_all add: as_config_def)
next
  case (sv_poll status w)
  have "p3s_step (as_config rest c) ((as_config rest c)\<lparr>world := w, seen := heard c @ read_item status w\<rparr>)"
    using s_poll [of "as_config rest c" status w] sv_poll(2,3) by (simp add: as_config_def)
  with sv_poll assms(3) poll_keeps_tx [OF sv_poll(3)] show ?thesis
    by (intro that [of rest]) (simp_all add: as_config_def)
next
  case (sv_push chunk)
  have open_tx: "s_in_tx (stream (conn c))"
    using assms(2) sv_push(2) by (auto simp: in_step_def prefix_def)
  have "p3s_step (as_config (chunk # rest) c) ((as_config (chunk # rest) c)\<lparr>world := p3s_push chunk (conn c), todo := rest\<rparr>)"
    using s_push [of "as_config (chunk # rest) c" chunk rest] by (simp add: as_config_def)
  with sv_push open_tx show ?thesis by (intro that [of "chunk # rest"]) (simp_all add: as_config_def)
next
  case sv_close
  then have "rest = []" using assms(3) by (simp add: p3s_push_end_def)
  moreover have "p3s_step (as_config [] c) ((as_config [] c)\<lparr>world := p3s_push_end (conn c)\<rparr>)"
    using s_push_end [of "as_config [] c"] sv_close by (simp add: as_config_def)
  ultimately show ?thesis using sv_close by (intro that [of "[]"]) (simp_all add: as_config_def)
qed

lemma served_run_known:
  assumes "causal A"
  shows "(served_step A ^^ n) (served_start (p3s_run_session d)) c \<Longrightarrow> in_step A c \<and>
    (\<forall>rest. s_in_tx (stream (conn c)) \<or> rest = [] \<longrightarrow>
       (p3s_step ^^ n) (p3s_start d (pushed c @ rest)) (as_config rest c))"
proof (induction n arbitrary: c)
  case 0
  then show ?case
    by (auto simp: in_step_def served_start_def p3s_start_def as_config_def p3s_run_session_def)
next
  case (Suc n)
  then obtain c0 where c0: "(served_step A ^^ n) (served_start (p3s_run_session d)) c0" "served_step A c0 c"
    by auto
  note IH = Suc.IH [OF c0(1)]
  have "(p3s_step ^^ Suc n) (p3s_start d (pushed c @ rest)) (as_config rest c)"
    if "s_in_tx (stream (conn c)) \<or> rest = []" for rest
  proof -
    from served_step_known [OF c0(2) conjunct1 [OF IH] that] obtain rest0 where
      "pushed c0 @ rest0 = pushed c @ rest" "p3s_step (as_config rest0 c0) (as_config rest c)"
      "s_in_tx (stream (conn c0)) \<or> rest0 = []" .
    with IH show ?thesis by (metis relpowp_Suc_I)
  qed
  then show ?case using served_in_step [OF c0(2) assms] IH by blast
qed

section \<open>Drivers that read before their request is complete\<close>

text \<open>Before any frame is read: does the driver come to wait for one without having sent the end mark?\<close>

primrec reads_early :: "driver \<Rightarrow> bool" where
  "reads_early (DReturn r) \<longleftrightarrow> False"
| "reads_early DPanic \<longleftrightarrow> False"
| "reads_early (DChunk bs d) \<longleftrightarrow> reads_early d"
| "reads_early (DEnd d) \<longleftrightarrow> False"
| "reads_early (DNext k) \<longleftrightarrow> True"

text \<open>What a driver sends up to the end mark.\<close>

definition request_of :: "driver \<Rightarrow> out_item list" where
  "request_of d = takeWhile (\<lambda>i. i \<noteq> OEnd) (fst (deliver d []))"

lemma request_fixed: "\<not> reads_early d \<Longrightarrow> takeWhile (\<lambda>i. i \<noteq> OEnd) (fst (deliver d ins)) = request_of d"
proof -
  have "takeWhile (\<lambda>i. i \<noteq> OEnd) (fst (deliver d ins)) = takeWhile (\<lambda>i. i \<noteq> OEnd) (fst (deliver d []))"
    if "\<not> reads_early d" using that
    by (induction d) (simp_all add: split_def)
  then show "\<not> reads_early d \<Longrightarrow> ?thesis" by (simp add: request_of_def)
qed

text \<open>The end mark is out, or the driver will send it, or end, before it reads.\<close>

definition end_sent :: "served_config \<Rightarrow> bool" where
  "end_sent c \<longleftrightarrow> (\<exists>q. s_rx (stream (conn c)) = Some q \<and>
     (case driver_st (conn c) of
        DRunning d \<Rightarrow> reads_early d \<longrightarrow> OEnd \<in> set (heard c @ queued_items q)
      | DExited \<Rightarrow> True))"

text \<open>Or: the driver will wait for a frame the caller will not send.\<close>

definition starving :: "served_config \<Rightarrow> bool" where
  "starving c \<longleftrightarrow> (\<exists>q d. s_rx (stream (conn c)) = Some q \<and> list_all emitted q \<and>
     driver_st (conn c) = DRunning d \<and> reads_early d \<and> OEnd \<notin> set (heard c @ queued_items q) \<and>
     pushed c = [] \<and> in_queue (conn c) = [] \<and> s_in_tx (stream (conn c)) \<and> \<not> s_finished (stream (conn c)))"

lemma poll_cases:
  assumes "p3s_poll w = Some (status, w')" and "\<not> s_finished (stream w)" and "s_rx (stream w) = Some q"
  obtains (event) q' where "s_rx (stream w') = Some q'" "driver_st w' = driver_st w"
      "in_queue w' = in_queue w" "s_in_tx (stream w') = s_in_tx (stream w)"
      "read_item status w' @ queued_items q' = queued_items q"
      "list_all emitted q \<Longrightarrow> list_all emitted q' \<and> \<not> s_finished (stream w')"
    | (lost) "q = []" "driver_st w = DExited" "s_rx (stream w') = Some []" "driver_st w' = DExited"
      "read_item status w' = []"
proof (cases q)
  case Nil
  with assms show ?thesis
    by (intro lost) (auto simp: p3s_poll_def Let_def read_item_def p3s_status split: if_splits)
next
  case (Cons ev q')
  show ?thesis
  proof (cases ev)
    case (PDone r)
    with Cons assms show ?thesis
      by (intro event [of q']; cases r) (auto simp: p3s_poll_def Let_def read_item_def p3s_status p3s_out_chunk_def)
  qed (use Cons assms in \<open>intro event [of q'];
      auto simp: p3s_poll_def Let_def read_item_def p3s_status p3s_out_chunk_def\<close>)+
qed

lemma worker_cases:
  assumes "driver_step w = Some w'" and "s_rx (stream w) = Some q"
  obtains (ends) q' where "s_rx (stream w') = Some q'" "driver_st w' = DExited" "\<And>d. driver_st w = DRunning d \<Longrightarrow> \<not> reads_early d"
      "queued_items q' = queued_items q"
    | (dies) "driver_st w = DRunning DPanic" "s_rx (stream w') = Some q" "driver_st w' = DExited"
    | (chunk) bs d where "driver_st w = DRunning (DChunk bs d)" "s_rx (stream w') = Some (q @ [POut bs])"
      "driver_st w' = DRunning d" "in_queue w' = in_queue w" "s_in_tx (stream w') = s_in_tx (stream w)"
      "s_finished (stream w') = s_finished (stream w)"
    | (end_mark) d where "driver_st w = DRunning (DEnd d)" "s_rx (stream w') = Some (q @ [POutEnd])"
      "driver_st w' = DRunning d"
    | (reads) k d where "driver_st w = DRunning (DNext k)" "s_rx (stream w') = Some q" "driver_st w' = DRunning d"
      "in_queue w \<noteq> [] \<or> \<not> s_in_tx (stream w)"
proof (cases "driver_st w")
  case (DRunning d)
  show ?thesis
  proof (cases d)
    case (DReturn r)
    with DRunning assms show ?thesis by (intro ends [of "q @ [PDone r]"]) (auto simp: driver_step_def p3s_ops)
  next
    case DPanic
    with DRunning assms show ?thesis by (intro dies) (auto simp: driver_step_def)
  next
    case (DChunk bs d')
    with DRunning assms show ?thesis by (intro chunk [of bs d']) (auto simp: driver_step_def p3s_ops)
  next
    case (DEnd d')
    with DRunning assms show ?thesis by (intro end_mark [of d']) (auto simp: driver_step_def p3s_ops)
  next
    case (DNext k)
    with DRunning assms show ?thesis
      by (cases "in_queue w") (auto simp: driver_step_def intro: reads split: if_splits)
  qed
qed (use assms in \<open>simp add: driver_step_def\<close>)

lemma served_end_sent: "served_step A c c' \<Longrightarrow> end_sent c \<Longrightarrow> end_sent c'"
proof (induction rule: served_step.induct)
  case (sv_worker c w)
  from sv_worker.prems obtain q where q: "s_rx (stream (conn c)) = Some q" by (auto simp: end_sent_def)
  with sv_worker.prems show ?case
    by (cases rule: worker_cases [OF sv_worker.hyps q]) (simp_all add: end_sent_def)
next
  case (sv_poll c status w)
  from sv_poll.prems obtain q where q: "s_rx (stream (conn c)) = Some q" by (auto simp: end_sent_def)
  from sv_poll.hyps(2,1) q show ?case
  proof (cases rule: poll_cases)
    case (event q')
    from event(5) have "set (read_item status w) \<union> set (queued_items q') = set (queued_items q)"
      by (metis set_append)
    with event(1-4) sv_poll.prems q show ?thesis
      by (auto simp: end_sent_def split: driver_state.splits)
  qed (simp add: end_sent_def)
qed (auto simp: end_sent_def p3s_push_def p3s_push_end_def split: driver_state.splits)

lemma served_run_end_sent:
  "\<not> reads_early d \<Longrightarrow> (served_step A ^^ n) (served_start (p3s_run_session d)) c \<Longrightarrow> end_sent c"
proof (induction n arbitrary: c)
  case 0
  then show ?case by (auto simp: served_start_def p3s_run_session_def end_sent_def)
next
  case (Suc n)
  then show ?case using served_end_sent by auto
qed

section \<open>Callers that answer a request\<close>

text \<open>Nothing before the end mark of the request; then the answer to it, and the close.\<close>

definition responds :: "(out_item list \<Rightarrow> bytes list) \<Rightarrow> reaction" where
  "responds answer outs =
     (if OEnd \<in> set outs then (answer (takeWhile (\<lambda>i. i \<noteq> OEnd) outs), True) else ([], False))"

lemma responds_causal: "causal (responds answer)"
  by (auto simp: causal_def responds_def)

lemma heard_request:
  assumes "\<not> reads_early d" and "prefix hs (fst (deliver d ins))"
  shows "responds answer hs = (if OEnd \<in> set hs then (answer (request_of d), True) else ([], False))"
proof -
  obtain rest where "fst (deliver d ins) = hs @ rest" using assms(2) by (auto simp: prefix_def)
  then have "OEnd \<in> set hs \<Longrightarrow> takeWhile (\<lambda>i. i \<noteq> OEnd) hs = request_of d"
    using request_fixed [OF assms(1), of ins] by simp
  then show ?thesis by (simp add: responds_def)
qed

text \<open>The run is one on the frames of the answer.\<close>

lemma answered_run:
  assumes "\<not> reads_early d" and "(served_step (responds answer) ^^ n) (served_start (p3s_run_session d)) c"
  obtains rest where "pushed c @ rest = answer (request_of d)"
    "(p3s_step ^^ n) (p3s_start d (answer (request_of d))) (as_config rest c)"
    "s_in_tx (stream (conn c)) \<or> rest = []"
proof -
  let ?frames = "answer (request_of d)"
  from served_run_known [OF responds_causal assms(2)] have step: "in_step (responds answer) c"
    and known: "\<And>rest. s_in_tx (stream (conn c)) \<or> rest = [] \<Longrightarrow>
      (p3s_step ^^ n) (p3s_start d (pushed c @ rest)) (as_config rest c)" by blast+
  have "prefix (heard c) (fst (deliver d (pushed c)))"
    using p3s_run_refines [OF known [of "[]"]] by (simp add: as_config_def)
  then have heard: "responds answer (heard c) = (if OEnd \<in> set (heard c) then (?frames, True) else ([], False))"
    by (rule heard_request [OF assms(1)])
  from step heard have "prefix (pushed c) ?frames" by (auto simp: in_step_def split: if_splits)
  then obtain rest where rest: "?frames = pushed c @ rest" by (auto simp: prefix_def)
  moreover have "s_in_tx (stream (conn c)) \<or> rest = []"
    using step heard rest by (auto simp: in_step_def split: if_splits)
  ultimately show ?thesis using known [of rest] that by metis
qed

lemma buffered_polls: "\<not> s_finished (stream w) \<Longrightarrow> s_rx (stream w) = Some (ev # q) \<Longrightarrow> p3s_poll w \<noteq> None"
  by (simp add: p3s_poll_def Let_def split: P3sEvent.splits sum.splits)

text \<open>
  The pair is not stuck when the driver does not read early: one that waits for a frame has sent
  the end mark, so either the caller has something left to read, or it has read it and answers.
\<close>

lemma answered_progress:
  assumes "\<not> reads_early d"
    and run: "(served_step (responds answer) ^^ n) (served_start (p3s_run_session d)) c"
    and unfinished: "\<not> s_finished (stream (conn c))"
  shows "\<exists>c'. served_step (responds answer) c c'"
proof -
  let ?frames = "answer (request_of d)"
  obtain rest where rest: "pushed c @ rest = ?frames" "s_in_tx (stream (conn c)) \<or> rest = []"
    and known: "(p3s_step ^^ n) (p3s_start d ?frames) (as_config rest c)"
    using answered_run [OF assms(1) run] by metis
  from p3s_reachable [OF known] have inv: "p3s_inv (deliver d ?frames) (as_config rest c)" by simp
  then obtain q where q: "s_rx (stream (conn c)) = Some q"
    using unfinished by (auto simp: p3s_inv_def as_config_def)
  consider w where "driver_step (conn c) = Some w" | "p3s_poll (conn c) \<noteq> None"
    | k where "driver_st (conn c) = DRunning (DNext k)" "s_in_tx (stream (conn c))" "q = []"
  proof (cases q)
    case (Cons ev q')
    then show ?thesis using buffered_polls [OF unfinished] q that by blast
  next
    case Nil
    show ?thesis
    proof (cases "driver_st (conn c)")
      case DExited
      then show ?thesis using q Nil unfinished that by (simp add: p3s_poll_def Let_def)
    next
      case (DRunning d')
      then show ?thesis
        using Nil that
        by (cases d'; cases "in_queue (conn c)"; cases "s_in_tx (stream (conn c))")
          (auto simp: driver_step_def)
    qed
  qed
  then show ?thesis
  proof cases
    case 1
    then show ?thesis by (blast intro: sv_worker)
  next
    case 2
    then show ?thesis using unfinished by (auto intro: sv_poll)
  next
    case (3 k)
    have "OEnd \<in> set (heard c)"
      using served_run_end_sent [OF assms(1) run] q 3 by (simp add: end_sent_def)
    moreover have "prefix (heard c) (fst (deliver d ?frames))"
      using p3s_seen_prefix [OF inv] by (simp add: as_config_def)
    ultimately have "responds answer (heard c) = (?frames, True)"
      using heard_request [OF assms(1)] by simp
    note all = this
    show ?thesis
    proof (cases rest)
      case Nil
      with rest all 3(2) show ?thesis by (auto intro!: exI sv_close)
    next
      case (Cons chunk more_rest)
      with rest all have "prefix (pushed c @ [chunk]) (fst (responds answer (heard c)))"
        by (intro prefixI [of _ _ more_rest]) simp
      then show ?thesis by (blast intro: sv_push)
    qed
  qed
qed

lemma request_run:
  assumes "\<not> reads_early d"
    and "(served_step (responds answer) ^^ n) (served_start (p3s_run_session d)) c"
    and "frames = answer (request_of d)"
  shows "prefix (heard c) (fst (deliver d frames)) \<and> prefix (pushed c) frames \<and>
    n \<le> 2 * work d frames + length frames + 2 \<and>
    (s_finished (stream (conn c)) \<or> (\<exists>c'. served_step (responds answer) c c')) \<and>
    (s_finished (stream (conn c)) \<longrightarrow> heard c = fst (deliver d frames) \<and>
       reported (snd (deliver d frames)) (p3s_session_result (conn c)))"
proof -
  obtain rest where "pushed c @ rest = frames" "(p3s_step ^^ n) (p3s_start d frames) (as_config rest c)"
    using answered_run [OF assms(1,2)] assms(3) by metis
  with p3s_run_refines [of n d frames "as_config rest c"] answered_progress [OF assms(1,2)]
  show ?thesis by (auto simp: as_config_def)
qed

section \<open>Drivers that read early starve\<close>

lemma responds_silent: "OEnd \<notin> set hs \<Longrightarrow> responds answer hs = ([], False)"
  by (simp add: responds_def)

lemma served_starving: "served_step (responds answer) c c' \<Longrightarrow> starving c \<Longrightarrow> starving c'"
proof (induction rule: served_step.induct)
  case (sv_worker c w)
  from sv_worker.prems obtain q where q: "s_rx (stream (conn c)) = Some q" by (auto simp: starving_def)
  with sv_worker.prems show ?case
    by (cases rule: worker_cases [OF sv_worker.hyps q]) (auto simp: starving_def)
next
  case (sv_poll c status w)
  from sv_poll.prems obtain q where q: "s_rx (stream (conn c)) = Some q" by (auto simp: starving_def)
  from sv_poll.hyps(2,1) q show ?case
  proof (cases rule: poll_cases)
    case (event q')
    from event(5) have "set (read_item status w) \<union> set (queued_items q') = set (queued_items q)"
      by (metis set_append)
    with event(1-4,6) sv_poll.prems q show ?thesis by (auto simp: starving_def)
  next
    case lost
    with sv_poll.prems show ?thesis by (simp add: starving_def)
  qed
qed (auto simp: starving_def responds_silent)

lemma served_run_starving:
  "reads_early d \<Longrightarrow> (served_step (responds answer) ^^ n) (served_start (p3s_run_session d)) c \<Longrightarrow> starving c"
proof (induction n arbitrary: c)
  case 0
  then show ?case by (auto simp: served_start_def p3s_run_session_def starving_def)
next
  case (Suc n)
  then show ?case using served_starving by auto
qed

text \<open>Every run is bounded, so it comes to a state without a step.\<close>

lemma served_run_bounded:
  assumes "(served_step (responds answer) ^^ n) (served_start (p3s_run_session d)) c"
  shows "n \<le> 2 * work d (pushed c) + length (pushed c) + 2"
  using served_run_known [OF responds_causal assms] p3s_reachable [of n d "pushed c" "as_config [] c"] by simp

lemma starving_stuck:
  assumes "reads_early d"
  shows "\<exists>n c. (served_step (responds answer) ^^ n) (served_start (p3s_run_session d)) c \<and>
    \<not> s_finished (stream (conn c)) \<and> \<not> (\<exists>c'. served_step (responds answer) c c')"
proof (rule ccontr)
  let ?start = "served_start (p3s_run_session d)" and ?A = "responds answer"
  assume "\<not> ?thesis"
  then have go: "\<exists>c'. served_step ?A c c'" if "(served_step ?A ^^ n) ?start c" for n c
    using that served_run_starving [OF assms that] by (auto simp: starving_def)
  have "\<exists>c. (served_step ?A ^^ n) ?start c" for n
  proof (induction n)
    case (Suc n)
    then show ?case using go by (metis relpowp_Suc_I)
  qed auto
  then obtain c where c: "(served_step ?A ^^ (2 * work d [] + 3)) ?start c" by blast
  moreover have "pushed c = []" using served_run_starving [OF assms c] by (auto simp: starving_def)
  ultimately show False using served_run_bounded [OF c] by simp
qed

section \<open>Properties\<close>

text \<open>
  C11. Request and response over the streaming bridge, for a driver that sends its end mark (or ends)
  before it first reads, with a caller that answers only once it has read that mark: under every
  schedule the session cannot deadlock and takes a bounded number of steps, the caller reads what
  the driver sends when run directly on the answer, and the result is what the driver makes of it.
\<close>

theorem request_response_session:
  assumes "\<not> reads_early d"
    and "(served_step (responds answer) ^^ n) (served_start (p3s_run_session d)) c"
    and "frames = answer (request_of d)"
  shows "prefix (heard c) (fst (deliver d frames)) \<and> prefix (pushed c) frames \<and>
    n \<le> 2 * work d frames + length frames + 2 \<and>
    (s_finished (stream (conn c)) \<or> (\<exists>c'. served_step (responds answer) c c')) \<and>
    (s_finished (stream (conn c)) \<longrightarrow> heard c = fst (deliver d frames) \<and>
       reported (snd (deliver d frames)) (p3s_session_result (conn c)))"
  using assms by (rule request_run)

text \<open>An app that echoes the request it has read, and the driver that takes one frame.\<close>

definition echo_app :: "out_item list \<Rightarrow> bytes list" where
  "echo_app outs = [concat (map (\<lambda>i. case i of OChunk bs \<Rightarrow> bs | OEnd \<Rightarrow> []) outs)]"

lemma served_runs_to_end:
  assumes "\<not> reads_early d"
  shows "\<exists>n c. (served_step (responds answer) ^^ n) (served_start (p3s_run_session d)) c \<and>
    s_finished (stream (conn c))"
proof (rule ccontr)
  let ?start = "served_start (p3s_run_session d)" and ?A = "responds answer"
  assume unfinished: "\<nexists>n c. (served_step ?A ^^ n) ?start c \<and> s_finished (stream (conn c))"
  have "\<exists>c. (served_step ?A ^^ n) ?start c" for n
  proof (induction n)
    case (Suc n)
    then obtain c where "(served_step ?A ^^ n) ?start c" by blast
    with answered_progress [OF assms this] unfinished show ?case by (metis relpowp_Suc_I)
  qed auto
  then obtain c where c: "(served_step ?A ^^ (2 * work d (answer (request_of d)) + length (answer (request_of d)) + 3)) ?start c"
    by blast
  obtain rest where "(p3s_step ^^ (2 * work d (answer (request_of d)) + length (answer (request_of d)) + 3))
      (p3s_start d (answer (request_of d))) (as_config rest c)"
    using answered_run [OF assms(1) c] by metis
  from p3s_reachable [OF this] show False by simp
qed

theorem request_response_session_witness:
  "\<exists>n c. (served_step (responds echo_app) ^^ n) (served_start (p3s_run_session demo_driver)) c \<and>
     s_finished (stream (conn c)) \<and> heard c = [OChunk [1], OEnd] \<and> p3s_session_result (conn c) = [1]"
proof -
  have d: "\<not> reads_early demo_driver" by (simp add: demo_driver_def)
  obtain n c where run: "(served_step (responds echo_app) ^^ n) (served_start (p3s_run_session demo_driver)) c"
    and fin: "s_finished (stream (conn c))" using served_runs_to_end [OF d] by blast
  from request_response_session [OF d run refl] fin
  have "heard c = [OChunk [1], OEnd]" "p3s_session_result (conn c) = [1]"
    by (simp_all add: demo_driver_def request_of_def echo_app_def)
  with run fin show ?thesis by blast
qed

text \<open>
  C16. That condition on the driver is exact: with such a caller a session can come to a state that is
  not finished and from which neither thread can move exactly when the driver reads before it has
  sent its end mark.
\<close>

theorem answering_deadlock_iff:
  "(\<exists>n c. (served_step (responds answer) ^^ n) (served_start (p3s_run_session d)) c \<and>
      \<not> s_finished (stream (conn c)) \<and> \<not> (\<exists>c'. served_step (responds answer) c c')) \<longleftrightarrow> reads_early d"
  using starving_stuck [of d answer] answered_progress [of d _ answer] by blast

end
