(* ===== verification/Http_Session.thy ===== *)
theory Http_Session
  imports Stream_Server C_Abi Inference_Guest
begin

text \<open>
  Streaming sessions end to end: from the C entry points, through the threads, between the shipped
  guests and an app that answers the request it has read.
\<close>

section \<open>The guests as drivers\<close>

lemma collect_quiet:
  "(\<And>fs ins. fst (deliver (k fs) ins) = []) \<Longrightarrow> fst (deliver (collect_frames t n k acc) ins) = []"
  by (induction n arbitrary: acc ins) (auto split: list.split)

lemma response_quiet: "fst (deliver (response_driver t n dbg out) ins) = []"
  by (auto simp: response_driver_def collect_quiet split: list.split sum.split)

lemma emit_early: "OutEnd \<in> set evs \<Longrightarrow> \<not> reads_early (emit_events evs d)"
  by (induction evs rule: out_items.induct) simp_all

lemma work_emit: "work (emit_events evs d) ins = length evs + work d ins"
  by (induction evs rule: out_items.induct) simp_all

lemma out_items_frames: "out_items (map OutChunk fs @ [OutEnd]) = map OChunk fs @ [OEnd]"
  by (induction fs) simp_all

text \<open>An HTTP guest: its frames, the end mark, then the response.\<close>

abbreviation exchange_driver :: "bytes list \<Rightarrow> wasm_error \<Rightarrow> nat \<Rightarrow> (rstr \<Rightarrow> rstr) \<Rightarrow> (u16 \<Rightarrow> bytes \<Rightarrow> bytes) \<Rightarrow> driver" where
  "exchange_driver fs t n dbg out \<equiv> emit_events (map OutChunk fs @ [OutEnd]) (response_driver t n dbg out)"

lemma exchange_facts:
  "\<not> reads_early (exchange_driver fs t n dbg out)"
  "fst (deliver (exchange_driver fs t n dbg out) ins) = map OChunk fs @ [OEnd]"
  "request_of (exchange_driver fs t n dbg out) = map OChunk fs"
  "work (exchange_driver fs t n dbg out) ins \<le> length fs + length ins + 3"
  "length ins \<le> n \<Longrightarrow>
     snd (deliver (exchange_driver fs t n dbg out) ins) = Completed (Ok (response_output out dbg ins))"
proof -
  show *: "fst (deliver (exchange_driver fs t n dbg out) ins) = map OChunk fs @ [OEnd]" for ins
    by (simp add: deliver_emit response_quiet out_items_frames)
  have "takeWhile (\<lambda>i. i \<noteq> OEnd) (map OChunk fs @ [OEnd]) = map OChunk fs" by (induction fs) simp_all
  then show "request_of (exchange_driver fs t n dbg out) = map OChunk fs"
    by (simp only: request_of_def *)
  show "work (exchange_driver fs t n dbg out) ins \<le> length fs + length ins + 3"
    using work_response [of t n dbg out ins] by (simp add: work_emit)
qed (simp_all add: emit_early deliver_emit deliver_response)

lemma inference_guest_sends:
  "\<not> reads_early (inference_guest_driver t n)"
  "fst (deliver (inference_guest_driver t n) ins) =
     [OChunk (as_bytes (completion_head guest_messages guest_opts)), OEnd]"
  "request_of (inference_guest_driver t n) = [OChunk (as_bytes (completion_head guest_messages guest_opts))]"
  by (simp_all add: inference_guest_driver_eq request_of_def collect_quiet split_def)

section \<open>The sessions the entry points start\<close>

lemma streaming_starts:
  "fst (hwr_p3s_start_http W G override p component st) = Some w \<longleftrightarrow>
     (\<exists>bs eng cmp. component = Some bs \<and> p3s_engine W (p \<noteq> 0) = Returned (Some eng) \<and>
        fst (compile_component W eng (Binary bs) st) = Returned (Ok cmp) \<and>
        w = p3s_http_session G override eng cmp)"
  "fst (hwr_p3s_start_inference W G override p component st) = Some w \<longleftrightarrow>
     (\<exists>bs eng cmp. component = Some bs \<and> p3s_engine W (p \<noteq> 0) = Returned (Some eng) \<and>
        fst (compile_component W eng (Binary bs) st) = Returned (Ok cmp) \<and>
        w = p3s_inference_session G override eng cmp)"
  unfolding start_defs start_with_Some ok_or_none_Ok by blast+

section \<open>Properties\<close>

text \<open>
  C12. An HTTP exchange end to end.  The C entry point compiles a component whose \<open>run\<close> is one of the
  shipped GET, POST and trailers guests and starts a session; an app reads its events and, once it
  has read the end mark, pushes the frames it chooses for the request it has read and closes.  Under
  every schedule the two never deadlock and take a bounded number of steps; when the session is
  finished the app has read what the run of the guest on the host of \<open>Http_Guests\<close>, with the frames
  of the answer, sends; and, if the fuel lasts for these frames, the bytes behind
  \<open>hwr_p3s_result_ptr\<close> are those that run returns.
\<close>

theorem http_session_end_to_end:
  assumes "g = guest_side (http_engine G)" and "engine_ok g"
    and "component = Some bs" and "p3s_engine W (p \<noteq> 0) = Returned (Some eng)"
    and "fst (compile_component W eng (Binary bs) st) = Returned (Ok cmp)"
    and "http_run_of G eng cmp (fuel_budget override) = Ok (shipped_prog g trap n which)"
    and "fst (hwr_p3s_start_http W G override p component st) = Some w"
    and "(served_step (responds answer) ^^ k) (served_start w) c"
  shows "\<exists>reqs frames out h. frames = answer (map OChunk reqs) \<and>
    shipped_run g which (http_host_with_transport [] frames) = (Got out, h) \<and>
    sent h = map OutChunk reqs @ [OutEnd] \<and>
    k \<le> 3 * length frames + 2 * length reqs + 8 \<and>
    (s_finished (stream (conn c)) \<or> (\<exists>c'. served_step (responds answer) c c')) \<and>
    (s_finished (stream (conn c)) \<longrightarrow> heard c = out_items (sent h) \<and>
       (length frames \<le> n \<longrightarrow> hwr_p3s_result_ptr (Some (conn c)) = Some out))"
proof -
  obtain reqs where both: "\<And>ins ins'. live_run (http_engine G) (shipped_prog g trap n which) (http_host_with_transport [] ins') =
      exchange_driver reqs (out_of_fuel (http_engine G)) n (debug_fmt (host_env g)) (shipped_output which) \<and>
    (\<exists>h. shipped_run g which (http_host_with_transport [] ins) =
        (Got (response_output (shipped_output which) (debug_fmt (host_env g)) ins), h) \<and>
      sent h = map OutChunk reqs @ [OutEnd])"
    using shipped_agrees [OF assms(2) assms(1) [symmetric]] by blast
  let ?d = "exchange_driver reqs (out_of_fuel (http_engine G)) n (debug_fmt (host_env g)) (shipped_output which)"
  let ?frames = "answer (map OChunk reqs)"
  have "w = p3s_http_session G override eng cmp" using assms(3-5,7) unfolding streaming_starts(1) by auto
  also have "\<dots> = p3s_run_session ?d" using both assms(6) by (simp add: p3s_http_session_def)
  finally have w: "w = p3s_run_session ?d" .
  obtain h where h: "shipped_run g which (http_host_with_transport [] ?frames) =
      (Got (response_output (shipped_output which) (debug_fmt (host_env g)) ?frames), h)"
    "sent h = map OutChunk reqs @ [OutEnd]" using both by blast
  from request_run [OF exchange_facts(1) assms(8) [unfolded w] refl] h
    exchange_facts(4) [of reqs "out_of_fuel (http_engine G)" n "debug_fmt (host_env g)" "shipped_output which" ?frames]
  show ?thesis
    by (intro exI [of _ reqs] exI [of _ ?frames] exI [of _ h]
        exI [of _ "response_output (shipped_output which) (debug_fmt (host_env g)) ?frames"])
      (auto simp: exchange_facts(2,3,5) out_items_frames hwr_p3s_result_ptr_def)
qed

text \<open>An app that parses the request frames and answers with a status and the request line it read.\<close>

definition line_app :: "out_item list \<Rightarrow> bytes list" where
  "line_app outs =
     (case parse_request_frames (map (\<lambda>i. case i of OChunk bs \<Rightarrow> bs | OEnd \<Rightarrow> []) outs) of
        Inr rf \<Rightarrow> [blit ''201'', rf_head rf]
      | Inl _ \<Rightarrow> [])"

lemma line_app_answers:
  "line_app [OChunk (encode Head (blit ''GET https://example.com/''))] = [blit ''201'', blit ''GET https://example.com/'']"
proof -
  have "parse_request_frames [encode Head (blit ''GET https://example.com/'')] =
      Ok \<lparr>rf_head = blit ''GET https://example.com/'', rf_body = [], rf_trailers = None\<rparr>"
    unfolding parse_accepts_iff
    by (intro exI [of _ "blit ''GET https://example.com/''"] exI [of _ "[]"] exI [of _ None])
      (simp add: request_frames_def)
  then show ?thesis by (simp add: line_app_def)
qed

theorem http_session_end_to_end_witness:
  "\<exists>w k c. fst (hwr_p3s_start_http demo_wasmtime demo_guests 0 1 (Some [0]) jit_init) = Some w \<and>
     (served_step (responds line_app) ^^ k) (served_start w) c \<and> s_finished (stream (conn c)) \<and>
     hwr_p3s_result_ptr (Some (conn c)) = Some (201 # 0 # blit ''GET https://example.com/'')"
proof -
  let ?G = "demo_guests" and ?req = "[OChunk (encode Head (blit ''GET https://example.com/''))]"
  have g: "demo_engine = guest_side (http_engine ?G)" by (simp add: demo_guests_def)
  obtain eng cmp where eng: "p3s_engine demo_wasmtime ((1 :: i32) \<noteq> 0) = Returned (Some eng)"
    "fst (compile_component demo_wasmtime eng (Binary [0]) jit_init) = Returned (Ok cmp)"
    by (simp add: p3s_engine_def pulley_target_def compile_component_def stock_def demo_wasmtime_def)
  have prog: "http_run_of ?G eng cmp (fuel_budget 0) = Ok (shipped_prog demo_engine no_engine 2 GetGuest)"
    by (simp add: demo_guests_def)
  define w where "w = p3s_http_session ?G 0 eng cmp"
  have start: "fst (hwr_p3s_start_http demo_wasmtime ?G 0 1 (Some [0]) jit_init) = Some w"
    using eng unfolding streaming_starts(1) w_def by blast
  obtain reqs where live: "live_run (http_engine ?G) (shipped_prog demo_engine no_engine 2 GetGuest) (http_host_with_transport [] []) =
      exchange_driver reqs (out_of_fuel (http_engine ?G)) 2 (debug_fmt (host_env demo_engine)) (shipped_output GetGuest)"
    using shipped_agrees [OF demo_engine_ok g [symmetric]] by metis
  obtain k c where run: "(served_step (responds line_app) ^^ k) (served_start w) c"
    and fin: "s_finished (stream (conn c))"
    using served_runs_to_end [OF exchange_facts(1), of line_app] live prog
    by (simp add: w_def p3s_http_session_def) blast
  obtain h where h: "http_guest_run demo_engine (http_host_with_transport [] (line_app ?req)) =
      (Got (response_output echo_status_body (debug_fmt (host_env demo_engine)) (line_app ?req)), h)"
    "sent h = [OutChunk (encode Head (blit ''GET https://example.com/'')), OutEnd]"
    using http_guest_exchange [OF demo_engine_ok] by metis
  from http_session_end_to_end [OF g demo_engine_ok refl eng prog start run] fin obtain reqs out h'
    where out: "http_guest_run demo_engine (http_host_with_transport [] (line_app (map OChunk reqs))) = (Got out, h')"
      "sent h' = map OutChunk reqs @ [OutEnd]"
      "length (line_app (map OChunk reqs)) \<le> 2 \<longrightarrow> hwr_p3s_result_ptr (Some (conn c)) = Some out"
    by auto
  obtain h2 where "http_guest_run demo_engine (http_host_with_transport [] (line_app (map OChunk reqs))) =
      (Got (response_output echo_status_body (debug_fmt (host_env demo_engine)) (line_app (map OChunk reqs))), h2)"
    "sent h2 = [OutChunk (encode Head (blit ''GET https://example.com/'')), OutEnd]"
    using http_guest_exchange [OF demo_engine_ok] by metis
  with out have reqs: "reqs = [encode Head (blit ''GET https://example.com/'')]"
    and "out = response_output echo_status_body (debug_fmt (host_env demo_engine)) (line_app (map OChunk reqs))"
    by (cases reqs; auto)+
  then have "out = 201 # 0 # blit ''GET https://example.com/''"
    by (simp add: line_app_answers demo_answer)
  then have "hwr_p3s_result_ptr (Some (conn c)) = Some (201 # 0 # blit ''GET https://example.com/'')"
    using out(3) reqs by (simp add: line_app_answers)
  then show ?thesis using start run fin by blast
qed

text \<open>The same for the inference guest and an app that streams tokens once it has the request.\<close>

lemma inference_session_end_to_end:
  assumes "component = Some bs" and "p3s_engine W (p \<noteq> 0) = Returned (Some eng)"
    and "fst (compile_component W eng (Binary bs) st) = Returned (Ok cmp)"
    and "inference_run_of G eng cmp (fuel_budget override) = Ok (inference_guest_prog n)"
    and "inference_engine_of G = \<lparr>token_mint = Ok CallerTokens, tokens_out_of_fuel = fuel_trap\<rparr>"
    and "fst (hwr_p3s_start_inference W G override p component st) = Some w"
    and "(served_step (responds answer) ^^ k) (served_start w) c"
    and "tokens = answer [OChunk (as_bytes (completion_head guest_messages guest_opts))]"
    and "length tokens < n"
  shows "(s_finished (stream (conn c)) \<or> (\<exists>c'. served_step (responds answer) c c')) \<and>
    (s_finished (stream (conn c)) \<longrightarrow>
       hwr_p3s_result_ptr (Some (conn c)) = Some (as_bytes (concat (map from_utf8_lossy tokens))))"
proof -
  let ?d = "inference_guest_driver fuel_trap n"
  have "w = p3s_inference_session G override eng cmp"
    using assms(1-3,6) unfolding streaming_starts(2) by auto
  then have w: "w = p3s_run_session ?d"
    using assms(4,5) by (simp add: p3s_inference_session_def inference_guest_driver_def)
  have tokens: "tokens = answer (request_of ?d)" by (simp add: inference_guest_sends assms(8))
  have "snd (deliver ?d tokens) = Completed (Ok (as_bytes (concat (map from_utf8_lossy tokens))))"
    by (simp add: inference_guest_driver_eq deliver_collect [OF assms(9)])
  then show ?thesis
    using request_run [OF inference_guest_sends(1) assms(7) [unfolded w] tokens]
    by (auto simp: hwr_p3s_result_ptr_def)
qed

end
