(* ===== verification/Bench_Programs.thy ===== *)
theory Bench_Programs
  imports C_Abi
begin

text \<open>
  The benchmarks of \<open>examples/\<close>: the two WebAssembly loops they time, with a semantics of the
  structured instructions these use, and the checks \<open>bench_ios\<close> and \<open>pulley_latency\<close> make around
  them.  Timing and printing are left out.
\<close>

unbundle bit_operations_syntax

section \<open>WebAssembly with loops\<close>

text \<open>
  Folded expressions and statements over locals of one width; \<open>WBrIf l a b\<close> is
  \<open>(br_if $l (ge_u a b))\<close>.  A label is the number of blocks and loops between it and its use.
\<close>

datatype 'v wexpr =
    WGet nat
  | WConst 'v
  | WAdd "'v wexpr" "'v wexpr"
  | WMul "'v wexpr" "'v wexpr"
  | WXor "'v wexpr" "'v wexpr"
  | WRotl "'v wexpr" "'v wexpr"

datatype 'v wstmt =
    WSet nat "'v wexpr"
  | WBrIf nat "'v wexpr" "'v wexpr"
  | WBr nat
  | WBlock "'v wstmt list"
  | WLoop "'v wstmt list"

primrec weval :: "('l :: len) word wexpr \<Rightarrow> 'l word list \<Rightarrow> 'l word" where
  "weval (WGet i) ls = ls ! i"
| "weval (WConst c) ls = c"
| "weval (WAdd a b) ls = weval a ls + weval b ls"
| "weval (WMul a b) ls = weval a ls * weval b ls"
| "weval (WXor a b) ls = weval a ls XOR weval b ls"
| "weval (WRotl a b) ls = word_rotl (unat (weval b ls)) (weval a ls)"

text \<open>
  A run ends normally or with a branch to an enclosing label.  \<open>fuel\<close> bounds how often a loop may be
  repeated; \<open>None\<close> is a loop still running then.
\<close>

fun wrun :: "nat \<Rightarrow> ('l :: len) word wstmt list \<Rightarrow> 'l word list \<Rightarrow> ('l word list \<times> nat option) option" where
  "wrun fuel [] ls = Some (ls, None)"
| "wrun fuel (WSet i e # ss) ls = wrun fuel ss (ls[i := weval e ls])"
| "wrun fuel (WBrIf l a b # ss) ls =
     (if weval b ls \<le> weval a ls then Some (ls, Some l) else wrun fuel ss ls)"
| "wrun fuel (WBr l # ss) ls = Some (ls, Some l)"
| "wrun fuel (WBlock body # ss) ls =
     (case wrun fuel body ls of
        None \<Rightarrow> None
      | Some (ls', Some (Suc l)) \<Rightarrow> Some (ls', Some l)
      | Some (ls', _) \<Rightarrow> wrun fuel ss ls')"
| "wrun fuel (WLoop body # ss) ls =
     (case wrun fuel body ls of
        None \<Rightarrow> None
      | Some (ls', None) \<Rightarrow> wrun fuel ss ls'
      | Some (ls', Some 0) \<Rightarrow> (case fuel of 0 \<Rightarrow> None | Suc fuel' \<Rightarrow> wrun fuel' (WLoop body # ss) ls')
      | Some (ls', Some (Suc l)) \<Rightarrow> Some (ls', Some l))"

section \<open>The two loops\<close>

text \<open>\<open>add\<close> of \<open>COMPUTE_COMPONENT_WAT\<close>: locals \<open>$n\<close>, \<open>$unused\<close>, \<open>$i\<close>, \<open>$acc\<close>.\<close>

definition COMPUTE_COMPONENT_WAT :: "32 word wstmt list" where
  "COMPUTE_COMPONENT_WAT =
     [WBlock [WLoop [
        WBrIf 1 (WGet 2) (WGet 0),
        WSet 3 (WXor (WAdd (WGet 3) (WMul (WGet 2) (WConst 2654435761))) (WRotl (WGet 3) (WConst 7))),
        WSet 2 (WAdd (WGet 2) (WConst 1)),
        WBr 0]]]"

definition compute_add :: "nat \<Rightarrow> i32 \<Rightarrow> i32 \<Rightarrow> i32 option" where
  "compute_add fuel a b = map_option (\<lambda>(ls, _). ls ! 3) (wrun fuel COMPUTE_COMPONENT_WAT [a, b, 0, 0])"

text \<open>\<open>run\<close> of \<open>WAT\<close>: locals \<open>$n\<close>, \<open>$i\<close>, \<open>$acc\<close>.\<close>

definition LATENCY_WAT :: "64 word wstmt list" where
  "LATENCY_WAT =
     [WSet 2 (WConst 0),
      WSet 1 (WConst 0),
      WBlock [WLoop [
        WBrIf 1 (WGet 1) (WGet 0),
        WSet 2 (WXor (WAdd (WGet 2) (WMul (WGet 1) (WConst 2654435761))) (WRotl (WGet 2) (WConst 7))),
        WSet 1 (WAdd (WGet 1) (WConst 1)),
        WBr 0]]]"

definition latency_run :: "nat \<Rightarrow> i64 \<Rightarrow> i64 option" where
  "latency_run fuel n = map_option (\<lambda>(ls, _). ls ! 2) (wrun fuel LATENCY_WAT [n, 0, 0])"

section \<open>What they compute\<close>

primrec acc_after :: "nat \<Rightarrow> ('l :: len) word" where
  "acc_after 0 = 0"
| "acc_after (Suc k) = (acc_after k + of_nat k * 2654435761) XOR word_rotl 7 (acc_after k)"

lemma of_nat_less:
  assumes "k < unat (n :: ('l :: len) word)"
  shows "unat (of_nat k :: 'l word) = k"
proof -
  have "unat n < 2 ^ LENGTH('l)" by (rule unsigned_less)
  with assms have "k < 2 ^ LENGTH('l)" by linarith
  then show ?thesis by (simp add: unat_of_nat)
qed

text \<open>The common body, by the places of the two locals it writes.\<close>

definition round_body :: "nat \<Rightarrow> nat \<Rightarrow> ('l :: len) word wstmt list" where
  "round_body i acc =
     [WBrIf 1 (WGet i) (WGet 0),
      WSet acc (WXor (WAdd (WGet acc) (WMul (WGet i) (WConst 2654435761))) (WRotl (WGet acc) (WConst 7))),
      WSet i (WAdd (WGet i) (WConst 1)),
      WBr 0]"

lemma seven: "unat (7 :: 32 word) = 7" "unat (7 :: 64 word) = 7"
  by simp_all

definition round_state :: "('l :: len) word list \<Rightarrow> nat \<Rightarrow> nat \<Rightarrow> nat \<Rightarrow> 'l word list" where
  "round_state ls i acc k = ls[i := of_nat k, acc := acc_after k]"

text \<open>
  From the state after \<open>k\<close> rounds, the remaining rounds run if the fuel lasts for them, and then the
  loop branches to the block around it.
\<close>

definition places :: "('l :: len) word list \<Rightarrow> nat \<Rightarrow> nat \<Rightarrow> bool" where
  "places ls i acc \<longleftrightarrow> 0 < i \<and> 0 < acc \<and> i \<noteq> acc \<and> i < length ls \<and> acc < length ls \<and> unat (7 :: 'l word) = 7"

lemma round_run:
  fixes ls :: "('l :: len) word list"
  assumes "places ls i acc" and "k \<le> unat (ls ! 0)"
  shows "wrun fuel (round_body i acc) (round_state ls i acc k) =
    (if k = unat (ls ! 0) then Some (round_state ls i acc k, Some 1)
     else Some (round_state ls i acc (Suc k), Some 0))"
proof -
  have "ls ! 0 \<le> (of_nat k :: 'l word) \<longleftrightarrow> k = unat (ls ! 0)"
    using assms(2) of_nat_less [of k "ls ! 0"] by (cases "k = unat (ls ! 0)") (auto simp: word_le_nat_alt)
  moreover have "xs[acc := x, i := y] = xs[i := y, acc := x]" for xs :: "'l word list" and x y
    using assms(1) by (simp add: places_def list_update_swap)
  ultimately show ?thesis
    using assms(1) by (simp add: places_def round_body_def round_state_def add.commute)
qed

lemma loop_run:
  assumes "places ls i acc"
  shows "k \<le> unat (ls ! 0) \<Longrightarrow> wrun fuel [WLoop (round_body i acc)] (round_state ls i acc k) =
     (if unat (ls ! 0) - k \<le> fuel then Some (round_state ls i acc (unat (ls ! 0)), Some 0) else None)"
proof (induction "unat (ls ! 0) - k" arbitrary: k fuel)
  case 0
  then have "k = unat (ls ! 0)" by simp
  then show ?case using round_run [OF assms, of k fuel] by simp
next
  case (Suc m)
  then have k: "k < unat (ls ! 0)" "m = unat (ls ! 0) - Suc k" "Suc k \<le> unat (ls ! 0)" by simp_all
  then show ?case
    using round_run [OF assms, of k fuel] Suc.hyps(1) [OF k(2,3)] by (cases fuel) (simp_all, linarith+)
qed

lemma compute_is_rounds: "COMPUTE_COMPONENT_WAT = [WBlock [WLoop (round_body 2 3)]]"
  by (simp add: COMPUTE_COMPONENT_WAT_def round_body_def)

lemma latency_is_rounds: "LATENCY_WAT = [WSet 2 (WConst 0), WSet 1 (WConst 0), WBlock [WLoop (round_body 1 2)]]"
  by (simp add: LATENCY_WAT_def round_body_def)

lemma benchmark_loops_eq:
  "compute_add fuel a b = (if unat a \<le> fuel then Some (acc_after (unat a)) else None)"
  "latency_run fuel n = (if unat n \<le> fuel then Some (acc_after (unat n)) else None)"
proof -
  have "round_state [a, b, 0, 0] 2 3 0 = [a, b, 0, 0]" by (simp add: round_state_def)
  then show "compute_add fuel a b = (if unat a \<le> fuel then Some (acc_after (unat a)) else None)"
    using loop_run [of "[a, b, 0, 0]" 2 3 0 fuel]
    by (simp add: places_def compute_add_def compute_is_rounds seven round_state_def)
  have "round_state [n, 0, 0] 1 2 0 = [n, 0, 0]" by (simp add: round_state_def)
  then show "latency_run fuel n = (if unat n \<le> fuel then Some (acc_after (unat n)) else None)"
    using loop_run [of "[n, 0, 0]" 1 2 0 fuel]
    by (simp add: places_def latency_run_def latency_is_rounds seven round_state_def)
qed

section \<open>\<open>pulley_latency\<close>\<close>

text \<open>
  The engine calls of \<open>bench\<close> are parameters: \<open>mk\<close> builds engine, module, store and instance for a
  backend, and \<open>call\<close> calls \<open>run\<close>.  \<open>None\<close> is an \<open>expect\<close> or an assertion that panics.
\<close>

primrec call_times :: "(i64 \<Rightarrow> 's \<Rightarrow> i64 option \<times> 's) \<Rightarrow> i64 \<Rightarrow> nat \<Rightarrow> i64 \<Rightarrow> 's \<Rightarrow> i64 option" where
  "call_times call n 0 latest s = Some latest"
| "call_times call n (Suc iters) latest s =
     (case call n s of (None, s) \<Rightarrow> None | (Some r, s) \<Rightarrow> call_times call n iters r s)"

definition bench ::
  "(bool \<Rightarrow> 's option) \<Rightarrow> (i64 \<Rightarrow> 's \<Rightarrow> i64 option \<times> 's) \<Rightarrow> bool \<Rightarrow> i64 \<Rightarrow> nat \<Rightarrow> i64 option" where
  "bench mk call use_pulley n iters =
     (case mk use_pulley of
        None \<Rightarrow> None
      | Some s \<Rightarrow>
          (case call n s of
             (None, s) \<Rightarrow> None
           | (Some latest, s) \<Rightarrow> call_times call n iters latest s))"

definition row :: "(bool \<Rightarrow> 's option) \<Rightarrow> (i64 \<Rightarrow> 's \<Rightarrow> i64 option \<times> 's) \<Rightarrow> i64 \<Rightarrow> nat \<Rightarrow> unit option" where
  "row mk call n iters =
     (case bench mk call False n iters of
        None \<Rightarrow> None
      | Some r1 \<Rightarrow>
          (case bench mk call True n iters of
             None \<Rightarrow> None
           | Some r2 \<Rightarrow> if r1 = r2 then Some () else None))"

text \<open>On backends that run the program, the two agree for every size and number of calls.\<close>

lemma call_times_result:
  assumes "\<And>s. fst (call n s) = Some r"
  shows "call_times call n iters latest s = Some (if iters = 0 then latest else r)"
proof (induction iters arbitrary: latest s)
  case (Suc iters)
  show ?case using assms [of s] Suc.IH by (cases "call n s") simp
qed simp

lemma backends_agree:
  assumes "\<And>p. mk p \<noteq> None" and "\<And>n s r. latency_run (unat n) n = Some r \<Longrightarrow> fst (call n s) = Some r"
  shows "bench mk call p n iters = Some (acc_after (unat n))" and "row mk call n iters = Some ()"
proof -
  have call: "fst (call n s) = Some (acc_after (unat n))" for n s
    using assms(2) [of n "acc_after (unat n)" s] benchmark_loops_eq(2) [of "unat n" n] by simp
  show result: "bench mk call p n iters = Some (acc_after (unat n))" for p
  proof -
    obtain s where s: "mk p = Some s" using assms(1) [of p] by auto
    show ?thesis
      using call [of n s] call_times_result [of call n "acc_after (unat n)", OF call]
      by (cases "call n s") (simp add: bench_def s)
  qed
  show "row mk call n iters = Some ()" by (simp add: row_def result)
qed

definition latency_main :: "(bool \<Rightarrow> 's option) \<Rightarrow> (i64 \<Rightarrow> 's \<Rightarrow> i64 option \<times> 's) \<Rightarrow> bool" where
  "latency_main mk call \<longleftrightarrow>
     list_all (\<lambda>(n, iters). row mk call n iters = Some ()) [(10000, 2000), (100000, 500), (1000000, 100)]"

lemma latency_main_ends:
  assumes "\<And>p. mk p \<noteq> None" and "\<And>n s r. latency_run (unat n) n = Some r \<Longrightarrow> fst (call n s) = Some r"
  shows "latency_main mk call"
  by (simp add: latency_main_def backends_agree(2) [OF assms])

text \<open>
  The two programs are not the same workload cut to 32 bits: the rotation is by the width of the
  accumulator, so from three rounds on the component's result is not the low half of the module's.
\<close>

lemma accumulators_differ: "(ucast (acc_after 3 :: i64) :: i32) \<noteq> acc_after 3"
proof
  assume "(ucast (acc_after 3 :: i64) :: i32) = acc_after 3"
  then have "bit (ucast (acc_after 3 :: i64) :: i32) 0 \<longleftrightarrow> bit (acc_after 3 :: i32) 0" by simp
  then show False by (simp add: numeral_3_eq_3 bit_ucast_iff bit_xor_iff bit_word_rotl_iff)
qed

section \<open>\<open>gen_bench_artifact\<close>\<close>

text \<open>
  The bytes the generator writes; \<open>None\<close> is an \<open>expect\<close> that panics.  \<open>compile\<close> is \<open>Component::new\<close>
  on the text and \<open>serialize\<close> is \<open>Component::serialize\<close>.
\<close>

definition gen_bench_artifact ::
  "('cfg, 'eng, 'mod, 'code, 'store, 'inst, 'fn) W \<Rightarrow> ('eng \<Rightarrow> 32 word wstmt list \<Rightarrow> ('code, wasm_error) result) \<Rightarrow>
    ('code \<Rightarrow> (bytes, wasm_error) result) \<Rightarrow> bytes option" where
  "gen_bench_artifact W compile serialize =
     (let cfg = cfg_consume_fuel W (config_new W) in
      case cfg_target W ''pulley64'' cfg of
        Inl _ \<Rightarrow> None
      | Inr cfg \<Rightarrow>
          (case engine_new W cfg of
             Returned (Inr engine) \<Rightarrow>
               (case compile engine COMPUTE_COMPONENT_WAT of
                  Inl _ \<Rightarrow> None
                | Inr component \<Rightarrow>
                    (case serialize component of Inl _ \<Rightarrow> None | Inr bs \<Rightarrow> Some bs))
           | _ \<Rightarrow> None))"

text \<open>
  The artifact is made by the very engine that \<open>hwr_engine_new\<close> makes for Pulley, fuel included, as
  the generator's comment asks; on macOS that engine has the code-memory hook besides.
\<close>

lemma artifact_engine_matches:
  assumes "gen_bench_artifact W compile serialize = Some artifact" and "\<not> target_macos W"
  shows "\<exists>eng comp. hwr_engine_new W 1 = Some \<lparr>he_engine = eng\<rparr> \<and>
    compile eng COMPUTE_COMPONENT_WAT = Ok comp \<and> serialize comp = Ok artifact"
  using assms
  by (auto simp: gen_bench_artifact_def hwr_engine_new_def pulley_target_def configure_engine_def configure_def
      Let_def split: sum.splits outcome.splits)

section \<open>\<open>bench_ios\<close>\<close>

definition ERR :: i64 where "ERR = i64_MIN"

primrec repeat_add ::
  "('cfg, 'eng, 'mod, 'code, 'store, 'inst, 'fn) W \<Rightarrow> u64 \<Rightarrow> i32 \<Rightarrow> nat \<Rightarrow> i64 \<Rightarrow>
    ('store, 'inst) HwrInstance option \<Rightarrow> i64 \<times> ('store, 'inst) HwrInstance option" where
  "repeat_add W override n 0 latest inst = (latest, inst)"
| "repeat_add W override n (Suc iters) latest inst =
     (case hwr_instance_call_add W override inst n 0 of (r, inst) \<Rightarrow> repeat_add W override n iters r inst)"

text \<open>One latency row: a warm-up call, the timed calls, and the assertion on the last result.\<close>

fun latency_rows ::
  "('cfg, 'eng, 'mod, 'code, 'store, 'inst, 'fn) W \<Rightarrow> u64 \<Rightarrow> (i32 \<times> nat) list \<Rightarrow>
    ('store, 'inst) HwrInstance option \<Rightarrow> bool" where
  "latency_rows W override [] inst = True"
| "latency_rows W override ((n, iters) # rows) inst =
     (case hwr_instance_call_add W override inst n 0 of (_, inst) \<Rightarrow>
      case repeat_add W override n iters 0 inst of (latest, inst) \<Rightarrow>
      if latest = ERR then False else latency_rows W override rows inst)"

definition bench_ios ::
  "('cfg, 'eng, 'mod, 'code, 'store, 'inst, 'fn) W \<Rightarrow> u64 \<Rightarrow> bytes \<Rightarrow> jit_state \<Rightarrow> bool" where
  "bench_ios W override ARTIFACT st =
     (if hwr_self_test False (Returned ()) \<noteq> 1 then False
      else (case hwr_engine_new W 1 of
        None \<Rightarrow> False
      | Some engine \<Rightarrow>
          (case hwr_instance_new_precompiled W override (Some engine) (Some ARTIFACT) st of
             (None, st) \<Rightarrow> False
           | (Some inst, st) \<Rightarrow>
               (case hwr_instance_call_add W override (Some inst) 10000 0 of (r, inst) \<Rightarrow>
                if r = ERR then False
                else latency_rows W override [(10000, 2000), (100000, 500), (1000000, 100)] inst))))"

text \<open>
  The artifact of \<open>gen_bench_artifact\<close> on the Pulley engine without a compiler: the engine builds, the
  artifact loads on it and instantiates, and on a store that has just got the default budget a call
  whose loop has at most a million rounds ends.
\<close>

definition calls_compute :: "('cfg, 'eng, 'mod, 'code, 'store, 'inst, 'fn) W \<Rightarrow> 'fn \<Rightarrow> bool" where
  "calls_compute W f \<longleftrightarrow>
     (\<forall>a b r s0 s. compute_add 1000000 a b = Some r \<longrightarrow> set_fuel W DEFAULT_FUEL s0 = Returned (Ok s) \<longrightarrow>
        fst (call_func W f [a, b] s) = Returned (Ok r))"

definition carries_compute :: "('cfg, 'eng, 'mod, 'code, 'store, 'inst, 'fn) W \<Rightarrow> bytes \<Rightarrow> bool" where
  "carries_compute W artifact \<longleftrightarrow>
     \<not> target_macos W \<and> (\<forall>s. \<exists>s'. set_fuel W DEFAULT_FUEL s = Returned (Ok s')) \<and>
     (\<exists>cfg eng loaded. cfg_target W ''pulley64'' (configure_engine W (configure W (config_new W))) = Ok cfg \<and>
        engine_new W cfg = Returned (Ok eng) \<and> component_deserialize W eng artifact = LoadDone (Ok loaded) \<and>
        (\<forall>store. \<exists>inst store' f. instantiate W eng loaded None store = Returned (Ok (inst, store')) \<and>
           get_typed_func W inst ''add'' = Returned (Ok f) \<and> calls_compute W f))"

text \<open>An instance of the artifact: calling \<open>add\<close> gives the recurrence and leaves such an instance.\<close>

definition computes :: "('cfg, 'eng, 'mod, 'code, 'store, 'inst, 'fn) W \<Rightarrow> ('store, 'inst) HwrInstance option \<Rightarrow> bool" where
  "computes W inst \<longleftrightarrow>
     (\<exists>h f. inst = Some h \<and> get_typed_func W (hi_instance h) ''add'' = Returned (Ok f) \<and>
        (\<forall>s. \<exists>s'. set_fuel W DEFAULT_FUEL s = Returned (Ok s')) \<and> calls_compute W f)"

lemma computes_call:
  assumes "computes W inst" and "unat n \<le> 1000000"
  obtains inst' where "hwr_instance_call_add W 0 inst n 0 = (i32_as_i64 (acc_after (unat n)), inst')" "computes W inst'"
proof -
  from assms(1) obtain h f where h: "inst = Some h" "get_typed_func W (hi_instance h) ''add'' = Returned (Ok f)"
    and fuel: "\<forall>s. \<exists>s'. set_fuel W DEFAULT_FUEL s = Returned (Ok s')"
    and call: "calls_compute W f"
    unfolding computes_def by blast
  obtain s where s: "set_fuel W DEFAULT_FUEL (hi_store h) = Returned (Ok s)" using fuel by blast
  obtain res s' where r: "call_func W f [n, 0] s = (res, s')" by fastforce
  have "res = Returned (Ok (acc_after (unat n)))"
    using call [unfolded calls_compute_def, rule_format, OF _ s, of n 0 "acc_after (unat n)"]
      benchmark_loops_eq(1) [of 1000000 n 0] assms(2) r by simp
  with h s r fuel call show ?thesis
    by (intro that [of "Some (h\<lparr>hi_store := s'\<rparr>)"])
      (auto simp: hwr_instance_call_add_def fuel_budget_def computes_def)
qed

lemma computes_repeat:
  assumes "unat n \<le> 1000000"
  shows "computes W inst \<Longrightarrow> latest = i32_as_i64 v \<Longrightarrow>
    \<exists>v' inst'. repeat_add W 0 n iters latest inst = (i32_as_i64 v', inst') \<and> computes W inst'"
proof (induction iters arbitrary: latest v inst)
  case (Suc iters)
  obtain inst' where "hwr_instance_call_add W 0 inst n 0 = (i32_as_i64 (acc_after (unat n)), inst')" "computes W inst'"
    using computes_call [OF Suc.prems(1) assms] .
  then show ?case using Suc.IH [OF _ refl] by simp
qed auto

lemma computes_rows:
  "list_all (\<lambda>(n, _). unat n \<le> 1000000) rows \<Longrightarrow> computes W inst \<Longrightarrow> latency_rows W 0 rows inst"
proof (induction rows arbitrary: inst)
  case (Cons x rows)
  obtain n iters where x: "x = (n, iters)" by fastforce
  with Cons.prems have n: "unat n \<le> 1000000" "list_all (\<lambda>(n, _). unat n \<le> 1000000) rows" by simp_all
  obtain i1 where i1: "hwr_instance_call_add W 0 inst n 0 = (i32_as_i64 (acc_after (unat n)), i1)" "computes W i1"
    using computes_call [OF Cons.prems(2) n(1)] .
  obtain v i2 where "repeat_add W 0 n iters 0 i1 = (i32_as_i64 v, i2)" "computes W i2"
    using computes_repeat [OF n(1) i1(2), of 0 0 iters] by auto
  with x i1 Cons.IH [OF n(2)] show ?case by (simp add: ERR_def result_not_MIN)
qed simp

lemma carried_instance:
  assumes "\<not> target_macos W" and "\<forall>s. \<exists>s'. set_fuel W DEFAULT_FUEL s = Returned (Ok s')"
    and "component_deserialize W eng artifact = LoadDone (Ok loaded)"
    and "\<forall>store. \<exists>inst store' f. instantiate W eng loaded None store = Returned (Ok (inst, store')) \<and>
      get_typed_func W inst ''add'' = Returned (Ok f) \<and> calls_compute W f"
  obtains inst st' where
    "hwr_instance_new_precompiled W 0 (Some \<lparr>he_engine = eng\<rparr>) (Some artifact) st = (inst, st')" "computes W inst"
proof -
  obtain s where s: "set_fuel W DEFAULT_FUEL (store_new W eng) = Returned (Ok s)" using assms(2) by blast
  obtain inst s' f where inst: "instantiate W eng loaded None s = Returned (Ok (inst, s'))"
    "get_typed_func W inst ''add'' = Returned (Ok f)" "calls_compute W f"
    using assms(4) by blast
  have "hwr_instance_new_precompiled W 0 (Some \<lparr>he_engine = eng\<rparr>) (Some artifact) st =
      (Some \<lparr>hi_store = s', hi_instance = inst\<rparr>, st)"
    by (simp add: hwr_instance_new_precompiled_def instance_of_def deserialize_component_def assms(1,3) stock_def
        s inst(1) fuel_budget_def act_ok_def act_bind_def eff_def act_return_def)
  then show ?thesis
    by (rule that) (use inst(2,3) assms(2) in \<open>auto simp: computes_def\<close>)
qed

lemma bench_ios_passes:
  assumes "carries_compute W artifact"
  shows "bench_ios W 0 artifact st"
proof -
  obtain cfg eng loaded where cfg: "cfg_target W ''pulley64'' (configure_engine W (configure W (config_new W))) = Ok cfg"
    and eng: "engine_new W cfg = Returned (Ok eng)" and loaded: "component_deserialize W eng artifact = LoadDone (Ok loaded)"
    and made: "\<forall>store. \<exists>inst store' f. instantiate W eng loaded None store = Returned (Ok (inst, store')) \<and>
      get_typed_func W inst ''add'' = Returned (Ok f) \<and> calls_compute W f"
    and mac: "\<not> target_macos W" and fuel: "\<forall>s. \<exists>s'. set_fuel W DEFAULT_FUEL s = Returned (Ok s')"
    using assms unfolding carries_compute_def by blast
  have engine: "hwr_engine_new W 1 = Some \<lparr>he_engine = eng\<rparr>"
    using cfg eng by (simp add: hwr_engine_new_def pulley_target_def)
  obtain inst st' where inst: "hwr_instance_new_precompiled W 0 (Some \<lparr>he_engine = eng\<rparr>) (Some artifact) st = (inst, st')"
    "computes W inst"
    using carried_instance [OF mac fuel loaded made] .
  from inst(2) obtain h where h: "inst = Some h" unfolding computes_def by blast
  obtain inst' where call: "hwr_instance_call_add W 0 inst 10000 0 = (i32_as_i64 (acc_after (unat (10000 :: i32))), inst')"
    "computes W inst'"
    using computes_call [OF inst(2), of 10000] by auto
  have "latency_rows W 0 [(10000, 2000), (100000, 500), (1000000, 100)] inst'"
    by (rule computes_rows [OF _ call(2)]) simp
  then show ?thesis
    using inst(1) call(1) unfolding bench_ios_def engine h
    by (simp add: hwr_self_test_def ERR_def result_not_MIN del: latency_rows.simps)
qed

text \<open>An engine that carries it.\<close>

lemma carries_compute_holds:
  "carries_compute (demo_wasmtime\<lparr>call_func := \<lambda>f args s.
     (case args of [a, b] \<Rightarrow> Returned (Ok (acc_after (unat a))) | _ \<Rightarrow> Panicked, s)\<rparr>) artifact"
  by (simp add: carries_compute_def calls_compute_def demo_wasmtime_def demo_instance_def configure_def
      configure_engine_def benchmark_loops_eq) (rule exI [of _ False], simp)

section \<open>Properties\<close>

text \<open>
  C37. The benchmark loops: each returns exactly when its fuel lasts for as many rounds as its argument
  says, read as an unsigned number (so a negative one asks for nearly \<open>2^32\<close> or \<open>2^64\<close>), and the result
  is the recurrence of its width.
\<close>

theorem benchmark_loops:
  "compute_add fuel a b = (if unat a \<le> fuel then Some (acc_after (unat a)) else None) \<and>
   latency_run fuel n = (if unat n \<le> fuel then Some (acc_after (unat n)) else None)"
  by (simp add: benchmark_loops_eq)

end
