(* ===== verification/Spec2Isabelle.thy ===== *)
theory Spec2Isabelle
  imports Frames Base64 Limits Request_Policy Fetch_Gate Capstone Resource_Table P3_Session
    Wasi_Http_Handle P3_Stream Jit_Memory Engine Embedded_Wasm Plugin_Host C_Abi
    Inference Wasi_Guests Guest_Programs Http_Guests Inference_Guest Http02_Guest Http_Live Runtime_Check
    Stream_Server Http_Session Bench_Programs
begin

text \<open>
  A verification library for \<open>hellohq-wasm-runtime\<close>, the Rust crate that runs HelloHQ plugin
  components (\<open>src/src/*.rs\<close>).

  \<^bold>\<open>The program.\<close>  A caller (the app) loads a plugin through a C ABI, and the plugin reaches the world
  only through hosts the crate provides: workspace, storage, events and log; \<open>wasi:http\<close> in two
  generations; and inference.  Sessions run on worker threads.  Some hosts answer in memory, others
  turn each call into a round trip: the request surfaces to the caller by polling, and the caller's
  answer resumes the plugin.  Limits, a fetch gate and a header policy bound what a plugin can do.

  \<^bold>\<open>Shared theories.\<close>  \<open>Prelude\<close> (widths, results, panics, the \<open>codec\<close> locale), \<open>Rust_Str\<close>,
  \<open>Rust_Text\<close> and \<open>Rust_Float\<close> (strings as lists of scalar values, UTF-8 and its lossy decoding,
  integer and float printing), \<open>Hash_Map\<close> (the standard map behind the \<open>keyed_store\<close> interface),
  \<open>Ip_Addr\<close> (the standard address parser and predicates).

  \<^bold>\<open>Components, with the source each models.\<close>
  \<^item> \<open>Frames\<close> (\<open>wasi_http_frames.rs\<close>): the OUT-frame format.  The codec is exact, and the reference
    parser accepts exactly HEAD, BODY*, TRAILERS?.
  \<^item> \<open>Base64\<close> (\<open>plugin_host_bytes.rs\<close>): round trip and failure condition of the byte bridge.
  \<^item> \<open>Limits\<close> (\<open>limits.rs\<close>): budgets, caps and the annotation of limit errors.
  \<^item> \<open>Request_Policy\<close> (\<open>request_policy.rs\<close>) and \<open>Fetch_Gate\<close> (\<open>fetch_gate.rs\<close>): which headers and which
    requests may leave; the byte tests are shown equal to CIDR blocks and address ranges.
  \<^item> \<open>Storage_Events\<close> (\<open>storage_events.rs\<close>), \<open>Capstone\<close> (\<open>capstone.rs\<close>): the in-memory hosts.  Both
    interpret the locale \<open>gated_store\<close>; quotas are invariants of every call sequence, and the
    composed host refines its parts.
  \<^item> \<open>Resource_Table\<close> (\<open>Table\<close> of \<open>wasi_http.rs\<close>): the 32-bit id allocator, with the locale the
    resource methods are proved over.
  \<^item> \<open>Wasi_Http_Types\<close>, \<open>Http_Head\<close>, \<open>Wasi_Http_Handle\<close> (\<open>wasi_http.rs\<close>): the resources of
    \<open>wasi:http\<close> 0.3, the head and trailer lines, and \<open>handle\<close>: from a guest request to OUT frames and
    from the caller's frames to a guest response, on every failure path.  Each half of \<open>handle\<close> is one
    step: calls of other tasks of the guest come before, between and after them (\<open>guest_step\<close>), not
    between the batches of one body.
  \<^item> \<open>P3_Session\<close> and \<open>P3_Stream\<close> (the bridges of \<open>lib.rs\<close>): worker and caller interleave freely as
    step relations; sessions refine a thread-free interpretation, and dropping one never hangs.
  \<^item> \<open>Plugin_Host\<close> (\<open>plugin_host.rs\<close>, \<open>plugin_host_storage_events.rs\<close>, \<open>plugin_host_full.rs\<close>): the
    typed hosts over the round trip, with their JSON requests, replies and decoders.
  \<^item> \<open>Jit_Memory\<close> (\<open>jit_memory.rs\<close>), \<open>Engine\<close>, \<open>Embedded_Wasm\<close> (\<open>lib.rs\<close>): code mappings and their
    owners, with loaders that may fail or panic; engine configuration; the embedded programs and their
    entry points.  \<open>instantiate_async\<close> and \<open>call_async\<close> are the same parameters as their blocking forms.
  \<^item> \<open>C_Abi\<close> (\<open>lib.rs\<close>): engines, instances and session handles, null pointers and panics included.
    What a loaded component does is a parameter; in the streaming sessions it is the tree of its host
    calls, run by \<open>live_run\<close> and \<open>inference_live\<close> on the host made from the session's two ends.
  \<^item> \<open>Inference\<close> (\<open>inference.rs\<close>): \<open>complete\<close>, the request head and the token stream.
  \<^item> \<open>Wasi_Guests\<close> (\<open>wasi_guests.rs\<close>): the gated hooks of \<open>wasi:http\<close> 0.2 and the store state of JS
    and Go guests, on top of \<open>Fetch_Gate\<close>, \<open>Request_Policy\<close> and \<open>Capstone\<close>.

  \<^bold>\<open>Programs on top of the components.\<close>
  \<^item> \<open>Guest_Programs\<close> (\<open>test-guest\<close>, \<open>-p3\<close>, \<open>-workspace-run\<close>, \<open>-storage-events\<close>): the typed guests
    over the in-memory hosts and over the JSON wire.  The locale \<open>wired_host\<close> states when a
    transport-backed host and an in-memory one implement the same calls; its three interpretations
    are the pairs of hosts in the crate, and every program over the wired calls is shown to behave
    the same on both, up to the error codes the wire drops.
  \<^item> \<open>Http_Guests\<close> (\<open>test-guest-http\<close>, \<open>-http-post\<close>, \<open>-http-req-trailers\<close>, \<open>-plugin-http\<close>),
    \<open>Inference_Guest\<close> (\<open>test-guest-inference\<close>): what each sends and returns for any frames of the
    caller on the host model.
  \<^item> \<open>Http_Live\<close>: guests as trees of host calls, and their run on the host as a driver of \<open>P3_Stream\<close>.
    \<open>handle\<close> sends its frames as events and awaits the head; the body is the inbound receiver
    (\<open>FromCaller\<close>), read when the guest drains it.  The shipped guests, as trees, do live what they
    do on the host model.  A guest that passes the response body on as a request body is not covered.
  \<^item> \<open>Http02_Guest\<close> (\<open>test-guest-http-02\<close>): the 0.2 guest over its imports, and its error codes.
  \<^item> \<open>Runtime_Check\<close> (\<open>examples/hardened_runtime_check.rs\<close>): a client of the C ABI; its drive loop
    ends under every interleaving, all with the verdict of the plugin run (\<open>drive_always\<close> is the least
    predicate, so it leaves no infinite run), and the whole check passes exactly when both ways to load
    the plugin do.
  \<^item> \<open>Stream_Server\<close>: a streaming session with a caller that reacts to what it reads.  With a caller
    that answers once it has read the end mark, the pair can deadlock exactly when the driver reads
    before it has sent that mark; otherwise the run is one of \<open>P3_Stream\<close> on the answer.
  \<^item> \<open>Http_Session\<close>: the HTTP and inference guests from the C entry points to the result pointer,
    against an app that answers the request it has read.
  \<^item> \<open>Bench_Programs\<close> (\<open>examples/gen_bench_artifact.rs\<close>, \<open>bench_ios.rs\<close>, \<open>pulley_latency.rs\<close>): the two
    benchmark loops with a semantics of their structured instructions, and the checks around them.

  \<^bold>\<open>Conventions.\<close>  A Rust \<open>Result\<close> is a sum, a call that may panic an \<open>outcome\<close>, a blocked call \<open>None\<close>.
  Integers keep their width where it matters (ids, wire lengths, results of the C ABI); counters
  that cannot reach their bound are \<open>nat\<close>.  Code of other crates is a parameter: the WebAssembly
  engine and the operating system's mappings (\<open>Engine\<close>, \<open>Jit_Memory\<close>), the JSON library
  (\<open>Plugin_Host\<close>), stream minting (\<open>Wasi_Http_Handle\<close>, \<open>Inference\<close>), \<open>hyper\<close>'s header map and the
  network sender (\<open>Wasi_Guests\<close>), and what a loaded guest does.  Each hypothesis on a parameter
  is a named predicate with a concrete instance beside the property that uses it.

  The caller of a P3 session is a function with a state of its own (\<open>servicer\<close>); \<open>conforms\<close> states
  that it answers as an in-memory host would, \<open>engine_ok\<close> that the engine carries streams and
  futures, \<open>refusals_surface\<close> that the 0.2 implementation hands a refusal of the hooks on,
  \<open>runs_wasm\<close> that the configurations the crate builds give engines that run the crate's own programs
  with the imports they need (the canonical async one only with component-model async enabled), and
  \<open>carries_compute\<close> that an engine runs the benchmark artifact.

  \<^bold>\<open>Bounds.\<close>  The loops of the crate that are not structural have termination proofs: chunking,
  lossy decoding, address groups, digit generation.  The wait for request trailers is the crate's
  own bound of 64 yields.  Sessions are finite step relations, with the number of steps in the
  theorems.  Futures and response bodies of \<open>Wasi_Guests\<close> are coinductive, so they may stay pending
  for ever.  A guest that drains a stream of the caller runs as long as frames arrive, and the
  engine meters it: a drain in the tree of a guest carries the number of reads its fuel lasts for,
  ends in the engine's trap beyond it, and the theorems name the bound (the frames the caller pushes,
  one more for the drain of the inference guest).
  The benchmark loops run on fuel too, one unit a round: they return exactly when it covers their
  unsigned argument.

  \<^bold>\<open>Not modelled.\<close>  Linker registration and generated bindings, which hold no logic of the crate;
  freeing of plain memory by the ABI; the printing and the mapping probe of the runtime check; the
  timing and file writing of the benchmarks; the tests.
\<close>

end
